(* ===== verification/Prelude.thy ===== *)
theory Prelude
  imports Complex_Main "HOL-Library.Word" "HOL-Library.AList" "HOL-Library.Char_ord"
    "HOL-Library.List_Lexorder"
begin

section \<open>Shared vocabulary: Go strings, integers, time and dictionaries\<close>

text \<open>
  What the Go sources use of the language and of its standard library, as executable HOL
  functions, with the generic lemmas the component theories share.

  \<^item> A Go \<^verbatim>\<open>string\<close> or \<^verbatim>\<open>[]byte\<close> is a \<open>string\<close> (a list of bytes). The case-folding and
    white-space functions are the ASCII part of \<^verbatim>\<open>strings.ToLower\<close>, \<^verbatim>\<open>strings.EqualFold\<close> and
    \<^verbatim>\<open>strings.TrimSpace\<close>: host names, header names, cookie names and label values of the
    program are ASCII.
  \<^item> \<^verbatim>\<open>time.Time\<close> and \<^verbatim>\<open>time.Duration\<close> are \<open>int\<close>, in nanoseconds.
  \<^item> A Go map whose size or iteration order matters is an association list with distinct
    keys; the order of the list stands for the (unspecified) iteration order, so a theorem
    about every list is a theorem about every order.
  \<^item> \<^verbatim>\<open>float64\<close> arithmetic is exact rational arithmetic (\<open>rat\<close>); rounding is not modelled.
\<close>

named_theorems go_string \<open>rewrite rules for the string functions\<close>
named_theorems go_map \<open>rewrite rules for association lists used as Go maps\<close>

subsection \<open>Time\<close>

type_synonym instant = int
type_synonym duration = int

definition second :: duration where "second = 1000000000"
definition minute :: duration where "minute = 60 * second"
definition hour :: duration where "hour = 60 * minute"

lemmas time_units = second_def minute_def hour_def

definition seconds :: "duration \<Rightarrow> rat" where
  "seconds d = of_int d / of_int second"

lemma seconds_nonneg [simp]: "0 \<le> d \<Longrightarrow> 0 \<le> seconds d"
  by (simp add: seconds_def second_def)

lemma seconds_add: "seconds (a + b) = seconds a + seconds b"
  by (simp add: seconds_def add_divide_distrib)

lemma seconds_diff: "seconds (a - b) = seconds a - seconds b"
  by (simp add: seconds_def diff_divide_distrib)

lemma seconds_mono: "a \<le> b \<Longrightarrow> seconds a \<le> seconds b"
  by (simp add: seconds_def second_def divide_right_mono)

subsection \<open>Prefixes, suffixes, cutting and splitting\<close>

definition has_prefix :: "string \<Rightarrow> string \<Rightarrow> bool" where
  "has_prefix s p \<longleftrightarrow> take (length p) s = p"

definition has_suffix :: "string \<Rightarrow> string \<Rightarrow> bool" where
  "has_suffix s p \<longleftrightarrow> length p \<le> length s \<and> drop (length s - length p) s = p"

definition trim_prefix :: "string \<Rightarrow> string \<Rightarrow> string" where
  "trim_prefix s p = (if has_prefix s p then drop (length p) s else s)"

definition trim_suffix :: "string \<Rightarrow> string \<Rightarrow> string" where
  "trim_suffix s p = (if has_suffix s p then take (length s - length p) s else s)"

text \<open>\<^verbatim>\<open>strings.CutPrefix\<close>: \<open>None\<close> when the prefix is absent.\<close>

definition cut_prefix :: "string \<Rightarrow> string \<Rightarrow> string option" where
  "cut_prefix s p = (if has_prefix s p then Some (drop (length p) s) else None)"

text \<open>\<^verbatim>\<open>strings.Cut\<close> at a one-byte separator: \<open>None\<close> when it does not occur.\<close>

fun cut :: "string \<Rightarrow> char \<Rightarrow> (string \<times> string) option" where
  "cut [] c = None"
| "cut (x # xs) c =
     (if x = c then Some ([], xs)
      else case cut xs c of None \<Rightarrow> None | Some (a, b) \<Rightarrow> Some (x # a, b))"

text \<open>\<^verbatim>\<open>strings.Split\<close> at a one-byte separator; the result is never empty.\<close>

fun split_on :: "char \<Rightarrow> string \<Rightarrow> string list" where
  "split_on c [] = [[]]"
| "split_on c (x # xs) =
     (if x = c then [] # split_on c xs
      else case split_on c xs of [] \<Rightarrow> [[x]] | y # ys \<Rightarrow> (x # y) # ys)"

fun join :: "string \<Rightarrow> string list \<Rightarrow> string" where
  "join sep [] = []"
| "join sep [x] = x"
| "join sep (x # y # zs) = x @ sep @ join sep (y # zs)"

fun contains_str :: "string \<Rightarrow> string \<Rightarrow> bool" where
  "contains_str [] p \<longleftrightarrow> p = []"
| "contains_str (x # xs) p \<longleftrightarrow> has_prefix (x # xs) p \<or> contains_str xs p"

lemma has_prefix_append [simp, go_string]: "has_prefix (p @ s) p"
  by (simp add: has_prefix_def)

lemma has_prefix_iff: "has_prefix s p \<longleftrightarrow> (\<exists>r. s = p @ r)"
  by (metis append_take_drop_id append_eq_conv_conj has_prefix_def)

lemma has_prefix_empty [simp, go_string]: "has_prefix s []"
  by (simp add: has_prefix_def)

lemma has_prefix_length: "has_prefix s p \<Longrightarrow> length p \<le> length s"
  by (auto simp: has_prefix_iff)

lemma has_prefix_linear:
  "has_prefix s p \<Longrightarrow> has_prefix s q \<Longrightarrow> length p = length q \<Longrightarrow> p = q"
  by (simp add: has_prefix_def)

lemma trim_prefix_append [simp, go_string]: "trim_prefix (p @ s) p = s"
  by (simp add: trim_prefix_def)

lemma cut_prefix_append [simp, go_string]: "cut_prefix (p @ s) p = Some s"
  by (simp add: cut_prefix_def)

lemma cut_prefix_Some: "cut_prefix s p = Some r \<longleftrightarrow> s = p @ r"
  by (auto simp: cut_prefix_def has_prefix_def split: if_splits)
    (metis append_take_drop_id)

lemma cut_append [go_string]: "c \<notin> set a \<Longrightarrow> cut (a @ c # b) c = Some (a, b)"
  by (induction a) auto

lemma cut_SomeD: "cut s c = Some (a, b) \<Longrightarrow> s = a @ c # b \<and> c \<notin> set a"
  by (induction s c arbitrary: a rule: cut.induct)
    (auto split: if_splits option.splits prod.splits)

lemma cut_None: "cut s c = None \<longleftrightarrow> c \<notin> set s"
  by (induction s c rule: cut.induct) (auto split: option.splits)

lemma split_on_nonempty [simp]: "split_on c s \<noteq> []"
  by (induction s) (auto split: list.splits)

lemma split_on_notin [go_string]: "c \<notin> set s \<Longrightarrow> split_on c s = [s]"
  by (induction s) auto

lemma split_on_append [go_string]:
  "c \<notin> set a \<Longrightarrow> split_on c (a @ c # b) = a # split_on c b"
  by (induction a) auto

lemma length_split_on: "length (split_on c s) = Suc (count_list s c)"
  by (induction s) (auto split: list.splits)

lemma join_split_on: "join [c] (split_on c s) = s"
proof (induction s)
  case (Cons x xs)
  obtain y ys where s: "split_on c xs = y # ys"
    by (meson split_on_nonempty neq_Nil_conv)
  show ?case
    using Cons s by (cases ys) auto
qed simp

subsection \<open>White space and case\<close>

definition is_space :: "char \<Rightarrow> bool" where
  "is_space c \<longleftrightarrow> (let n = (of_char c :: nat) in n = 32 \<or> (9 \<le> n \<and> n \<le> 13))"

definition trim_space :: "string \<Rightarrow> string" where
  "trim_space s = rev (dropWhile is_space (rev (dropWhile is_space s)))"

definition lower_char :: "char \<Rightarrow> char" where
  "lower_char c =
     (let n = (of_char c :: nat) in if 65 \<le> n \<and> n \<le> 90 then char_of (n + 32) else c)"

definition to_lower :: "string \<Rightarrow> string" where
  "to_lower s = map lower_char s"

definition equal_fold :: "string \<Rightarrow> string \<Rightarrow> bool" where
  "equal_fold s t \<longleftrightarrow> to_lower s = to_lower t"

lemma equal_fold_refl [simp]: "equal_fold s s"
  by (simp add: equal_fold_def)

lemma equal_fold_sym: "equal_fold s t \<Longrightarrow> equal_fold t s"
  by (simp add: equal_fold_def)

lemma equal_fold_trans: "equal_fold s t \<Longrightarrow> equal_fold t u \<Longrightarrow> equal_fold s u"
  by (simp add: equal_fold_def)

lemma lower_char_idem [simp]: "lower_char (lower_char c) = lower_char c"
  by (auto simp: lower_char_def Let_def of_char_of)

lemma to_lower_idem [simp]: "to_lower (to_lower s) = to_lower s"
  by (simp add: to_lower_def)

lemma equal_fold_to_lower [simp]: "equal_fold (to_lower s) t \<longleftrightarrow> equal_fold s t"
  "equal_fold s (to_lower t) \<longleftrightarrow> equal_fold s t"
  by (simp_all add: equal_fold_def)

lemma length_to_lower [simp]: "length (to_lower s) = length s"
  by (simp add: to_lower_def)

text \<open>
  The comma-separated list reader: \<^verbatim>\<open>splitTrimmed\<close> of \<^verbatim>\<open>cmd/proxy/router.go\<close>,
  \<^verbatim>\<open>splitAndTrim\<close> of \<^verbatim>\<open>cmd/proxy/peers.go\<close> and \<^verbatim>\<open>splitList\<close> of \<^verbatim>\<open>internal/labels\<close> are this loop.
\<close>

definition splitTrimmed :: "string \<Rightarrow> string list" where
  "splitTrimmed s =
     (if s = [] then [] else filter (\<lambda>p. p \<noteq> []) (map trim_space (split_on CHR '','' s)))"

lemma splitTrimmed_nonempty: "p \<in> set (splitTrimmed s) \<Longrightarrow> p \<noteq> []"
  by (auto simp: splitTrimmed_def split: if_splits)

subsection \<open>Decimal integers: \<^verbatim>\<open>strconv.Atoi\<close>, \<^verbatim>\<open>strconv.ParseInt(_, 10, 64)\<close>, \<^verbatim>\<open>strconv.Itoa\<close>\<close>

definition digit :: "nat \<Rightarrow> char" where
  "digit d = char_of (48 + d)"

definition digit_val :: "char \<Rightarrow> nat option" where
  "digit_val c = (let n = (of_char c :: nat) in if 48 \<le> n \<and> n \<le> 57 then Some (n - 48) else None)"

fun nat_str :: "nat \<Rightarrow> string" where
  "nat_str n = (if n < 10 then [digit n] else nat_str (n div 10) @ [digit (n mod 10)])"

declare nat_str.simps [simp del]

fun parse_digits :: "nat \<Rightarrow> string \<Rightarrow> nat option" where
  "parse_digits acc [] = Some acc"
| "parse_digits acc (c # cs) =
     (case digit_val c of None \<Rightarrow> None | Some d \<Rightarrow> parse_digits (10 * acc + d) cs)"

definition int64_ok :: "int \<Rightarrow> bool" where
  "int64_ok i \<longleftrightarrow> - (2 ^ 63) \<le> i \<and> i < 2 ^ 63"

definition itoa :: "int \<Rightarrow> string" where
  "itoa i = (if i < 0 then CHR ''-'' # nat_str (nat (- i)) else nat_str (nat i))"

definition atoi :: "string \<Rightarrow> int option" where
  "atoi s =
     (let (neg, ds) = (case s of [] \<Rightarrow> (False, [])
                       | c # cs \<Rightarrow> if c = CHR ''-'' then (True, cs)
                                    else if c = CHR ''+'' then (False, cs) else (False, c # cs))
      in if ds = [] then None
         else case parse_digits 0 ds of
           None \<Rightarrow> None
         | Some n \<Rightarrow> (let i = (if neg then - int n else int n)
                      in if int64_ok i then Some i else None))"

lemma digit_val_digit [simp]: "d < 10 \<Longrightarrow> digit_val (digit d) = Some d"
  by (simp add: digit_val_def digit_def Let_def of_char_of)

lemma digit_neq_sign: "d < 10 \<Longrightarrow> digit d \<noteq> CHR ''-''" "d < 10 \<Longrightarrow> digit d \<noteq> CHR ''+''"
  "d < 10 \<Longrightarrow> digit d \<noteq> CHR ''|''"
proof -
  assume "d < 10"
  then have "(of_char (digit d) :: nat) = 48 + d" by (simp add: digit_def of_char_of)
  then show "digit d \<noteq> CHR ''-''" "digit d \<noteq> CHR ''+''" "digit d \<noteq> CHR ''|''"
    using \<open>d < 10\<close> by auto
qed

lemma parse_digits_append:
  "parse_digits acc (xs @ ys) = Option.bind (parse_digits acc xs) (\<lambda>n. parse_digits n ys)"
  by (induction acc xs rule: parse_digits.induct) (auto split: option.splits)

lemma nat_str_nonempty [simp]: "nat_str n \<noteq> []"
  by (subst nat_str.simps) simp

lemma nat_str_digits: "set (nat_str n) \<subseteq> digit ` {..<10}"
proof (induction n rule: nat_str.induct)
  case (1 n)
  then show ?case by (cases "n < 10") (auto simp: nat_str.simps [of n])
qed

lemma parse_digits_nat_str [simp]: "parse_digits 0 (nat_str n) = Some n"
proof (induction n rule: nat_str.induct)
  case (1 n)
  show ?case
  proof (cases "n < 10")
    case True
    then show ?thesis by (simp add: nat_str.simps [of n])
  next
    case False
    with "1.IH" show ?thesis
      by (simp add: nat_str.simps [of n] parse_digits_append)
  qed
qed

lemma nat_str_no_sep: "CHR ''|'' \<notin> set (nat_str n)" "CHR ''-'' \<notin> set (nat_str n)"
  "CHR ''+'' \<notin> set (nat_str n)"
  using nat_str_digits [of n] digit_neq_sign by (fastforce dest!: subsetD)+

lemma itoa_no_bar: "CHR ''|'' \<notin> set (itoa i)"
  by (simp add: itoa_def nat_str_no_sep)

lemma atoi_itoa: "int64_ok i \<Longrightarrow> atoi (itoa i) = Some i"
proof (cases "i < 0")
  case True
  assume "int64_ok i"
  with True show ?thesis by (simp add: atoi_def itoa_def Let_def)
next
  case False
  assume ok: "int64_ok i"
  obtain c cs where s: "nat_str (nat i) = c # cs"
    by (meson nat_str_nonempty neq_Nil_conv)
  then have "c \<noteq> CHR ''-''" "c \<noteq> CHR ''+''"
    using nat_str_no_sep [of "nat i"] by auto
  with False ok s parse_digits_nat_str [of "nat i"] show ?thesis
    by (simp add: atoi_def itoa_def Let_def split: option.splits del: parse_digits_nat_str)
qed

lemma atoi_range: "atoi s = Some i \<Longrightarrow> int64_ok i"
  by (auto simp: atoi_def Let_def split: prod.splits option.splits if_splits)

text \<open>Go's \<^verbatim>\<open>/\<close> and \<^verbatim>\<open>%\<close>: the quotient is truncated, the remainder has the sign of the dividend.\<close>

definition go_div :: "int \<Rightarrow> int \<Rightarrow> int" where
  "go_div a b = sgn a * sgn b * (\<bar>a\<bar> div \<bar>b\<bar>)"

definition go_rem :: "int \<Rightarrow> int \<Rightarrow> int" where
  "go_rem a b = sgn a * (\<bar>a\<bar> mod \<bar>b\<bar>)"

subsection \<open>Association lists as Go maps\<close>

abbreviation keys :: "('k \<times> 'v) list \<Rightarrow> 'k list" where
  "keys m \<equiv> map fst m"

lemma map_of_update [simp, go_map]:
  "map_of (AList.update k v m) k' = (if k' = k then Some v else map_of m k')"
  by (simp add: update_conv')

lemma map_of_delete_if [simp, go_map]:
  "map_of (AList.delete k m) k' = (if k' = k then None else map_of m k')"
  by (simp add: delete_conv')

lemma distinct_keys_filter: "distinct (keys m) \<Longrightarrow> distinct (keys (filter P m))"
  by (simp add: distinct_map_filter)

lemma map_of_filter_distinct:
  "distinct (keys m) \<Longrightarrow>
   map_of (filter P m) k = (case map_of m k of None \<Rightarrow> None | Some v \<Rightarrow> if P (k, v) then Some v else None)"
proof (induction m)
  case (Cons x m)
  obtain a v where x: "x = (a, v)" by (cases x)
  have "a \<notin> set (keys m)" using Cons.prems x by simp
  then have "map_of (filter P m) a = None"
    by (auto simp: map_of_eq_None_iff)
  with Cons x show ?case by auto
qed simp

lemma length_update:
  "length (AList.update k v m) = (if k \<in> set (keys m) then length m else Suc (length m))"
  by (induction m) auto

lemma length_delete_less: "k \<in> set (keys m) \<Longrightarrow> length (AList.delete k m) < length m"
  by (induction m) (force simp: less_Suc_eq_le length_delete_le)+

lemma set_update_subset: "set (AList.update k v m) \<subseteq> insert (k, v) (set m)"
  by (induction m) auto

lemma sum_list_update:
  "distinct (keys m) \<Longrightarrow>
   sum_list (map (f \<circ> snd) (AList.update k v m)) =
     sum_list (map (f \<circ> snd) m) + f v - (case map_of m k of None \<Rightarrow> 0 | Some w \<Rightarrow> f w)"
  for f :: "'v \<Rightarrow> int"
proof (induction m)
  case (Cons x m)
  obtain a w where x: "x = (a, w)" by (cases x)
  show ?case
  proof (cases "a = k")
    case True
    with x show ?thesis by simp
  next
    case False
    with Cons x show ?thesis by simp
  qed
qed simp

lemma sum_list_delete:
  "distinct (keys m) \<Longrightarrow>
   sum_list (map (f \<circ> snd) (AList.delete k m)) =
     sum_list (map (f \<circ> snd) m) - (case map_of m k of None \<Rightarrow> 0 | Some w \<Rightarrow> f w)"
  for f :: "'v \<Rightarrow> int"
proof (induction m)
  case (Cons x m)
  obtain a w where x: "x = (a, w)" by (cases x)
  show ?case
  proof (cases "a = k")
    case True
    with Cons.prems x have "map_of m k = None" "AList.delete k m = m"
      by (auto simp: map_of_eq_None_iff)
    with True x show ?thesis by simp
  next
    case False
    with Cons x show ?thesis by simp
  qed
qed simp

subsection \<open>Stable sorting by a length, longest first\<close>

text \<open>
  \<^verbatim>\<open>sort.SliceStable(xs, len(f(i)) > len(f(j)))\<close>: \<open>sort_key\<close> is stable, and sorting by the
  negated length puts the longest first.
\<close>

definition sort_longest :: "('a \<Rightarrow> string) \<Rightarrow> 'a list \<Rightarrow> 'a list" where
  "sort_longest f xs = sort_key (\<lambda>x. - int (length (f x))) xs"

lemma set_sort_longest [simp]: "set (sort_longest f xs) = set xs"
  by (simp add: sort_longest_def)

lemma length_sort_longest [simp]: "length (sort_longest f xs) = length xs"
  by (simp add: sort_longest_def)

lemma sorted_sort_longest:
  "sorted_wrt (\<lambda>x y. length (f y) \<le> length (f x)) (sort_longest f xs)"
proof -
  have "sorted (map (\<lambda>x. - int (length (f x))) (sort_longest f xs))"
    unfolding sort_longest_def by (rule sorted_sort_key)
  then show ?thesis by (simp add: sorted_map)
qed

lemma find_first_longest:
  assumes "sorted_wrt (\<lambda>x y. length (f y) \<le> length (f x)) xs"
    and "find P xs = Some x" and "y \<in> set xs" and "P y"
  shows "length (f y) \<le> length (f x)"
  using assms by (induction xs) (auto split: if_splits)

lemma update_nonkey: "k \<notin> set (keys xs) \<Longrightarrow> AList.update k v xs = xs @ [(k, v)]"
  by (induction xs) auto

subsection \<open>Loops that thread a state through a list\<close>

fun thread :: "('s \<Rightarrow> 'a \<Rightarrow> 's \<times> 'b) \<Rightarrow> 's \<Rightarrow> 'a list \<Rightarrow> 's \<times> 'b list" where
  "thread f s [] = (s, [])"
| "thread f s (x # xs) = (let (s1, y) = f s x; (s2, ys) = thread f s1 xs in (s2, y # ys))"

lemma length_thread [simp]: "length (snd (thread f s xs)) = length xs"
  by (induction xs arbitrary: s) (simp_all add: Let_def case_prod_unfold)

lemma thread_invariant:
  "I s \<Longrightarrow> (\<And>s x. I s \<Longrightarrow> x \<in> set xs \<Longrightarrow> I (fst (f s x))) \<Longrightarrow> I (fst (thread f s xs))"
  by (induction xs arbitrary: s) (simp_all add: Let_def case_prod_unfold)

lemma thread_map:
  "(\<And>s x. x \<in> set xs \<Longrightarrow> h (snd (f s x)) = k x) \<Longrightarrow> map h (snd (thread f s xs)) = map k xs"
  by (induction xs arbitrary: s) (simp_all add: Let_def case_prod_unfold)

end
