(* ===== verification/RateLimit.thy ===== *)
theory RateLimit
  imports Prelude
begin

section \<open>The per-client token bucket (\<^verbatim>\<open>cmd/proxy/ratelimit.go\<close>)\<close>

text \<open>
  The in-memory limiter of a \<^verbatim>\<open>proxy.ratelimit\<close> route: one token bucket per client key, a
  bounded bucket table and a periodic collection of idle buckets. The Go interface
  \<^verbatim>\<open>limiter\<close> is the locale \<open>limiter_contract\<close>: what a limiter promises about the number of
  requests it grants, proved once inside the locale and interpreted on \<open>rateLimiter\<close> here
  and on the Redis-backed limiters in \<^verbatim>\<open>RedisLimit\<close>.
\<close>

subsection \<open>State and operations\<close>

record bucket =
  tokens :: rat
  lastRefill :: instant
  lastSeen :: instant

record bucketSnapshot =
  snap_Key :: string
  snap_Tokens :: rat
  snap_Capacity :: rat

record rateLimiter =
  buckets :: "(string \<times> bucket) list"
  rate :: rat
  capacity :: rat
  stopped :: bool

definition idleEvict :: duration where "idleEvict = 30 * minute"

definition maxBuckets :: nat where "maxBuckets = 50000"

definition newRateLimiter :: "int \<Rightarrow> rateLimiter" where
  "newRateLimiter rpm =
     \<lparr>buckets = [], rate = of_int rpm / 60, capacity = of_int rpm, stopped = False\<rparr>"

text \<open>Closing a closed channel panics: \<open>None\<close>.\<close>

definition Stop :: "rateLimiter \<Rightarrow> rateLimiter option" where
  "Stop rl = (if stopped rl then None else Some (rl\<lparr>stopped := True\<rparr>))"

definition SetRate :: "rateLimiter \<Rightarrow> int \<Rightarrow> rateLimiter" where
  "SetRate rl rpm = rl\<lparr>rate := of_int rpm / 60, capacity := of_int rpm\<rparr>"

definition getOrCreate :: "rateLimiter \<Rightarrow> string \<Rightarrow> instant \<Rightarrow> rateLimiter \<times> bucket option" where
  "getOrCreate rl key now =
     (case map_of (buckets rl) key of
        Some b \<Rightarrow> (rl, Some b)
      | None \<Rightarrow>
          if maxBuckets \<le> length (buckets rl) then (rl, None)
          else let b = \<lparr>tokens = capacity rl, lastRefill = now, lastSeen = now\<rparr>
               in (rl\<lparr>buckets := AList.update key b (buckets rl)\<rparr>, Some b))"

definition refilled :: "rateLimiter \<Rightarrow> bucket \<Rightarrow> instant \<Rightarrow> rat" where
  "refilled rl b now =
     min (capacity rl) (tokens b + seconds (now - lastRefill b) * rate rl)"

definition Allow :: "rateLimiter \<Rightarrow> string \<Rightarrow> instant \<Rightarrow> rateLimiter \<times> bool" where
  "Allow rl key now =
     (case getOrCreate rl key now of
        (rl1, None) \<Rightarrow> (rl1, False)
      | (rl1, Some b) \<Rightarrow>
          let t = refilled rl1 b now;
              b1 = b\<lparr>tokens := t, lastRefill := now, lastSeen := now\<rparr>
          in if t < 1
             then (rl1\<lparr>buckets := AList.update key b1 (buckets rl1)\<rparr>, False)
             else (rl1\<lparr>buckets := AList.update key (b1\<lparr>tokens := t - 1\<rparr>) (buckets rl1)\<rparr>, True))"

definition Snapshot :: "rateLimiter \<Rightarrow> instant \<Rightarrow> bucketSnapshot list" where
  "Snapshot rl now =
     map (\<lambda>(k, b). \<lparr>snap_Key = k, snap_Tokens = refilled rl b now, snap_Capacity = capacity rl\<rparr>)
       (buckets rl)"

text \<open>One firing of the \<^verbatim>\<open>gc\<close> goroutine's ticker; after \<^verbatim>\<open>Stop\<close> the goroutine has returned.\<close>

definition gc :: "rateLimiter \<Rightarrow> instant \<Rightarrow> rateLimiter" where
  "gc rl now =
     (if stopped rl then rl
      else rl\<lparr>buckets := filter (\<lambda>(k, v). \<not> lastSeen v < now - idleEvict) (buckets rl)\<rparr>)"

subsection \<open>The contract of a limiter\<close>

datatype lim_event = Req string instant | Tick instant

fun ev_time :: "lim_event \<Rightarrow> instant" where
  "ev_time (Req k t) = t"
| "ev_time (Tick t) = t"

fun times_from :: "instant \<Rightarrow> lim_event list \<Rightarrow> bool" where
  "times_from t [] \<longleftrightarrow> True"
| "times_from t (e # es) \<longleftrightarrow> t \<le> ev_time e \<and> times_from (ev_time e) es"

fun end_time :: "instant \<Rightarrow> lim_event list \<Rightarrow> instant" where
  "end_time t [] = t"
| "end_time t (e # es) = end_time (ev_time e) es"

text \<open>The number of requests of key \<open>k\<close> that a run of a limiter grants.\<close>

fun grants :: "('l \<Rightarrow> string \<Rightarrow> instant \<Rightarrow> 'l \<times> bool) \<Rightarrow> ('l \<Rightarrow> instant \<Rightarrow> 'l) \<Rightarrow> string \<Rightarrow>
    'l \<Rightarrow> lim_event list \<Rightarrow> nat" where
  "grants allow tick k l [] = 0"
| "grants allow tick k l (Req k' t # es) =
     (let (l', ok) = allow l k' t
      in (if ok \<and> k' = k then 1 else 0) + grants allow tick k l' es)"
| "grants allow tick k l (Tick t # es) = grants allow tick k (tick l t) es"

lemma times_from_end: "times_from t es \<Longrightarrow> t \<le> end_time t es"
  by (induction es arbitrary: t) force+

locale limiter_contract =
  fixes allow :: "'l \<Rightarrow> string \<Rightarrow> instant \<Rightarrow> 'l \<times> bool"
    and tick :: "'l \<Rightarrow> instant \<Rightarrow> 'l"
    and budget :: "'l \<Rightarrow> string \<Rightarrow> instant \<Rightarrow> rat"
    and speed :: "'l \<Rightarrow> rat"
    and invar :: "'l \<Rightarrow> instant \<Rightarrow> bool"
  assumes invar_allow: "invar l t \<Longrightarrow> allow l k t = (l', ok) \<Longrightarrow> invar l' t"
    and invar_tick: "invar l t \<Longrightarrow> invar (tick l t) t"
    and invar_later: "invar l t \<Longrightarrow> t \<le> t' \<Longrightarrow> invar l t'"
    and speed_allow: "invar l t \<Longrightarrow> allow l k t = (l', ok) \<Longrightarrow> speed l' = speed l"
    and speed_tick: "invar l t \<Longrightarrow> speed (tick l t) = speed l"
    and budget_nonneg: "invar l t \<Longrightarrow> 0 \<le> budget l k t"
    and budget_later:
      "invar l t \<Longrightarrow> t \<le> t' \<Longrightarrow> budget l k t' \<le> budget l k t + speed l * seconds (t' - t)"
    and budget_allow: "invar l t \<Longrightarrow> allow l k t = (l', ok) \<Longrightarrow>
      budget l' k t + (if ok then 1 else 0) \<le> budget l k t"
    and budget_other: "invar l t \<Longrightarrow> allow l k t = (l', ok) \<Longrightarrow> k' \<noteq> k \<Longrightarrow>
      budget l' k' t \<le> budget l k' t"
    and budget_tick: "invar l t \<Longrightarrow> budget (tick l t) k t \<le> budget l k t"
begin

text \<open>Over any run, a key is granted at most its budget plus what is refilled meanwhile.\<close>

lemma grants_bound:
  "invar l t \<Longrightarrow> times_from t es \<Longrightarrow>
   of_nat (grants allow tick k l es) \<le> budget l k t + speed l * seconds (end_time t es - t)"
proof (induction es arbitrary: l t)
  case Nil
  then show ?case by (simp add: budget_nonneg seconds_def)
next
  case (Cons e es)
  let ?u = "ev_time e" and ?T = "end_time (ev_time e) es"
  from Cons.prems have le: "t \<le> ?u" and tf: "times_from ?u es" by auto
  from Cons.prems(1) le have inv: "invar l ?u" by (rule invar_later)
  have later: "budget l k ?u + speed l * seconds (?T - ?u)
      \<le> budget l k t + speed l * seconds (?T - t)"
    using budget_later [OF Cons.prems(1) le, of k] by (simp add: seconds_diff algebra_simps)
  show ?case
  proof (cases e)
    case (Req k' u)
    obtain l' ok where a: "allow l k' u = (l', ok)" by (cases "allow l k' u")
    note inv = inv [unfolded Req ev_time.simps]
    have inv': "invar l' u" using inv a by (rule invar_allow)
    have sp: "speed l' = speed l" using inv a by (rule speed_allow)
    have "of_nat (grants allow tick k l' es) \<le> budget l' k u + speed l * seconds (?T - u)"
      using Cons.IH [OF inv', of] tf Req sp by simp
    moreover have "budget l' k u + (if ok \<and> k' = k then 1 else 0) \<le> budget l k u"
      using budget_allow [OF inv a] budget_other [OF inv a, of k] by (cases "k' = k") auto
    ultimately show ?thesis using later Req a by (cases "ok \<and> k' = k") auto
  next
    case (Tick u)
    note inv = inv [unfolded Tick ev_time.simps]
    have "of_nat (grants allow tick k (tick l u) es)
        \<le> budget (tick l u) k u + speed l * seconds (?T - u)"
      using Cons.IH [OF invar_tick [OF inv]] tf Tick speed_tick [OF inv] by simp
    with budget_tick [OF inv, of k] later Tick show ?thesis by simp
  qed
qed

end

subsection \<open>The in-memory limiter meets the contract\<close>

definition bucket_ok :: "instant \<Rightarrow> bucket \<Rightarrow> bool" where
  "bucket_ok t b \<longleftrightarrow> 0 \<le> tokens b \<and> lastSeen b = lastRefill b \<and> lastRefill b \<le> t"

definition rl_inv :: "rateLimiter \<Rightarrow> instant \<Rightarrow> bool" where
  "rl_inv rl t \<longleftrightarrow> distinct (keys (buckets rl)) \<and> length (buckets rl) \<le> maxBuckets \<and>
     0 \<le> rate rl \<and> capacity rl = 60 * rate rl \<and> list_all (\<lambda>(k, b). bucket_ok t b) (buckets rl)"

definition rl_budget :: "rateLimiter \<Rightarrow> string \<Rightarrow> instant \<Rightarrow> rat" where
  "rl_budget rl k t =
     (case map_of (buckets rl) k of None \<Rightarrow> capacity rl | Some b \<Rightarrow> refilled rl b t)"

lemma refilled_nonneg: "bucket_ok t b \<Longrightarrow> 0 \<le> rate rl \<Longrightarrow> 0 \<le> capacity rl \<Longrightarrow> 0 \<le> refilled rl b t"
  by (simp add: refilled_def bucket_ok_def)

lemma refilled_le_capacity: "refilled rl b t \<le> capacity rl"
  by (simp add: refilled_def)

lemma refilled_buckets [simp]: "refilled (rl\<lparr>buckets := m\<rparr>) b t = refilled rl b t"
  by (simp add: refilled_def)

lemma refilled_now:
  "t \<le> capacity rl \<Longrightarrow> refilled rl \<lparr>tokens = t, lastRefill = now, lastSeen = s\<rparr> now = t"
  by (simp add: refilled_def seconds_def)

lemma bucket_ok_later: "bucket_ok t b \<Longrightarrow> t \<le> t' \<Longrightarrow> bucket_ok t' b"
  by (simp add: bucket_ok_def)

lemma rl_inv_bucket: "rl_inv rl t \<Longrightarrow> map_of (buckets rl) k = Some b \<Longrightarrow> bucket_ok t b"
  by (force simp: rl_inv_def list_all_iff dest: map_of_SomeD)

lemma rl_inv_update:
  assumes "rl_inv rl t" and "bucket_ok t b"
    and "k \<in> set (keys (buckets rl)) \<or> length (buckets rl) < maxBuckets"
  shows "rl_inv (rl\<lparr>buckets := AList.update k b (buckets rl)\<rparr>) t"
proof -
  have "list_all (\<lambda>(k, b). bucket_ok t b) (AList.update k b (buckets rl))"
    using assms(1,2) set_update_subset [of k b "buckets rl"]
    by (fastforce simp: rl_inv_def list_all_iff)
  moreover have "length (AList.update k b (buckets rl)) \<le> maxBuckets"
    using assms(1,3) by (auto simp: rl_inv_def length_update)
  ultimately show ?thesis
    using assms(1) by (simp add: rl_inv_def distinct_update)
qed

text \<open>A successful lookup-or-create leaves every budget as it was.\<close>

lemma getOrCreate_Some:
  assumes "rl_inv rl t" and "getOrCreate rl k t = (rl1, Some b)"
  shows "rl_inv rl1 t" "map_of (buckets rl1) k = Some b" "rl_budget rl1 k' t = rl_budget rl k' t"
    "rate rl1 = rate rl" "capacity rl1 = capacity rl"
proof -
  have cap: "0 \<le> capacity rl" using assms(1) by (simp add: rl_inv_def)
  show "rl_inv rl1 t" "map_of (buckets rl1) k = Some b" "rl_budget rl1 k' t = rl_budget rl k' t"
    "rate rl1 = rate rl" "capacity rl1 = capacity rl"
    using assms cap
    by (auto simp: getOrCreate_def Let_def rl_budget_def refilled_now bucket_ok_def
        split: option.splits if_splits intro!: rl_inv_update)
qed

lemma Allow_cases:
  assumes "Allow rl k t = (rl', ok)"
  obtains (full) "rl' = rl" "\<not> ok" "map_of (buckets rl) k = None" "maxBuckets \<le> length (buckets rl)"
  | (bucket) rl1 b where "getOrCreate rl k t = (rl1, Some b)" "ok \<longleftrightarrow> 1 \<le> refilled rl1 b t"
      "rl' = rl1\<lparr>buckets := AList.update k
        \<lparr>tokens = refilled rl1 b t - (if ok then 1 else 0), lastRefill = t, lastSeen = t\<rparr>
        (buckets rl1)\<rparr>"
proof (cases "getOrCreate rl k t")
  case (Pair rl1 ob)
  show ?thesis
  proof (cases ob)
    case None
    with Pair assms have "rl' = rl" "\<not> ok" "map_of (buckets rl) k = None"
      "maxBuckets \<le> length (buckets rl)"
      by (auto simp: Allow_def getOrCreate_def Let_def split: option.splits if_splits)
    then show ?thesis by (rule full)
  next
    case (Some b)
    with Pair assms show ?thesis
      by (cases b, intro bucket [of rl1 b]) (auto simp: Allow_def Let_def split: if_splits)
  qed
qed

lemma Allow_inv: "rl_inv rl t \<Longrightarrow> Allow rl k t = (rl', ok) \<Longrightarrow> rl_inv rl' t"
proof (erule Allow_cases)
  fix rl1 b
  assume inv: "rl_inv rl t" and g: "getOrCreate rl k t = (rl1, Some b)"
    and ok: "ok \<longleftrightarrow> 1 \<le> refilled rl1 b t"
    and rl': "rl' = rl1\<lparr>buckets := AList.update k
        \<lparr>tokens = refilled rl1 b t - (if ok then 1 else 0), lastRefill = t, lastSeen = t\<rparr>
        (buckets rl1)\<rparr>"
  note g' = getOrCreate_Some [OF inv g]
  have "0 \<le> refilled rl1 b t"
    using refilled_nonneg [OF rl_inv_bucket [OF g'(1,2)]] g'(1) by (simp add: rl_inv_def)
  then have "bucket_ok t \<lparr>tokens = refilled rl1 b t - (if ok then 1 else 0), lastRefill = t, lastSeen = t\<rparr>"
    using ok by (simp add: bucket_ok_def)
  moreover have "k \<in> set (keys (buckets rl1))"
    using g'(2) by (force dest: map_of_SomeD)
  ultimately show "rl_inv rl' t" unfolding rl' using g'(1) by (intro rl_inv_update) simp_all
qed simp

lemma Allow_rate: "rl_inv rl t \<Longrightarrow> Allow rl k t = (rl', ok) \<Longrightarrow> rate rl' = rate rl \<and> capacity rl' = capacity rl"
  by (erule Allow_cases) (auto dest: getOrCreate_Some)

lemma Allow_budget:
  assumes inv: "rl_inv rl t" and a: "Allow rl k t = (rl', ok)"
  shows "rl_budget rl' k' t = rl_budget rl k' t - (if ok \<and> k' = k then 1 else 0)"
  using a
proof (cases rule: Allow_cases)
  case (bucket rl1 b)
  note g' = getOrCreate_Some [OF inv bucket(1)]
  show ?thesis
  proof (cases "k' = k")
    case True
    have "rl_budget rl k t = refilled rl1 b t"
      using g'(2) g'(3) [of k] by (simp add: rl_budget_def)
    moreover have "refilled rl1 b t \<le> capacity rl1"
      by (rule refilled_le_capacity)
    ultimately show ?thesis using True bucket
      by (simp add: rl_budget_def refilled_now)
  next
    case False
    have "rl_budget rl' k' t = rl_budget rl1 k' t"
      using False bucket(3) by (simp add: rl_budget_def split: option.split)
    with g'(3) False show ?thesis by simp
  qed
qed simp

lemma rl_budget_later:
  assumes "rl_inv rl t" and "t \<le> t'"
  shows "rl_budget rl k t' \<le> rl_budget rl k t + rate rl * seconds (t' - t)"
proof -
  have r: "0 \<le> rate rl * seconds (t' - t)"
    using assms by (simp add: rl_inv_def)
  show ?thesis
  proof (cases "map_of (buckets rl) k")
    case None
    with r show ?thesis by (simp add: rl_budget_def)
  next
    case (Some b)
    have "seconds (t' - lastRefill b) * rate rl
        = seconds (t - lastRefill b) * rate rl + rate rl * seconds (t' - t)"
      by (simp add: seconds_diff algebra_simps)
    with r Some show ?thesis by (simp add: rl_budget_def refilled_def min_def)
  qed
qed

text \<open>
  Collecting an idle bucket changes nobody's budget: a bucket that has been idle for longer
  than \<^const>\<open>idleEvict\<close> has refilled to capacity, which is what a missing bucket counts for.
\<close>

lemma idle_bucket_full:
  assumes "bucket_ok t b" and "lastSeen b < t - idleEvict" and "0 \<le> rate rl"
    and "capacity rl = 60 * rate rl"
  shows "refilled rl b t = capacity rl"
proof -
  have "seconds idleEvict \<le> seconds (t - lastRefill b)"
    using assms(1,2) by (intro seconds_mono) (simp add: bucket_ok_def)
  then have "1800 \<le> seconds (t - lastRefill b)"
    by (simp add: idleEvict_def time_units seconds_def)
  then have "60 * rate rl \<le> seconds (t - lastRefill b) * rate rl"
    using assms(3) by (intro mult_right_mono) auto
  then show ?thesis
    using assms(1,4) by (simp add: refilled_def bucket_ok_def)
qed

lemma gc_budget:
  assumes inv: "rl_inv rl t" and le: "t \<le> t'"
  shows "rl_budget (gc rl t) k t' = rl_budget rl k t'"
proof (cases "map_of (buckets rl) k")
  case None
  then show ?thesis using inv
    by (simp add: gc_def rl_budget_def rl_inv_def map_of_filter_distinct)
next
  case (Some b)
  have "lastSeen b < t - idleEvict \<Longrightarrow> refilled rl b t' = capacity rl"
    using idle_bucket_full [OF bucket_ok_later [OF rl_inv_bucket [OF inv Some] le]] inv le
    by (simp add: rl_inv_def)
  with Some inv show ?thesis
    by (auto simp: gc_def rl_budget_def rl_inv_def map_of_filter_distinct)
qed

lemma gc_inv: "rl_inv rl t \<Longrightarrow> rl_inv (gc rl t) t"
  by (auto simp: gc_def rl_inv_def distinct_keys_filter list_all_iff
      intro: le_trans [OF length_filter_le])

lemma rl_inv_later: "rl_inv rl t \<Longrightarrow> t \<le> t' \<Longrightarrow> rl_inv rl t'"
  by (auto simp: rl_inv_def list_all_iff intro: bucket_ok_later)

lemma rl_budget_nonneg: "rl_inv rl t \<Longrightarrow> 0 \<le> rl_budget rl k t"
  by (auto simp: rl_budget_def rl_inv_def list_all_iff split: option.splits
      intro!: refilled_nonneg dest!: map_of_SomeD)

lemma rl_budget_le_capacity: "rl_budget rl k t \<le> capacity rl"
  by (simp add: rl_budget_def refilled_le_capacity split: option.splits)

lemma gc_rate [simp]: "rate (gc rl t) = rate rl" "capacity (gc rl t) = capacity rl"
  by (simp_all add: gc_def)

lemma newRateLimiter_inv: "0 \<le> rpm \<Longrightarrow> rl_inv (newRateLimiter rpm) t"
  by (simp add: rl_inv_def newRateLimiter_def)

interpretation mem_limiter: limiter_contract Allow gc rl_budget rate rl_inv
proof unfold_locales
  fix l l' :: rateLimiter and t t' :: instant and k k' :: string and ok :: bool
  show "rl_inv l t \<Longrightarrow> Allow l k t = (l', ok) \<Longrightarrow> rl_inv l' t" by (rule Allow_inv)
  show "rl_inv l t \<Longrightarrow> rl_inv (gc l t) t" by (rule gc_inv)
  show "rl_inv l t \<Longrightarrow> t \<le> t' \<Longrightarrow> rl_inv l t'" by (rule rl_inv_later)
  show "rl_inv l t \<Longrightarrow> Allow l k t = (l', ok) \<Longrightarrow> rate l' = rate l" by (simp add: Allow_rate)
  show "rl_inv l t \<Longrightarrow> rate (gc l t) = rate l" by simp
  show "rl_inv l t \<Longrightarrow> 0 \<le> rl_budget l k t" by (rule rl_budget_nonneg)
  show "rl_inv l t \<Longrightarrow> t \<le> t' \<Longrightarrow> rl_budget l k t' \<le> rl_budget l k t + rate l * seconds (t' - t)"
    by (rule rl_budget_later)
  show "rl_inv l t \<Longrightarrow> Allow l k t = (l', ok) \<Longrightarrow>
      rl_budget l' k t + (if ok then 1 else 0) \<le> rl_budget l k t" by (simp add: Allow_budget)
  show "rl_inv l t \<Longrightarrow> Allow l k t = (l', ok) \<Longrightarrow> k' \<noteq> k \<Longrightarrow>
      rl_budget l' k' t \<le> rl_budget l k' t" by (simp add: Allow_budget)
  show "rl_inv l t \<Longrightarrow> rl_budget (gc l t) k t \<le> rl_budget l k t" by (simp add: gc_budget)
qed

subsection \<open>Properties\<close>

lemma Allow_decision:
  assumes inv: "rl_inv rl t"
    and room: "map_of (buckets rl) k \<noteq> None \<or> length (buckets rl) < maxBuckets"
  shows "snd (Allow rl k t) \<longleftrightarrow> 1 \<le> rl_budget rl k t"
proof -
  obtain rl' ok where a: "Allow rl k t = (rl', ok)" by (cases "Allow rl k t")
  then show ?thesis
  proof (cases rule: Allow_cases)
    case (bucket rl1 b)
    have "rl_budget rl k t = refilled rl1 b t"
      using getOrCreate_Some(2) [OF inv bucket(1)] getOrCreate_Some(3) [OF inv bucket(1), of k]
      by (simp add: rl_budget_def)
    with a bucket(2) show ?thesis by simp
  qed (use room in simp)
qed

text \<open>
  (C21) Rate bound. Whatever requests of whatever clients arrive, and whenever the collector
  runs, a limiter created for \<open>rpm\<close> requests per minute grants one client at most
  \<open>rpm\<close> requests (the burst) plus \<open>rpm / 60\<close> per second that passes.
\<close>

theorem Allow_rate_bound:
  assumes "0 \<le> rpm" and "times_from t es"
  shows "of_nat (grants Allow gc k (newRateLimiter rpm) es)
    \<le> of_int rpm + of_int rpm / 60 * seconds (end_time t es - t)"
proof -
  have "rl_budget (newRateLimiter rpm) k t = of_int rpm"
    by (simp add: rl_budget_def newRateLimiter_def)
  then show ?thesis
    using mem_limiter.grants_bound [OF newRateLimiter_inv [OF assms(1)] assms(2), of k]
    by (simp add: newRateLimiter_def)
qed

theorem Allow_rate_bound_witness:
  "of_nat (grants Allow gc ''c'' (newRateLimiter 2)
       [Req ''c'' 0, Req ''c'' 0, Req ''c'' 0, Tick 5, Req ''c'' (30 * second)])
     \<le> (of_int 2 + of_int 2 / 60 * seconds (30 * second - 0) :: rat)"
  using Allow_rate_bound [of 2 0 "[Req ''c'' 0, Req ''c'' 0, Req ''c'' 0, Tick 5, Req ''c'' (30 * second)]" "''c''"]
  by (simp add: second_def)

text \<open>
  The collector is invisible. Removing the buckets that were idle for thirty minutes at
  time \<open>t\<close> changes no later decision: as long as the table has room for a new key, every
  request at a later time is granted after the collection exactly if it is without it.
\<close>

theorem gc_transparent:
  assumes "rl_inv rl t" and "t \<le> t'" and "length (buckets rl) < maxBuckets"
  shows "snd (Allow (gc rl t) k t') \<longleftrightarrow> snd (Allow rl k t')"
proof -
  have "length (buckets (gc rl t)) < maxBuckets"
    using assms(3) by (auto simp: gc_def intro: le_less_trans [OF length_filter_le])
  then show ?thesis
    using assms gc_budget [OF assms(1,2), of k]
      Allow_decision [OF rl_inv_later [OF gc_inv [OF assms(1)] assms(2)], of k]
      Allow_decision [OF rl_inv_later [OF assms(1,2)], of k]
    by simp
qed

theorem gc_transparent_witness:
  "snd (Allow (gc (fst (Allow (newRateLimiter 1) ''c'' 0)) (hour)) ''c'' hour)
     \<longleftrightarrow> snd (Allow (fst (Allow (newRateLimiter 1) ''c'' 0)) ''c'' hour)"
proof (rule gc_transparent)
  have "rl_inv (fst (Allow (newRateLimiter 1) ''c'' 0)) 0"
    by (rule Allow_inv [OF newRateLimiter_inv prod.collapse [symmetric]]) simp
  then show "rl_inv (fst (Allow (newRateLimiter 1) ''c'' 0)) hour"
    by (rule rl_inv_later) (simp add: time_units)
qed (simp_all add: Allow_def getOrCreate_def newRateLimiter_def maxBuckets_def refilled_def seconds_def Let_def)

text \<open>
  Bounded memory, no eviction under flood. A request never lets the bucket table grow past
  \<open>maxBuckets\<close>; when the table is full a client without a bucket is denied, and no client that
  has a bucket loses it.
\<close>

theorem Allow_bounded_table:
  assumes "rl_inv rl t" and "Allow rl k t = (rl', ok)"
  shows "length (buckets rl') \<le> maxBuckets \<and> set (keys (buckets rl)) \<subseteq> set (keys (buckets rl')) \<and>
    (length (buckets rl) = maxBuckets \<and> k \<notin> set (keys (buckets rl)) \<longrightarrow> \<not> ok \<and> rl' = rl)"
proof (intro conjI impI)
  show "length (buckets rl') \<le> maxBuckets"
    using Allow_inv [OF assms] by (simp add: rl_inv_def)
  show "set (keys (buckets rl)) \<subseteq> set (keys (buckets rl'))"
    using assms(2) by (rule Allow_cases)
      (force simp: getOrCreate_def Let_def dom_update split: option.splits if_splits)+
next
  assume "length (buckets rl) = maxBuckets \<and> k \<notin> set (keys (buckets rl))"
  then have "getOrCreate rl k t = (rl, None)"
    by (simp add: getOrCreate_def map_of_eq_None_iff split: option.split)
  with assms(2) show "\<not> ok" "rl' = rl" by (simp_all add: Allow_def)
qed

theorem Allow_bounded_table_witness:
  "length (buckets (fst (Allow (newRateLimiter 1) ''c'' 0))) \<le> maxBuckets"
  using Allow_bounded_table [OF newRateLimiter_inv [of 1 0], of "''c''"
      "fst (Allow (newRateLimiter 1) ''c'' 0)" "snd (Allow (newRateLimiter 1) ''c'' 0)"]
  by simp

end
