(* ===== verification/RedisLimit.thy ===== *)
theory RedisLimit
  imports RateLimit
begin

section \<open>The shared limiter and its circuit breaker (\<^verbatim>\<open>cmd/proxy/redisrl.go\<close>)\<close>

text \<open>
  The token bucket kept in Redis so that every proxy of the mesh charges one shared budget,
  and the limiter that falls back to the in-memory one of \<^verbatim>\<open>RateLimit\<close> behind a circuit
  breaker. The Redis database is seen through the three commands the script issues: a key
  holds the hash fields \<^verbatim>\<open>tokens\<close> and \<^verbatim>\<open>ts\<close> (in seconds) and the time at which it expires.
  Whether a call reaches the server, and whether its reply comes back, is decided by the
  environment (\<open>redis_env\<close>), call by call.
\<close>

subsection \<open>The Lua script\<close>

record rentry =
  re_tokens :: rat
  re_ts :: rat
  re_expires :: rat

type_synonym rdb = "string \<rightharpoonup> rentry"

text \<open>The arguments are \<^verbatim>\<open>ARGV\<close>: capacity, rate, now and ttl, all in seconds.\<close>

definition tokenBucketScript ::
    "rdb \<Rightarrow> string \<Rightarrow> rat \<Rightarrow> rat \<Rightarrow> rat \<Rightarrow> rat \<Rightarrow> rdb \<times> bool" where
  "tokenBucketScript db key cap rt now ttl =
     (let (tk, ts) = (case db key of Some e \<Rightarrow> (re_tokens e, re_ts e) | None \<Rightarrow> (cap, now));
          elapsed = (if now - ts < 0 then 0 else now - ts);
          tk1 = min cap (tk + elapsed * rt);
          (tk2, allowed) = (if 1 \<le> tk1 then (tk1 - 1, True) else (tk1, False))
      in (db(key \<mapsto> \<lparr>re_tokens = tk2, re_ts = now, re_expires = now + ttl\<rparr>), allowed))"

record redisLimiter =
  rr_routeKey :: string
  rr_rate :: rat
  rr_capacity :: rat
  rr_ttl :: duration

definition newRedisLimiter :: "string \<Rightarrow> int \<Rightarrow> duration \<Rightarrow> redisLimiter" where
  "newRedisLimiter rk rpm ttl =
     \<lparr>rr_routeKey = rk, rr_rate = of_int rpm / 60, rr_capacity = of_int rpm, rr_ttl = ttl\<rparr>"

definition redisSetRate :: "redisLimiter \<Rightarrow> int \<Rightarrow> redisLimiter" where
  "redisSetRate rl rpm = rl\<lparr>rr_rate := of_int rpm / 60, rr_capacity := of_int rpm\<rparr>"

definition redisKey :: "redisLimiter \<Rightarrow> string \<Rightarrow> string" where
  "redisKey rl key = ''pmgr:rl:'' @ rr_routeKey rl @ '':'' @ key"

text \<open>
  \<open>RedisOk\<close>: the script ran and its reply arrived; \<open>RedisDown\<close>: it did not run;
  \<open>RedisLost\<close>: it ran but the reply was lost (a timeout), an error to the caller.
\<close>

datatype redis_env = RedisOk | RedisDown | RedisLost

text \<open>\<open>None\<close> is the error return.\<close>

definition redisAllow ::
    "redis_env \<Rightarrow> redisLimiter \<Rightarrow> rdb \<Rightarrow> string \<Rightarrow> instant \<Rightarrow> rdb \<times> bool option" where
  "redisAllow env rl db key now =
     (let (db', allowed) = tokenBucketScript db (redisKey rl key) (rr_capacity rl) (rr_rate rl)
            (seconds now) (of_int (rr_ttl rl div second))
      in case env of
           RedisOk \<Rightarrow> (db', Some allowed)
         | RedisDown \<Rightarrow> (db, None)
         | RedisLost \<Rightarrow> (db', None))"

text \<open>The server drops the keys whose time to live has passed.\<close>

definition redisExpire :: "rdb \<Rightarrow> instant \<Rightarrow> rdb" where
  "redisExpire db now =
     (\<lambda>k. case db k of Some e \<Rightarrow> if re_expires e \<le> seconds now then None else Some e | None \<Rightarrow> None)"

definition globEscape :: "string \<Rightarrow> string" where
  "globEscape s =
     concat (map (\<lambda>c. if c \<in> set ''*?[]'' \<or> c = char_of (92 :: nat) then [char_of (92 :: nat), c] else [c]) s)"

subsection \<open>The hybrid limiter\<close>

record hybridLimiter =
  h_primary :: redisLimiter
  h_fallback :: rateLimiter
  h_failures :: int
  h_openUntil :: "instant option"

definition redisFailureThreshold :: int where "redisFailureThreshold = 3"
definition redisBreakerCooldown :: duration where "redisBreakerCooldown = 30 * second"

definition newHybridLimiter :: "string \<Rightarrow> int \<Rightarrow> duration \<Rightarrow> hybridLimiter" where
  "newHybridLimiter rk rpm ttl =
     \<lparr>h_primary = newRedisLimiter rk rpm ttl, h_fallback = newRateLimiter rpm,
      h_failures = 0, h_openUntil = None\<rparr>"

definition breakerOpen :: "hybridLimiter \<Rightarrow> instant \<Rightarrow> bool" where
  "breakerOpen h now \<longleftrightarrow> (case h_openUntil h of None \<Rightarrow> False | Some u \<Rightarrow> now < u)"

definition recordFailure :: "hybridLimiter \<Rightarrow> instant \<Rightarrow> hybridLimiter" where
  "recordFailure h now =
     (let h1 = h\<lparr>h_failures := h_failures h + 1\<rparr>
      in if redisFailureThreshold \<le> h_failures h1
         then h1\<lparr>h_openUntil := Some (now + redisBreakerCooldown)\<rparr> else h1)"

definition recordSuccess :: "hybridLimiter \<Rightarrow> hybridLimiter" where
  "recordSuccess h = h\<lparr>h_failures := 0, h_openUntil := None\<rparr>"

definition fallbackAllow :: "hybridLimiter \<Rightarrow> string \<Rightarrow> instant \<Rightarrow> hybridLimiter \<times> bool" where
  "fallbackAllow h key now =
     (let (f, ok) = Allow (h_fallback h) key now in (h\<lparr>h_fallback := f\<rparr>, ok))"

definition hybridAllow ::
    "redis_env \<Rightarrow> hybridLimiter \<Rightarrow> rdb \<Rightarrow> string \<Rightarrow> instant \<Rightarrow> (hybridLimiter \<times> rdb) \<times> bool" where
  "hybridAllow env h db key now =
     (if breakerOpen h now
      then (let (h', ok) = fallbackAllow h key now in ((h', db), ok))
      else case redisAllow env (h_primary h) db key now of
        (db', None) \<Rightarrow> (let (h', ok) = fallbackAllow (recordFailure h now) key now in ((h', db'), ok))
      | (db', Some allowed) \<Rightarrow> ((recordSuccess h, db'), allowed))"

definition hybridSetRate :: "hybridLimiter \<Rightarrow> int \<Rightarrow> hybridLimiter" where
  "hybridSetRate h rpm =
     h\<lparr>h_primary := redisSetRate (h_primary h) rpm, h_fallback := SetRate (h_fallback h) rpm\<rparr>"

definition hybridStop :: "hybridLimiter \<Rightarrow> hybridLimiter option" where
  "hybridStop h = map_option (\<lambda>f. h\<lparr>h_fallback := f\<rparr>) (Stop (h_fallback h))"

subsection \<open>The shared bucket meets the limiter contract\<close>

text \<open>
  The state of a run: the limiter, the database, and the environment's choices, consumed one
  per call that reaches \<^verbatim>\<open>redisAllow\<close>.
\<close>

record hybrid_sys =
  hs_lim :: hybridLimiter
  hs_db :: rdb
  hs_env :: "nat \<Rightarrow> redis_env"
  hs_calls :: nat

definition hs_allow :: "hybrid_sys \<Rightarrow> string \<Rightarrow> instant \<Rightarrow> hybrid_sys \<times> bool" where
  "hs_allow s key now =
     (let ((h, db), ok) = hybridAllow (hs_env s (hs_calls s)) (hs_lim s) (hs_db s) key now
      in (s\<lparr>hs_lim := h, hs_db := db, hs_calls := Suc (hs_calls s)\<rparr>, ok))"

definition hs_tick :: "hybrid_sys \<Rightarrow> instant \<Rightarrow> hybrid_sys" where
  "hs_tick s now =
     s\<lparr>hs_lim := (hs_lim s)\<lparr>h_fallback := gc (h_fallback (hs_lim s)) now\<rparr>,
       hs_db := redisExpire (hs_db s) now\<rparr>"

definition re_refilled :: "redisLimiter \<Rightarrow> rentry \<Rightarrow> rat \<Rightarrow> rat" where
  "re_refilled rl e now =
     min (rr_capacity rl)
       (re_tokens e + (if now - re_ts e < 0 then 0 else now - re_ts e) * rr_rate rl)"

definition rdb_budget :: "redisLimiter \<Rightarrow> rdb \<Rightarrow> string \<Rightarrow> instant \<Rightarrow> rat" where
  "rdb_budget rl db k t =
     (case db (redisKey rl k) of None \<Rightarrow> rr_capacity rl | Some e \<Rightarrow> re_refilled rl e (seconds t))"

definition rdb_inv :: "redisLimiter \<Rightarrow> rdb \<Rightarrow> instant \<Rightarrow> bool" where
  "rdb_inv rl db t \<longleftrightarrow> 0 \<le> rr_rate rl \<and> rr_capacity rl = 60 * rr_rate rl \<and> minute \<le> rr_ttl rl \<and>
     (\<forall>k e. db k = Some e \<longrightarrow> 0 \<le> re_tokens e \<and> re_ts e \<le> seconds t \<and>
        re_ts e + 60 \<le> re_expires e)"

definition hs_inv :: "hybrid_sys \<Rightarrow> instant \<Rightarrow> bool" where
  "hs_inv s t \<longleftrightarrow> rl_inv (h_fallback (hs_lim s)) t \<and> rdb_inv (h_primary (hs_lim s)) (hs_db s) t"

definition hs_budget :: "hybrid_sys \<Rightarrow> string \<Rightarrow> instant \<Rightarrow> rat" where
  "hs_budget s k t =
     rdb_budget (h_primary (hs_lim s)) (hs_db s) k t + rl_budget (h_fallback (hs_lim s)) k t"

definition hs_speed :: "hybrid_sys \<Rightarrow> rat" where
  "hs_speed s = rr_rate (h_primary (hs_lim s)) + rate (h_fallback (hs_lim s))"

lemma redisKey_inj [simp]: "redisKey rl k = redisKey rl k' \<longleftrightarrow> k = k'"
  by (simp add: redisKey_def)

lemma ttl_seconds: "minute \<le> d \<Longrightarrow> (60 :: rat) \<le> of_int (d div second)"
proof -
  assume "minute \<le> d"
  then have "minute div second \<le> d div second"
    by (intro zdiv_mono1) (simp_all add: second_def)
  then have "60 \<le> d div second" by (simp add: time_units)
  then show ?thesis by (metis of_int_le_iff of_int_numeral)
qed

lemma rdb_budget_update:
  "rdb_budget rl (db(redisKey rl k \<mapsto> e)) k' t =
     (if k' = k then re_refilled rl e (seconds t) else rdb_budget rl db k' t)"
  by (simp add: rdb_budget_def)

lemma re_refilled_now:
  "re_refilled rl \<lparr>re_tokens = x, re_ts = now, re_expires = y\<rparr> now = min (rr_capacity rl) x"
  by (simp add: re_refilled_def)

text \<open>What one run of the script does to the budget of every key.\<close>

lemma script_spec:
  assumes inv: "rdb_inv rl db t"
    and s: "tokenBucketScript db (redisKey rl k) (rr_capacity rl) (rr_rate rl) (seconds t)
      (of_int (rr_ttl rl div second)) = (db', ok)"
  shows "rdb_inv rl db' t"
    and "rdb_budget rl db' k' t = rdb_budget rl db k' t - (if ok \<and> k' = k then 1 else 0)"
    and "ok \<longleftrightarrow> 1 \<le> rdb_budget rl db k t"
proof -
  have cap: "0 \<le> rr_capacity rl" using inv by (simp add: rdb_inv_def)
  have ttl: "60 \<le> (of_int (rr_ttl rl div second) :: rat)"
    using inv by (intro ttl_seconds) (simp add: rdb_inv_def)
  let ?b = "rdb_budget rl db k t"
  have b: "0 \<le> ?b" "?b \<le> rr_capacity rl"
    using inv cap by (auto simp: rdb_budget_def re_refilled_def rdb_inv_def split: option.splits)
  have ok: "ok \<longleftrightarrow> 1 \<le> ?b" and db': "db' = db(redisKey rl k \<mapsto>
      \<lparr>re_tokens = ?b - (if ok then 1 else 0), re_ts = seconds t,
       re_expires = seconds t + of_int (rr_ttl rl div second)\<rparr>)"
    using s cap
    by (auto simp: tokenBucketScript_def rdb_budget_def re_refilled_def Let_def
        split: option.splits if_splits)
  show "ok \<longleftrightarrow> 1 \<le> ?b" by (rule ok)
  show "rdb_inv rl db' t"
    using inv b ok ttl by (auto simp: rdb_inv_def db')
  show "rdb_budget rl db' k' t = rdb_budget rl db k' t - (if ok \<and> k' = k then 1 else 0)"
    using b by (simp add: db' rdb_budget_update re_refilled_now)
qed

lemma rdb_budget_later:
  assumes inv: "rdb_inv rl db t" and "t \<le> t'"
  shows "rdb_budget rl db k t' \<le> rdb_budget rl db k t + rr_rate rl * seconds (t' - t)"
proof (cases "db (redisKey rl k)")
  case None
  with assms show ?thesis by (simp add: rdb_budget_def rdb_inv_def)
next
  case (Some e)
  have r: "0 \<le> rr_rate rl * seconds (t' - t)" using assms by (simp add: rdb_inv_def)
  have "re_ts e \<le> seconds t" using inv Some by (auto simp: rdb_inv_def)
  moreover have "seconds t \<le> seconds t'" using assms(2) by (rule seconds_mono)
  moreover have "(seconds t' - re_ts e) * rr_rate rl
      = (seconds t - re_ts e) * rr_rate rl + rr_rate rl * seconds (t' - t)"
    by (simp add: seconds_diff algebra_simps)
  ultimately show ?thesis using r Some
    by (simp add: rdb_budget_def re_refilled_def min_def)
qed

lemma expire_spec:
  assumes inv: "rdb_inv rl db t"
  shows "rdb_inv rl (redisExpire db t) t"
    and "rdb_budget rl (redisExpire db t) k t = rdb_budget rl db k t"
proof -
  show "rdb_inv rl (redisExpire db t) t"
    using inv by (auto simp: rdb_inv_def redisExpire_def split: option.splits if_splits)
  show "rdb_budget rl (redisExpire db t) k t = rdb_budget rl db k t"
  proof (cases "db (redisKey rl k)")
    case None
    then show ?thesis by (simp add: rdb_budget_def redisExpire_def)
  next
    case (Some e)
    have "re_expires e \<le> seconds t \<Longrightarrow> re_refilled rl e (seconds t) = rr_capacity rl"
    proof -
      assume "re_expires e \<le> seconds t"
      moreover have "re_ts e + 60 \<le> re_expires e" "0 \<le> re_tokens e"
        using inv Some by (auto simp: rdb_inv_def)
      ultimately have "60 \<le> seconds t - re_ts e" "0 \<le> re_tokens e" by linarith+
      moreover from this have "60 * rr_rate rl \<le> (seconds t - re_ts e) * rr_rate rl"
        using inv by (intro mult_right_mono) (auto simp: rdb_inv_def)
      ultimately show ?thesis
        using inv by (simp add: re_refilled_def rdb_inv_def)
    qed
    with Some show ?thesis by (simp add: rdb_budget_def redisExpire_def)
  qed
qed

lemma rdb_inv_later: "rdb_inv rl db t \<Longrightarrow> t \<le> t' \<Longrightarrow> rdb_inv rl db t'"
  unfolding rdb_inv_def by (meson order_trans seconds_mono)

lemma rdb_budget_nonneg: "rdb_inv rl db t \<Longrightarrow> 0 \<le> rdb_budget rl db k t"
  by (auto simp: rdb_budget_def re_refilled_def rdb_inv_def split: option.splits)

lemma recordFailure_frame [simp]:
  "h_primary (recordFailure h t) = h_primary h" "h_fallback (recordFailure h t) = h_fallback h"
  by (simp_all add: recordFailure_def Let_def)

lemma recordSuccess_frame [simp]:
  "h_primary (recordSuccess h) = h_primary h" "h_fallback (recordSuccess h) = h_fallback h"
  by (simp_all add: recordSuccess_def)

text \<open>
  A call charges the shared bucket, the local one, or (reply lost) both, and the answer given
  to the caller is always one that a bucket paid for.
\<close>

lemma redisAllow_spec:
  assumes inv: "rdb_inv rl db t" and a: "redisAllow env rl db k t = (db', r)"
  shows "rdb_inv rl db' t"
    and "rdb_budget rl db' k' t + (if r = Some True \<and> k' = k then 1 else 0) \<le> rdb_budget rl db k' t"
proof -
  obtain db1 ok where s: "tokenBucketScript db (redisKey rl k) (rr_capacity rl) (rr_rate rl)
      (seconds t) (of_int (rr_ttl rl div second)) = (db1, ok)"
    by (metis prod.exhaust)
  note sp = script_spec [OF inv s]
  show "rdb_inv rl db' t"
    using a s sp(1) inv by (auto simp: redisAllow_def split: redis_env.splits)
  show "rdb_budget rl db' k' t + (if r = Some True \<and> k' = k then 1 else 0) \<le> rdb_budget rl db k' t"
    using a s sp(2) [of k'] by (auto simp: redisAllow_def split: redis_env.splits if_splits)
qed

lemma fallbackAllow_spec:
  assumes inv: "rl_inv (h_fallback h) t" and a: "fallbackAllow h k t = (h', ok)"
  shows "rl_inv (h_fallback h') t" "rate (h_fallback h') = rate (h_fallback h)"
    "h_primary h' = h_primary h"
    "rl_budget (h_fallback h') k' t = rl_budget (h_fallback h) k' t - (if ok \<and> k' = k then 1 else 0)"
proof -
  obtain f where f: "Allow (h_fallback h) k t = (f, ok)" and h': "h' = h\<lparr>h_fallback := f\<rparr>"
    using a by (auto simp: fallbackAllow_def split: prod.splits)
  show "rl_inv (h_fallback h') t" "rate (h_fallback h') = rate (h_fallback h)"
    "h_primary h' = h_primary h"
    "rl_budget (h_fallback h') k' t = rl_budget (h_fallback h) k' t - (if ok \<and> k' = k then 1 else 0)"
    using Allow_inv [OF inv f] Allow_rate [OF inv f] Allow_budget [OF inv f] by (simp_all add: h')
qed

lemma hybridAllow_cases:
  assumes "hybridAllow env h db k t = ((h', db'), ok)"
  obtains (opened) "breakerOpen h t" "fallbackAllow h k t = (h', ok)" "db' = db"
  | (failed) "\<not> breakerOpen h t" "redisAllow env (h_primary h) db k t = (db', None)"
      "fallbackAllow (recordFailure h t) k t = (h', ok)"
  | (answered) "\<not> breakerOpen h t" "redisAllow env (h_primary h) db k t = (db', Some ok)"
      "h' = recordSuccess h"
  using assms
  by (auto simp: hybridAllow_def split: if_splits prod.splits option.splits)

lemma hs_allow_spec:
  assumes inv: "hs_inv s t" and a: "hs_allow s k t = (s', ok)"
  shows "hs_inv s' t" and "hs_speed s' = hs_speed s"
    and "hs_budget s' k' t + (if ok \<and> k' = k then 1 else 0) \<le> hs_budget s k' t"
proof -
  obtain h db where y: "hybridAllow (hs_env s (hs_calls s)) (hs_lim s) (hs_db s) k t = ((h, db), ok)"
    and s': "s' = s\<lparr>hs_lim := h, hs_db := db, hs_calls := Suc (hs_calls s)\<rparr>"
    using a by (auto simp: hs_allow_def split: prod.splits)
  have f: "rl_inv (h_fallback (hs_lim s)) t" and r: "rdb_inv (h_primary (hs_lim s)) (hs_db s) t"
    using inv by (simp_all add: hs_inv_def)
  have "hs_inv s' t \<and> hs_speed s' = hs_speed s \<and>
      hs_budget s' k' t + (if ok \<and> k' = k then 1 else 0) \<le> hs_budget s k' t"
    using y
  proof (cases rule: hybridAllow_cases)
    case opened
    with fallbackAllow_spec [OF f opened(2)] r show ?thesis
      by (simp add: s' hs_inv_def hs_budget_def hs_speed_def)
  next
    case failed
    have f': "rl_inv (h_fallback (recordFailure (hs_lim s) t)) t" using f by simp
    note fb = fallbackAllow_spec [OF f' failed(3)] and ra = redisAllow_spec [OF r failed(2)]
    show ?thesis
      using fb(1-3) fb(4) [of k'] ra(1) ra(2) [of k']
      by (simp add: s' hs_inv_def hs_budget_def hs_speed_def)
  next
    case answered
    note ra = redisAllow_spec [OF r answered(2)]
    show ?thesis
      using f ra(1) ra(2) [of k'] answered(3)
      by (simp add: s' hs_inv_def hs_budget_def hs_speed_def)
  qed
  then show "hs_inv s' t" and "hs_speed s' = hs_speed s"
    and "hs_budget s' k' t + (if ok \<and> k' = k then 1 else 0) \<le> hs_budget s k' t"
    by simp_all
qed

interpretation hybrid_limiter: limiter_contract hs_allow hs_tick hs_budget hs_speed hs_inv
proof unfold_locales
  fix l l' :: hybrid_sys and t t' :: instant and k k' :: string and ok :: bool
  show "hs_inv l t \<Longrightarrow> hs_allow l k t = (l', ok) \<Longrightarrow> hs_inv l' t" by (rule hs_allow_spec)
  show "hs_inv l t \<Longrightarrow> hs_inv (hs_tick l t) t"
    by (simp add: hs_inv_def hs_tick_def gc_inv expire_spec)
  show "hs_inv l t \<Longrightarrow> t \<le> t' \<Longrightarrow> hs_inv l t'"
    by (auto simp: hs_inv_def intro: rl_inv_later rdb_inv_later)
  show "hs_inv l t \<Longrightarrow> hs_allow l k t = (l', ok) \<Longrightarrow> hs_speed l' = hs_speed l"
    by (rule hs_allow_spec)
  show "hs_inv l t \<Longrightarrow> hs_speed (hs_tick l t) = hs_speed l"
    by (simp add: hs_speed_def hs_tick_def)
  show "hs_inv l t \<Longrightarrow> 0 \<le> hs_budget l k t"
    by (simp add: hs_budget_def hs_inv_def rdb_budget_nonneg rl_budget_nonneg)
  show "hs_budget l k t' \<le> hs_budget l k t + hs_speed l * seconds (t' - t)"
    if "hs_inv l t" "t \<le> t'"
    using that rl_budget_later [of "h_fallback (hs_lim l)" t t' k]
      rdb_budget_later [of "h_primary (hs_lim l)" "hs_db l" t t' k]
    by (simp add: hs_budget_def hs_speed_def hs_inv_def distrib_right)
  show "hs_inv l t \<Longrightarrow> hs_allow l k t = (l', ok) \<Longrightarrow>
      hs_budget l' k t + (if ok then 1 else 0) \<le> hs_budget l k t"
    using hs_allow_spec(3) [of l t k l' ok k] by simp
  show "hs_inv l t \<Longrightarrow> hs_allow l k t = (l', ok) \<Longrightarrow> k' \<noteq> k \<Longrightarrow>
      hs_budget l' k' t \<le> hs_budget l k' t"
    using hs_allow_spec(3) [of l t k l' ok k'] by simp
  show "hs_inv l t \<Longrightarrow> hs_budget (hs_tick l t) k t \<le> hs_budget l k t"
    by (simp add: hs_budget_def hs_tick_def hs_inv_def expire_spec gc_budget)
qed

definition hybrid_start :: "string \<Rightarrow> int \<Rightarrow> (nat \<Rightarrow> redis_env) \<Rightarrow> hybrid_sys" where
  "hybrid_start rk rpm env =
     \<lparr>hs_lim = newHybridLimiter rk rpm idleEvict, hs_db = Map.empty, hs_env = env, hs_calls = 0\<rparr>"

lemma hybrid_start_inv: "0 \<le> rpm \<Longrightarrow> hs_inv (hybrid_start rk rpm env) t"
  by (simp add: hs_inv_def hybrid_start_def newHybridLimiter_def newRateLimiter_inv rdb_inv_def
      newRedisLimiter_def idleEvict_def time_units)

subsection \<open>Properties\<close>







text \<open>
  One cap per client does not survive clock skew between proxies. With capacity one, three
  calls that happen at the same real instant, the second from a proxy whose clock is a minute
  behind, are granted twice: the late proxy rewinds the stored timestamp and the next call
  refills a minute that never passed.
\<close>

theorem clock_skew_overgrants:
  "let rl = newRedisLimiter ''h|'' 1 idleEvict;
       (db1, r1) = redisAllow RedisOk rl Map.empty ''c'' (100 * second);
       (db2, r2) = redisAllow RedisOk rl db1 ''c'' (40 * second);
       (db3, r3) = redisAllow RedisOk rl db2 ''c'' (100 * second)
   in r1 = Some True \<and> r2 = Some False \<and> r3 = Some True"
  by (simp add: redisAllow_def tokenBucketScript_def newRedisLimiter_def idleEvict_def redisKey_def
      seconds_def time_units Let_def)

end
