(* ===== verification/Http.thy ===== *)
theory Http
  imports Prelude
begin

section \<open>HTTP messages and number formats of the Go standard library\<close>

text \<open>
  What the sources use of \<^verbatim>\<open>net/http\<close> (header maps with canonical keys, request cookies),
  \<^verbatim>\<open>strconv.ParseFloat\<close> and \<^verbatim>\<open>time.ParseDuration\<close> (decimal notation; the hexadecimal, infinite
  and not-a-number spellings of the Go functions count as errors here).
\<close>

subsection \<open>Header maps\<close>

type_synonym header = "(string \<times> string list) list"

definition is_token_char :: "char \<Rightarrow> bool" where
  "is_token_char c \<longleftrightarrow>
     (let n = (of_char c :: nat) in (48 \<le> n \<and> n \<le> 57) \<or> (65 \<le> n \<and> n \<le> 90) \<or> (97 \<le> n \<and> n \<le> 122)) \<or>
     c \<in> set ''!#$%&*+-.^_|~'' \<or> c = char_of (39 :: nat) \<or> c = char_of (96 :: nat)"

definition upper_char :: "char \<Rightarrow> char" where
  "upper_char c =
     (let n = (of_char c :: nat) in if 97 \<le> n \<and> n \<le> 122 then char_of (n - 32) else c)"

fun canon_chars :: "bool \<Rightarrow> string \<Rightarrow> string" where
  "canon_chars up [] = []"
| "canon_chars up (c # cs) =
     (if up then upper_char c else lower_char c) # canon_chars (c = CHR ''-'') cs"

text \<open>\<^verbatim>\<open>textproto.CanonicalMIMEHeaderKey\<close>: a name with a byte outside the token set is left alone.\<close>

definition canonicalKey :: "string \<Rightarrow> string" where
  "canonicalKey s = (if list_all is_token_char s then canon_chars True s else s)"

definition h_values :: "header \<Rightarrow> string \<Rightarrow> string list" where
  "h_values h k = (case map_of h (canonicalKey k) of None \<Rightarrow> [] | Some vs \<Rightarrow> vs)"

definition h_get :: "header \<Rightarrow> string \<Rightarrow> string" where
  "h_get h k = (case h_values h k of [] \<Rightarrow> [] | v # _ \<Rightarrow> v)"

definition h_del :: "header \<Rightarrow> string \<Rightarrow> header" where
  "h_del h k = AList.delete (canonicalKey k) h"

definition h_set :: "header \<Rightarrow> string \<Rightarrow> string \<Rightarrow> header" where
  "h_set h k v = AList.update (canonicalKey k) [v] h"

definition h_add :: "header \<Rightarrow> string \<Rightarrow> string \<Rightarrow> header" where
  "h_add h k v = AList.update (canonicalKey k) (h_values h k @ [v]) h"

text \<open>Direct indexing \<^verbatim>\<open>h[k]\<close> with a literal canonical key.\<close>

definition h_index :: "header \<Rightarrow> string \<Rightarrow> string list" where
  "h_index h k = (case map_of h k of None \<Rightarrow> [] | Some vs \<Rightarrow> vs)"

lemma h_values_del: "h_values (h_del h k) k' = (if canonicalKey k' = canonicalKey k then [] else h_values h k')"
  by (simp add: h_values_def h_del_def)

lemma h_get_del: "h_get (h_del h k) k' = (if canonicalKey k' = canonicalKey k then [] else h_get h k')"
  by (simp add: h_get_def h_values_del)

lemma h_get_set: "h_get (h_set h k v) k' = (if canonicalKey k' = canonicalKey k then v else h_get h k')"
  by (simp add: h_get_def h_values_def h_set_def)

lemma h_index_del: "h_index (h_del h k) k' = (if k' = canonicalKey k then [] else h_index h k')"
  by (simp add: h_index_def h_del_def)

subsection \<open>Requests and cookies\<close>

record request =
  rq_Method :: string
  rq_Host :: string
  rq_Path :: string
  rq_RawQuery :: string
  rq_Header :: header
  rq_RemoteAddr :: string

record response =
  rs_status :: int
  rs_header :: header
  rs_body :: string

definition trim_sp_tab :: "string \<Rightarrow> string" where
  "trim_sp_tab s =
     (let ws = (\<lambda>c. c = CHR '' '' \<or> c = char_of (9 :: nat))
      in rev (dropWhile ws (rev (dropWhile ws s))))"

definition dquote :: char where "dquote = char_of (34 :: nat)"

definition cookie_value_ok :: "char \<Rightarrow> bool" where
  "cookie_value_ok c \<longleftrightarrow>
     (let n = (of_char c :: nat) in 32 \<le> n \<and> n < 127 \<and> n \<noteq> 34 \<and> n \<noteq> 59 \<and> n \<noteq> 92)"

definition cookie_value :: "string \<Rightarrow> string option" where
  "cookie_value v =
     (let v1 = (if 1 < length v \<and> hd v = dquote \<and> last v = dquote then butlast (tl v) else v)
      in if list_all cookie_value_ok v1 then Some v1 else None)"

text \<open>One \<^verbatim>\<open>name=value\<close> part of a Cookie line, when its name is the wanted one and it is valid.\<close>

definition cookie_part :: "string \<Rightarrow> string \<Rightarrow> string option" where
  "cookie_part name part =
     (let p = trim_sp_tab part;
          (n, v) = (case cut p CHR ''='' of None \<Rightarrow> (p, []) | Some nv \<Rightarrow> nv);
          n1 = trim_sp_tab n
      in if n1 = name \<and> n1 \<noteq> [] \<and> list_all is_token_char n1 then cookie_value v else None)"

text \<open>\<^verbatim>\<open>req.Cookie(name)\<close>: the first valid cookie of that name; \<open>None\<close> is \<^verbatim>\<open>http.ErrNoCookie\<close>.\<close>

definition req_cookie :: "request \<Rightarrow> string \<Rightarrow> string option" where
  "req_cookie rq name =
     (let parts = concat (map (split_on CHR '';'') (h_index (rq_Header rq) ''Cookie''));
          found = List.map_filter (cookie_part name) parts
      in case found of [] \<Rightarrow> None | v # _ \<Rightarrow> Some v)"

lemma req_cookie_None: "h_index (rq_Header rq) ''Cookie'' = [] \<Longrightarrow> req_cookie rq name = None"
  by (simp add: req_cookie_def List.map_filter_def)

text \<open>\<^verbatim>\<open>hostOnly\<close> of \<^verbatim>\<open>cmd/proxy/router.go\<close>: the host up to the first colon.\<close>

definition hostOnly :: "string \<Rightarrow> string" where
  "hostOnly s = takeWhile (\<lambda>c. c \<noteq> CHR '':'') s"

subsection \<open>Writing responses\<close>

text \<open>
  A handler's writer is its header map until the status is written; these functions take that map
  and give the response. \<^verbatim>\<open>writeJSON\<close> is \<^verbatim>\<open>internal/httpx\<close>; \<^verbatim>\<open>http_error\<close> and \<^verbatim>\<open>http_redirect\<close> are \<^verbatim>\<open>net/http\<close>.
\<close>

definition newline :: string where "newline = [char_of (10 :: nat)]"

definition writeJSON :: "header \<Rightarrow> int \<Rightarrow> string \<Rightarrow> response" where
  "writeJSON h status v =
     \<lparr>rs_status = status, rs_header = h_set h ''Content-Type'' ''application/json'', rs_body = v @ newline\<rparr>"

definition backslash :: char where "backslash = char_of (92 :: nat)"

text \<open>\<^verbatim>\<open>encoding/json\<close> of a string: quotes, backslashes, control characters and \<^verbatim>\<open><>&\<close> are escaped.\<close>

definition json_string :: "string \<Rightarrow> string" where
  "json_string s =
     [dquote] @ concat (map (\<lambda>c. let n = (of_char c :: nat) in
       if n = 34 \<or> n = 92 then [backslash, c]
       else if n = 8 then [backslash, CHR ''b''] else if n = 12 then [backslash, CHR ''f'']
       else if n = 10 then [backslash, CHR ''n''] else if n = 13 then [backslash, CHR ''r'']
       else if n = 9 then [backslash, CHR ''t'']
       else if n < 32 \<or> n = 60 \<or> n = 62 \<or> n = 38
       then [backslash, CHR ''u'', CHR ''0'', CHR ''0'', ''0123456789abcdef'' ! (n div 16), ''0123456789abcdef'' ! (n mod 16)]
       else [c]) s) @ [dquote]"

definition json_pair :: "string \<Rightarrow> string \<Rightarrow> string" where
  "json_pair k v = ''{'' @ json_string k @ '':'' @ json_string v @ ''}''"

definition http_error :: "header \<Rightarrow> string \<Rightarrow> int \<Rightarrow> response" where
  "http_error h msg status =
     \<lparr>rs_status = status,
      rs_header = h_set (h_set (foldl h_del h [''Content-Length'', ''Content-Encoding'', ''Etag'', ''Last-Modified'', ''Cache-Control''])
                    ''Content-Type'' ''text/plain; charset=utf-8'') ''X-Content-Type-Options'' ''nosniff'',
      rs_body = msg @ newline\<rparr>"

definition http_not_found :: "header \<Rightarrow> response" where
  "http_not_found h = http_error h ''404 page not found'' 404"

definition html_escape :: "string \<Rightarrow> string" where
  "html_escape s = concat (map (\<lambda>c. let n = (of_char c :: nat) in
     if n = 38 then ''&amp;'' else if n = 60 then ''&lt;'' else if n = 62 then ''&gt;''
     else if n = 34 then ''&#34;'' else if n = 39 then ''&#39;'' else [c]) s)"

definition http_redirect :: "header \<Rightarrow> string \<Rightarrow> string \<Rightarrow> int \<Rightarrow> response" where
  "http_redirect h method url status =
     (let hadCT = (h_index h ''Content-Type'' \<noteq> []);
          h1 = h_set h ''Location'' url;
          h2 = (if \<not> hadCT \<and> (method = ''GET'' \<or> method = ''HEAD'')
                then h_set h1 ''Content-Type'' ''text/html; charset=utf-8'' else h1)
      in \<lparr>rs_status = status, rs_header = h2,
          rs_body = (if \<not> hadCT \<and> method = ''GET''
                     then ''<a href='' @ [dquote] @ html_escape url @ [dquote] @ ''>Found</a>.'' @ newline @ newline else [])\<rparr>)"

definition upper_hex :: "nat \<Rightarrow> char" where "upper_hex n = ''0123456789ABCDEF'' ! n"

definition is_alnum :: "char \<Rightarrow> bool" where
  "is_alnum c \<longleftrightarrow> (let n = (of_char c :: nat) in (48 \<le> n \<and> n \<le> 57) \<or> (65 \<le> n \<and> n \<le> 90) \<or> (97 \<le> n \<and> n \<le> 122))"

definition pct :: "char \<Rightarrow> string" where
  "pct c = [CHR ''%'', upper_hex (of_char c div 16), upper_hex (of_char c mod 16)]"

definition query_escape :: "string \<Rightarrow> string" where
  "query_escape s = concat (map (\<lambda>c. if is_alnum c \<or> c \<in> set ''-_.~'' then [c] else if c = CHR '' '' then ''+'' else pct c) s)"

text \<open>\<^verbatim>\<open>URL.RequestURI\<close> of a parsed request; the raw spelling of the path is not kept in the model.\<close>

definition request_uri :: "request \<Rightarrow> string" where
  "request_uri rq =
     (let p = concat (map (\<lambda>c. if is_alnum c \<or> c \<in> set ''-_.~$&+,/:;=@'' then [c] else pct c) (rq_Path rq))
      in (if p = [] then ''/'' else p) @ (if rq_RawQuery rq = [] then [] else ''?'' @ rq_RawQuery rq))"

text \<open>\<^verbatim>\<open>%q\<close> on bytes: quotes and backslashes are escaped, bytes outside printable ASCII are \<^verbatim>\<open>\x\<close> escapes.\<close>

definition go_quote :: "string \<Rightarrow> string" where
  "go_quote s =
     [dquote] @ concat (map (\<lambda>c. let n = (of_char c :: nat) in
       if n = 34 \<or> n = 92 then [backslash, c]
       else if n = 10 then [backslash, CHR ''n''] else if n = 13 then [backslash, CHR ''r'']
       else if n = 9 then [backslash, CHR ''t'']
       else if 32 \<le> n \<and> n < 127 then [c]
       else [backslash, CHR ''x'', ''0123456789abcdef'' ! (n div 16), ''0123456789abcdef'' ! (n mod 16)]) s) @ [dquote]"

subsection \<open>Decimal fractions and durations\<close>

definition pow10 :: "int \<Rightarrow> rat" where
  "pow10 e = (if 0 \<le> e then 10 ^ nat e else 1 / 10 ^ nat (- e))"

definition all_digits :: "string \<Rightarrow> bool" where
  "all_digits s \<longleftrightarrow> list_all (\<lambda>c. digit_val c \<noteq> None) s"

definition digits_nat :: "string \<Rightarrow> nat" where
  "digits_nat s = (case parse_digits 0 s of None \<Rightarrow> 0 | Some n \<Rightarrow> n)"

text \<open>An unsigned mantissa: digits with at most one point and at least one digit.\<close>

definition parse_mantissa :: "string \<Rightarrow> rat option" where
  "parse_mantissa s =
     (let (ip, fp) = (case cut s CHR ''.'' of None \<Rightarrow> (s, []) | Some p \<Rightarrow> p)
      in if all_digits ip \<and> all_digits fp \<and> ip @ fp \<noteq> []
         then Some (of_nat (digits_nat ip) + of_nat (digits_nat fp) * pow10 (- int (length fp)))
         else None)"

definition strip_sign :: "string \<Rightarrow> bool \<times> string" where
  "strip_sign s =
     (case s of [] \<Rightarrow> (False, [])
      | c # cs \<Rightarrow> if c = CHR ''-'' then (True, cs) else if c = CHR ''+'' then (False, cs) else (False, s))"

definition parse_exp :: "string \<Rightarrow> int option" where
  "parse_exp s =
     (let (neg, ds) = strip_sign s
      in if ds \<noteq> [] \<and> all_digits ds
         then Some (if neg then - int (digits_nat ds) else int (digits_nat ds)) else None)"

definition parse_float :: "string \<Rightarrow> rat option" where
  "parse_float s =
     (let (neg, u) = strip_sign s;
          me = (case cut (map (\<lambda>c. if c = CHR ''E'' then CHR ''e'' else c) u) CHR ''e'' of
                  None \<Rightarrow> (u, Some 0)
                | Some (m, e) \<Rightarrow> (m, parse_exp e))
      in case (parse_mantissa (fst me), snd me) of
           (Some m, Some e) \<Rightarrow> Some ((if neg then - 1 else 1) * m * pow10 e)
         | _ \<Rightarrow> None)"

definition unit_of :: "string \<Rightarrow> duration option" where
  "unit_of u =
     (if u = ''ns'' then Some 1
      else if u = ''us'' then Some 1000
      else if u = ''ms'' then Some 1000000
      else if u = ''s'' then Some second
      else if u = ''m'' then Some minute
      else if u = ''h'' then Some hour else None)"

definition is_num_char :: "char \<Rightarrow> bool" where
  "is_num_char c \<longleftrightarrow> digit_val c \<noteq> None \<or> c = CHR ''.''"

text \<open>A sequence of \<^verbatim>\<open>number unit\<close> pairs.\<close>

function parse_units :: "string \<Rightarrow> duration option" where
  "parse_units s =
     (if s = [] then Some 0
      else let num = takeWhile is_num_char s; rest = dropWhile is_num_char s;
               u = takeWhile (\<lambda>c. \<not> is_num_char c) rest; more = dropWhile (\<lambda>c. \<not> is_num_char c) rest
           in if num = [] \<or> u = [] then None
              else case (parse_mantissa num, unit_of u, parse_units more) of
                (Some x, Some w, Some d) \<Rightarrow> Some (\<lfloor>x * of_int w\<rfloor> + d)
              | _ \<Rightarrow> None)"
  by pat_completeness auto
termination
proof (relation "measure length", goal_cases)
  case (2 s num rest u more)
  have "length more \<le> length rest" unfolding 2 by (rule length_dropWhile_le)
  moreover have "length rest < length s"
  proof -
    have "length s = length num + length rest"
      unfolding 2 by (metis length_append takeWhile_dropWhile_id)
    with 2 show ?thesis by simp
  qed
  ultimately show ?case by simp
qed simp

declare parse_units.simps [simp del]

definition parse_duration :: "string \<Rightarrow> duration option" where
  "parse_duration s =
     (let (neg, u) = strip_sign s
      in if u = ''0'' then Some 0
         else if u = [] then None
         else case parse_units u of
           None \<Rightarrow> None
         | Some d \<Rightarrow> (let r = (if neg then - d else d) in if int64_ok r then Some r else None))"

lemma parse_duration_examples:
  "parse_duration ''30s'' = Some (30 * second)"
  "parse_duration ''1h15m'' = Some (75 * minute)"
  "parse_duration ''1.5s'' = Some 1500000000"
  "parse_duration ''-5s'' = Some (- 5 * second)"
  "parse_duration ''5'' = None"
  by (simp_all add: parse_duration_def strip_sign_def parse_units.simps is_num_char_def digit_val_def
      parse_mantissa_def all_digits_def digits_nat_def unit_of_def time_units pow10_def int64_ok_def Let_def)

end
