(* ===== verification/Cache.thy ===== *)
theory Cache
  imports Http
begin

section \<open>The anonymous response cache (\<^verbatim>\<open>cmd/proxy/cache.go\<close>)\<close>

text \<open>
  One route's micro-cache: the bounded store with its expiry and eviction, the claims of
  requests that fill it, the recorder that decides what may be stored, and the rules that
  keep personal responses out of it. Dereferencing the nil entry of an empty store, or closing
  a closed channel, is \<open>None\<close> (a panic) in the result.
\<close>

subsection \<open>The store\<close>

definition cacheMaxBody :: int where "cacheMaxBody = 2 ^ 20"
definition cacheMaxEntries :: nat where "cacheMaxEntries = 1024"
definition cacheMaxBytes :: int where "cacheMaxBytes = 32 * 2 ^ 20"

record cacheEntry =
  ce_status :: int
  ce_header :: header
  ce_body :: string
  ce_storedAt :: instant

text \<open>\<open>rc_inflight\<close> maps a key to its \<^verbatim>\<open>*cacheFill\<close> (an address); \<open>rc_closed\<close> are the fills whose
  \<^verbatim>\<open>done\<close> channel is closed; \<open>rc_next\<close> is the next fresh address.\<close>

record responseCache =
  rc_ttl :: duration
  rc_entries :: "(string \<times> cacheEntry) list"
  rc_inflight :: "(string \<times> nat) list"
  rc_bytes :: int
  rc_closed :: "nat list"
  rc_next :: nat

definition newResponseCache :: "duration \<Rightarrow> responseCache" where
  "newResponseCache ttl =
     \<lparr>rc_ttl = ttl, rc_entries = [], rc_inflight = [], rc_bytes = 0, rc_closed = [], rc_next = 0\<rparr>"

definition setTTL :: "responseCache \<Rightarrow> duration \<Rightarrow> responseCache" where
  "setTTL c d = (if d \<noteq> rc_ttl c then c\<lparr>rc_ttl := d, rc_entries := [], rc_bytes := 0\<rparr> else c)"

abbreviation body_len :: "cacheEntry \<Rightarrow> int" where
  "body_len e \<equiv> int (length (ce_body e))"

definition expired_at :: "responseCache \<Rightarrow> instant \<Rightarrow> cacheEntry \<Rightarrow> bool" where
  "expired_at c now e \<longleftrightarrow> \<not> now < ce_storedAt e + rc_ttl c"

definition cache_get :: "responseCache \<Rightarrow> string \<Rightarrow> instant \<Rightarrow> responseCache \<times> cacheEntry option" where
  "cache_get c key now =
     (case map_of (rc_entries c) key of
        None \<Rightarrow> (c, None)
      | Some e \<Rightarrow>
          if expired_at c now e
          then (c\<lparr>rc_entries := AList.delete key (rc_entries c), rc_bytes := rc_bytes c - body_len e\<rparr>, None)
          else (c, Some e))"

text \<open>The oldest entry, the first one met among equals.\<close>

fun oldest :: "(string \<times> cacheEntry) option \<Rightarrow> (string \<times> cacheEntry) list \<Rightarrow> (string \<times> cacheEntry) option" where
  "oldest acc [] = acc"
| "oldest acc ((k, e) # es) =
     (case acc of
        None \<Rightarrow> oldest (Some (k, e)) es
      | Some (k0, e0) \<Rightarrow>
          if ce_storedAt e < ce_storedAt e0 then oldest (Some (k, e)) es else oldest acc es)"

definition over_bounds :: "responseCache \<Rightarrow> bool" where
  "over_bounds c \<longleftrightarrow> cacheMaxEntries < length (rc_entries c) \<or> cacheMaxBytes < rc_bytes c"

lemma oldest_mem: "oldest acc es = Some x \<Longrightarrow> acc = Some x \<or> x \<in> set es"
  by (induction acc es rule: oldest.induct) (auto split: option.splits if_splits prod.splits)

function evictOldest :: "responseCache \<Rightarrow> responseCache option" where
  "evictOldest c =
     (if over_bounds c
      then case oldest None (rc_entries c) of
             None \<Rightarrow> None
           | Some (k, e) \<Rightarrow>
               evictOldest (c\<lparr>rc_entries := AList.delete k (rc_entries c),
                              rc_bytes := rc_bytes c - body_len e\<rparr>)
      else Some c)"
  by pat_completeness auto
termination
proof (relation "measure (\<lambda>c. length (rc_entries c))", goal_cases)
  case (2 c p k e)
  then have "(k, e) \<in> set (rc_entries c)" by (auto dest: oldest_mem)
  then have "length (AList.delete k (rc_entries c)) < length (rc_entries c)"
    by (intro length_delete_less) force
  then show ?case by simp
qed simp

declare evictOldest.simps [simp del]

definition evictLocked :: "responseCache \<Rightarrow> instant \<Rightarrow> responseCache option" where
  "evictLocked c now =
     (let dead = filter (\<lambda>(k, e). expired_at c now e) (rc_entries c)
      in evictOldest (c\<lparr>rc_entries := filter (\<lambda>(k, e). \<not> expired_at c now e) (rc_entries c),
                        rc_bytes := rc_bytes c - sum_list (map (body_len \<circ> snd) dead)\<rparr>))"

definition cache_put :: "responseCache \<Rightarrow> string \<Rightarrow> cacheEntry \<Rightarrow> instant \<Rightarrow> responseCache option" where
  "cache_put c key e now =
     (let b0 = (case map_of (rc_entries c) key of None \<Rightarrow> rc_bytes c | Some old \<Rightarrow> rc_bytes c - body_len old);
          c1 = c\<lparr>rc_entries := AList.update key e (rc_entries c), rc_bytes := b0 + body_len e\<rparr>
      in if over_bounds c1 then evictLocked c1 now else Some c1)"

subsection \<open>Claims of requests that fill the cache\<close>

definition beginFill :: "responseCache \<Rightarrow> string \<Rightarrow> responseCache \<times> nat \<times> bool" where
  "beginFill c key =
     (case map_of (rc_inflight c) key of
        Some f \<Rightarrow> (c, f, False)
      | None \<Rightarrow> (c\<lparr>rc_inflight := AList.update key (rc_next c) (rc_inflight c), rc_next := Suc (rc_next c)\<rparr>,
                 rc_next c, True))"

definition endFill :: "responseCache \<Rightarrow> string \<Rightarrow> nat \<Rightarrow> responseCache option" where
  "endFill c key f =
     (let c1 = (if map_of (rc_inflight c) key = Some f
                then c\<lparr>rc_inflight := AList.delete key (rc_inflight c)\<rparr> else c)
      in if f \<in> set (rc_closed c1) then None else Some (c1\<lparr>rc_closed := f # rc_closed c1\<rparr>))"

subsection \<open>Keys and eligibility\<close>

definition codings :: "string list" where
  "codings = [''br'', ''deflate'', ''gzip'', ''zstd'']"

text \<open>A \<^verbatim>\<open>;q=\<close> parameter that parses to zero refuses the coding.\<close>

definition q_zero :: "string \<Rightarrow> bool" where
  "q_zero p \<longleftrightarrow>
     (case cut_prefix (to_lower (trim_space p)) ''q='' of
        None \<Rightarrow> False
      | Some q \<Rightarrow> parse_float q = Some 0)"

fun accept_codings :: "string list \<Rightarrow> string list \<Rightarrow> string list" where
  "accept_codings seen [] = []"
| "accept_codings seen (tok # toks) =
     (let parts = split_on CHR '';'' tok; name = to_lower (trim_space (hd parts))
      in if name \<notin> set codings then accept_codings seen toks
         else if list_ex q_zero (tl parts) \<or> name \<in> set seen then accept_codings seen toks
         else name # accept_codings (name # seen) toks)"

definition normalizeAcceptEncoding :: "string \<Rightarrow> string" where
  "normalizeAcceptEncoding s = join '','' (sort (accept_codings [] (split_on CHR '','' s)))"

definition NUL :: char where "NUL = char_of (0 :: nat)"

definition cacheKey :: "string \<Rightarrow> string \<Rightarrow> string \<Rightarrow> string \<Rightarrow> string" where
  "cacheKey host path rawQuery acceptEncoding =
     host @ [NUL] @ path @ ''?'' @ rawQuery @ [NUL] @ normalizeAcceptEncoding acceptEncoding"

text \<open>The route's cache configuration: whether a store is attached, its TTL and its paths.\<close>

definition cacheRequestEligible :: "request \<Rightarrow> bool \<Rightarrow> duration \<Rightarrow> string list \<Rightarrow> string \<Rightarrow> bool" where
  "cacheRequestEligible rq attached ttl paths origPath \<longleftrightarrow>
     (if \<not> attached \<or> ttl \<le> 0 then False
      else if rq_Method rq \<noteq> ''GET'' \<and> rq_Method rq \<noteq> ''HEAD'' then False
      else if h_get (rq_Header rq) ''Authorization'' \<noteq> [] \<or> h_index (rq_Header rq) ''Cookie'' \<noteq> [] \<or>
              h_get (rq_Header rq) ''Range'' \<noteq> [] then False
      else if paths = [] then True
      else list_ex (has_prefix origPath) paths)"

definition cc_private :: "string \<Rightarrow> bool" where
  "cc_private tok \<longleftrightarrow>
     (let t = to_lower (trim_space tok); name = (case cut t CHR ''='' of None \<Rightarrow> t | Some (n, _) \<Rightarrow> n)
      in name \<in> {''private'', ''no-store'', ''no-cache''})"

definition vary_other :: "string \<Rightarrow> bool" where
  "vary_other tok \<longleftrightarrow> (let t = to_lower (trim_space tok) in t \<noteq> [] \<and> t \<noteq> ''accept-encoding'')"

definition cacheResponseStorable :: "header \<Rightarrow> bool" where
  "cacheResponseStorable h \<longleftrightarrow>
     (if h_index h ''Set-Cookie'' \<noteq> [] then False
      else if list_ex (\<lambda>v. list_ex cc_private (split_on CHR '','' v)) (h_values h ''Cache-Control'') then False
      else \<not> list_ex (\<lambda>v. list_ex vary_other (split_on CHR '','' v)) (h_values h ''Vary''))"

definition hopHeaders :: "string list" where
  "hopHeaders = [''Connection'', ''Keep-Alive'', ''Transfer-Encoding'', ''Upgrade'',
     ''Proxy-Authenticate'', ''Proxy-Authorization'', ''Proxy-Connection'',
     ''Trailer'', ''Te'', ''Content-Length'', ''X-Cache'', ''Age'']"

definition cloneStorableHeader :: "header \<Rightarrow> header" where
  "cloneStorableHeader h =
     (let names = filter (\<lambda>n. n \<noteq> []) (concat (map (\<lambda>v. map trim_space (split_on CHR '','' v)) (h_values h ''Connection'')));
          h1 = foldl h_del h names
      in foldl h_del h1 hopHeaders)"

definition unionStrings :: "string list \<Rightarrow> string list \<Rightarrow> string list" where
  "unionStrings a b = rev (foldl (\<lambda>out s. let t = trim_space s in if t = [] \<or> t \<in> set out then out else t # out) [] (a @ b))"

subsection \<open>Replaying an entry\<close>

definition serveCached :: "header \<Rightarrow> string \<Rightarrow> cacheEntry \<Rightarrow> instant \<Rightarrow> response" where
  "serveCached h method e now =
     (let h1 = foldl (\<lambda>acc (k, vs). AList.update k vs acc) h (ce_header e);
          age = (let a = go_div (now - ce_storedAt e) second in if a < 0 then 0 else a);
          h2 = h_set (h_set (h_set h1 ''Content-Length'' (itoa (body_len e))) ''Age'' (itoa age)) ''X-Cache'' ''HIT''
      in \<lparr>rs_status = ce_status e, rs_header = h2, rs_body = (if method = ''HEAD'' then [] else ce_body e)\<rparr>)"

subsection \<open>The recorder\<close>

record cacheRecorder =
  cr_mode :: string
  cr_record :: bool
  cr_wroteHeader :: bool
  cr_status :: int
  cr_storable :: bool
  cr_header :: header
  cr_buf :: string
  cr_overflow :: bool
  cr_declaredLen :: int

definition newCacheRecorder :: "string \<Rightarrow> bool \<Rightarrow> cacheRecorder" where
  "newCacheRecorder mode record =
     \<lparr>cr_mode = mode, cr_record = record, cr_wroteHeader = False, cr_status = 0, cr_storable = False,
      cr_header = [], cr_buf = [], cr_overflow = False, cr_declaredLen = 0\<rparr>"

text \<open>
  \<open>h\<close> is the header map of the writer underneath at the time of the call; the result is the
  recorder and that map with \<^verbatim>\<open>X-Cache\<close> set.
\<close>

definition recWriteHeader :: "cacheRecorder \<Rightarrow> header \<Rightarrow> int \<Rightarrow> cacheRecorder \<times> header" where
  "recWriteHeader w h code =
     (if code < 200 \<or> cr_wroteHeader w then (w, h)
      else let w1 = w\<lparr>cr_wroteHeader := True, cr_status := code\<rparr>;
               h1 = h_set h ''X-Cache'' (cr_mode w);
               w2 = (if cr_record w
                     then let st = (code = 200 \<and> cacheResponseStorable h1)
                          in if st
                             then w1\<lparr>cr_storable := True, cr_header := cloneStorableHeader h1,
                                     cr_declaredLen :=
                                       (case h_get h1 ''Content-Length'' of
                                          [] \<Rightarrow> - 1
                                        | cl \<Rightarrow> (case atoi cl of None \<Rightarrow> - 1 | Some n \<Rightarrow> n))\<rparr>
                             else w1\<lparr>cr_storable := False\<rparr>
                     else w1)
           in (w2, h1))"

definition recWrite :: "cacheRecorder \<Rightarrow> header \<Rightarrow> string \<Rightarrow> cacheRecorder \<times> header" where
  "recWrite w h p =
     (let (w1, h1) = (if cr_wroteHeader w then (w, h) else recWriteHeader w h 200);
          w2 = (if cr_storable w1 \<and> \<not> cr_overflow w1
                then if cacheMaxBody < int (length (cr_buf w1)) + int (length p)
                     then w1\<lparr>cr_overflow := True, cr_buf := []\<rparr>
                     else w1\<lparr>cr_buf := cr_buf w1 @ p\<rparr>
                else w1)
      in (w2, h1))"

definition recEntry :: "cacheRecorder \<Rightarrow> cacheEntry option" where
  "recEntry w =
     (if \<not> cr_record w \<or> \<not> cr_wroteHeader w \<or> \<not> cr_storable w \<or> cr_overflow w then None
      else if 0 \<le> cr_declaredLen w \<and> int (length (cr_buf w)) \<noteq> cr_declaredLen w then None
      else Some \<lparr>ce_status = cr_status w, ce_header = cr_header w, ce_body = cr_buf w, ce_storedAt = 0\<rparr>)"

subsection \<open>Invariant of the store\<close>

definition total_len :: "(string \<times> cacheEntry) list \<Rightarrow> int" where
  "total_len es = sum_list (map (body_len \<circ> snd) es)"

definition store_ok :: "responseCache \<Rightarrow> bool" where
  "store_ok c \<longleftrightarrow> distinct (keys (rc_entries c)) \<and> rc_bytes c = total_len (rc_entries c)"

definition cache_inv :: "responseCache \<Rightarrow> bool" where
  "cache_inv c \<longleftrightarrow> store_ok c \<and> \<not> over_bounds c"

lemma oldest_Some: "oldest (Some x) es \<noteq> None"
  by (induction "Some x" es arbitrary: x rule: oldest.induct) (auto split: prod.splits)

lemma oldest_None: "oldest None es = None \<longleftrightarrow> es = []"
proof (cases es)
  case (Cons x xs)
  then show ?thesis using oldest_Some [of x xs] by (cases x) simp
qed simp

lemma oldest_Some_least:
  "oldest (Some (k0, e0)) es = Some (k, e) \<Longrightarrow>
   ce_storedAt e \<le> ce_storedAt e0 \<and> (\<forall>p\<in>set es. ce_storedAt e \<le> ce_storedAt (snd p))"
proof (induction es arbitrary: k0 e0)
  case (Cons x es)
  obtain k1 e1 where x: "x = (k1, e1)" by (cases x)
  show ?case
    using Cons.IH [of k1 e1] Cons.IH [of k0 e0] Cons.prems x by (auto split: if_splits)
qed simp

lemma oldest_least:
  assumes "oldest None es = Some (k, e)" and "(k', e') \<in> set es"
  shows "ce_storedAt e \<le> ce_storedAt e'"
proof (cases es)
  case (Cons x xs)
  then show ?thesis using assms oldest_Some_least [of "fst x" "snd x" xs k e] by (cases x) auto
qed (use assms in simp)

lemma total_len_nonneg: "0 \<le> total_len es"
  by (induction es) (auto simp: total_len_def)

lemma store_ok_delete:
  assumes "store_ok c" and "map_of (rc_entries c) k = Some e"
  shows "store_ok (c\<lparr>rc_entries := AList.delete k (rc_entries c), rc_bytes := rc_bytes c - body_len e\<rparr>)"
  using assms by (simp add: store_ok_def total_len_def distinct_delete sum_list_delete)

lemma over_bounds_nonempty: "store_ok c \<Longrightarrow> over_bounds c \<Longrightarrow> rc_entries c \<noteq> []"
  by (auto simp: over_bounds_def store_ok_def total_len_def cacheMaxBytes_def)

text \<open>The eviction loop ends, never meets an empty store, and leaves both bounds satisfied.\<close>

lemma evictOldest_ok: "store_ok c \<Longrightarrow> \<exists>c'. evictOldest c = Some c' \<and> cache_inv c' \<and>
    set (rc_entries c') \<subseteq> set (rc_entries c) \<and> rc_ttl c' = rc_ttl c \<and> rc_inflight c' = rc_inflight c"
proof (induction c rule: evictOldest.induct)
  case (1 c)
  show ?case
  proof (cases "over_bounds c")
    case False
    with "1.prems" show ?thesis by (simp add: evictOldest.simps [of c] cache_inv_def)
  next
    case True
    then obtain k e where o: "oldest None (rc_entries c) = Some (k, e)"
      using over_bounds_nonempty [OF "1.prems"] oldest_None by fastforce
    then have "(k, e) \<in> set (rc_entries c)" using oldest_mem by fastforce
    then have "map_of (rc_entries c) k = Some e" using "1.prems" by (simp add: store_ok_def)
    from "1.IH" [OF True o refl store_ok_delete [OF "1.prems" this]]
    show ?thesis using True o by (auto simp: evictOldest.simps [of c] AList.delete_eq)
  qed
qed

lemma store_ok_filter:
  assumes "store_ok c"
  shows "store_ok (c\<lparr>rc_entries := filter (\<lambda>p. \<not> P p) (rc_entries c),
     rc_bytes := rc_bytes c - sum_list (map (body_len \<circ> snd) (filter P (rc_entries c)))\<rparr>)"
proof -
  have "total_len es - sum_list (map (body_len \<circ> snd) (filter P es)) = total_len (filter (\<lambda>p. \<not> P p) es)" for es
    by (induction es) (auto simp: total_len_def)
  with assms show ?thesis by (simp add: store_ok_def distinct_keys_filter)
qed

lemma evictLocked_ok:
  assumes "store_ok c"
  shows "\<exists>c'. evictLocked c now = Some c' \<and> cache_inv c' \<and>
    set (rc_entries c') \<subseteq> set (rc_entries c) \<and> rc_ttl c' = rc_ttl c \<and> rc_inflight c' = rc_inflight c"
proof -
  have "store_ok (c\<lparr>rc_entries := filter (\<lambda>(k, e). \<not> expired_at c now e) (rc_entries c),
      rc_bytes := rc_bytes c - sum_list (map (body_len \<circ> snd) (filter (\<lambda>(k, e). expired_at c now e) (rc_entries c)))\<rparr>)"
    using store_ok_filter [OF assms, of "\<lambda>(k, e). expired_at c now e"]
    by (simp add: case_prod_unfold)
  from evictOldest_ok [OF this] show ?thesis
    by (force simp: evictLocked_def Let_def)
qed

lemma store_ok_update:
  assumes "store_ok c"
  shows "store_ok (c\<lparr>rc_entries := AList.update k e (rc_entries c),
    rc_bytes := (case map_of (rc_entries c) k of None \<Rightarrow> rc_bytes c | Some old \<Rightarrow> rc_bytes c - body_len old) + body_len e\<rparr>)"
  using assms
  by (auto simp: store_ok_def total_len_def distinct_update sum_list_update split: option.splits)

lemma map_le_subset:
  "distinct (keys m) \<Longrightarrow> distinct (keys m') \<Longrightarrow> set m' \<subseteq> set m \<Longrightarrow> map_of m' \<subseteq>\<^sub>m map_of m"
  by (auto simp: map_le_def dest!: map_of_SomeD)

lemma cache_put_ok:
  assumes "cache_inv c"
  shows "\<exists>c'. cache_put c k e now = Some c' \<and> cache_inv c' \<and> rc_ttl c' = rc_ttl c \<and>
    rc_inflight c' = rc_inflight c \<and>
    map_of (rc_entries c') \<subseteq>\<^sub>m (map_of (rc_entries c))(k \<mapsto> e)"
proof -
  let ?c1 = "c\<lparr>rc_entries := AList.update k e (rc_entries c),
    rc_bytes := (case map_of (rc_entries c) k of None \<Rightarrow> rc_bytes c | Some old \<Rightarrow> rc_bytes c - body_len old) + body_len e\<rparr>"
  have ok: "store_ok ?c1" using assms by (intro store_ok_update) (simp add: cache_inv_def)
  have m: "map_of (rc_entries ?c1) = (map_of (rc_entries c))(k \<mapsto> e)" by (simp add: update_conv')
  show ?thesis
  proof (cases "over_bounds ?c1")
    case True
    obtain c' where c': "evictLocked ?c1 now = Some c'" "cache_inv c'"
      "set (rc_entries c') \<subseteq> set (rc_entries ?c1)" "rc_ttl c' = rc_ttl ?c1" "rc_inflight c' = rc_inflight ?c1"
      using evictLocked_ok [OF ok] by blast
    have "map_of (rc_entries c') \<subseteq>\<^sub>m map_of (rc_entries ?c1)"
      using c'(2,3) ok by (intro map_le_subset) (simp_all add: cache_inv_def store_ok_def)
    with True c' m show ?thesis by (auto simp: cache_put_def Let_def)
  next
    case False
    with ok m show ?thesis by (auto simp: cache_put_def Let_def cache_inv_def)
  qed
qed

lemma over_bounds_mono:
  "length (rc_entries c') \<le> length (rc_entries c) \<Longrightarrow> rc_bytes c' \<le> rc_bytes c \<Longrightarrow> \<not> over_bounds c \<Longrightarrow> \<not> over_bounds c'"
  by (auto simp: over_bounds_def)

lemma cache_get_ok:
  assumes "cache_inv c" and "cache_get c k now = (c', r)"
  shows "cache_inv c'" "map_of (rc_entries c') \<subseteq>\<^sub>m map_of (rc_entries c)"
    "r = Some e \<Longrightarrow> map_of (rc_entries c) k = Some e \<and> now < ce_storedAt e + rc_ttl c"
proof -
  have "cache_inv c' \<and> map_of (rc_entries c') \<subseteq>\<^sub>m map_of (rc_entries c) \<and>
    (r = Some e \<longrightarrow> map_of (rc_entries c) k = Some e \<and> now < ce_storedAt e + rc_ttl c)"
  proof (cases "map_of (rc_entries c) k")
    case None
    with assms show ?thesis by (auto simp: cache_get_def)
  next
    case (Some e0)
    let ?c = "c\<lparr>rc_entries := AList.delete k (rc_entries c), rc_bytes := rc_bytes c - body_len e0\<rparr>"
    have "store_ok ?c" using assms(1) Some by (intro store_ok_delete) (simp_all add: cache_inv_def)
    moreover have "\<not> over_bounds ?c"
      using assms(1) by (intro over_bounds_mono [of ?c c]) (simp_all add: cache_inv_def length_delete_le)
    ultimately show ?thesis using assms Some
      by (auto simp: cache_get_def expired_at_def cache_inv_def map_le_def split: if_splits)
  qed
  then show "cache_inv c'" "map_of (rc_entries c') \<subseteq>\<^sub>m map_of (rc_entries c)"
    "r = Some e \<Longrightarrow> map_of (rc_entries c) k = Some e \<and> now < ce_storedAt e + rc_ttl c" by blast+
qed

lemma setTTL_ok:
  assumes "cache_inv c"
  shows "cache_inv (setTTL c d)" "map_of (rc_entries (setTTL c d)) \<subseteq>\<^sub>m map_of (rc_entries c)"
    "rc_ttl (setTTL c d) = d"
  using assms
  by (auto simp: setTTL_def cache_inv_def store_ok_def total_len_def over_bounds_def cacheMaxBytes_def)

subsection \<open>The contract the router relies on\<close>

text \<open>
  A cache never makes an answer up: what a lookup returns is what the abstract map of stored
  entries holds for that key, and it is fresh; operations only forget.
\<close>

datatype 'e cache_op = OpGet string instant | OpPut string 'e instant | OpTTL duration

fun store_run :: "('c \<Rightarrow> string \<Rightarrow> instant \<Rightarrow> 'c \<times> 'e option) \<Rightarrow>
    ('c \<Rightarrow> string \<Rightarrow> 'e \<Rightarrow> instant \<Rightarrow> 'c option) \<Rightarrow> ('c \<Rightarrow> duration \<Rightarrow> 'c) \<Rightarrow>
    'c \<Rightarrow> 'e cache_op list \<Rightarrow> ('c \<times> 'e option list) option" where
  "store_run look put ttl c [] = Some (c, [])"
| "store_run look put ttl c (OpGet k t # ops) =
     (case look c k t of (c', r) \<Rightarrow> map_option (\<lambda>(c2, rs). (c2, r # rs)) (store_run look put ttl c' ops))"
| "store_run look put ttl c (OpPut k e t # ops) =
     (case put c k e t of None \<Rightarrow> None | Some c' \<Rightarrow> store_run look put ttl c' ops)"
| "store_run look put ttl c (OpTTL d # ops) = store_run look put ttl (ttl c d) ops"

text \<open>The latest entry put under each key: what each lookup of a run may answer.\<close>

fun spec_answers :: "(string \<rightharpoonup> 'e) \<Rightarrow> 'e cache_op list \<Rightarrow> 'e option list" where
  "spec_answers m [] = []"
| "spec_answers m (OpGet k t # ops) = m k # spec_answers m ops"
| "spec_answers m (OpPut k e t # ops) = spec_answers (m(k \<mapsto> e)) ops"
| "spec_answers m (OpTTL d # ops) = spec_answers m ops"

locale store_contract =
  fixes lookup :: "'c \<Rightarrow> string \<Rightarrow> instant \<Rightarrow> 'c \<times> 'e option"
    and store :: "'c \<Rightarrow> string \<Rightarrow> 'e \<Rightarrow> instant \<Rightarrow> 'c option"
    and retime :: "'c \<Rightarrow> duration \<Rightarrow> 'c"
    and \<alpha> :: "'c \<Rightarrow> (string \<rightharpoonup> 'e)"
    and fresh :: "'c \<Rightarrow> instant \<Rightarrow> 'e \<Rightarrow> bool"
    and invar :: "'c \<Rightarrow> bool"
  assumes lookup_keeps: "invar c \<Longrightarrow> lookup c k t = (c', r) \<Longrightarrow> invar c' \<and> \<alpha> c' \<subseteq>\<^sub>m \<alpha> c"
    and lookup_sound: "invar c \<Longrightarrow> lookup c k t = (c', Some e) \<Longrightarrow> \<alpha> c k = Some e \<and> fresh c t e"
    and store_total: "invar c \<Longrightarrow> \<exists>c'. store c k e t = Some c' \<and> invar c' \<and> \<alpha> c' \<subseteq>\<^sub>m (\<alpha> c)(k \<mapsto> e)"
    and retime_keeps: "invar c \<Longrightarrow> invar (retime c d) \<and> \<alpha> (retime c d) \<subseteq>\<^sub>m \<alpha> c"
begin

lemma run_total_sound:
  "invar c \<Longrightarrow> \<alpha> c \<subseteq>\<^sub>m m \<Longrightarrow>
   \<exists>c' rs. store_run lookup store retime c ops = Some (c', rs) \<and> invar c' \<and>
     list_all2 (\<lambda>r s. r = None \<or> r = s) rs (spec_answers m ops)"
proof (induction ops arbitrary: c m)
  case (Cons op ops)
  show ?case
  proof (cases op)
    case (OpGet k t)
    obtain c1 r where l: "lookup c k t = (c1, r)" by (cases "lookup c k t")
    have c1: "invar c1" "\<alpha> c1 \<subseteq>\<^sub>m m"
      using lookup_keeps [OF Cons.prems(1) l] Cons.prems(2) by (auto intro: map_le_trans)
    have "r = None \<or> r = m k"
      using lookup_sound [OF Cons.prems(1), of k t c1] l Cons.prems(2)
      by (cases r) (auto simp: map_le_def dom_def)
    with Cons.IH [OF c1] OpGet l show ?thesis by auto
  next
    case (OpPut k e t)
    obtain c1 where s: "store c k e t = Some c1" and c1: "invar c1" "\<alpha> c1 \<subseteq>\<^sub>m (\<alpha> c)(k \<mapsto> e)"
      using store_total [OF Cons.prems(1)] by blast
    have "\<alpha> c1 \<subseteq>\<^sub>m m(k \<mapsto> e)"
      using c1(2) Cons.prems(2) by (meson map_le_trans map_le_upd)
    with Cons.IH [OF c1(1)] OpPut s show ?thesis by auto
  next
    case (OpTTL d)
    with Cons.IH [of "retime c d" m] retime_keeps [OF Cons.prems(1), of d] Cons.prems(2)
    show ?thesis by (auto intro: map_le_trans)
  qed
qed simp

end

interpretation route_cache: store_contract cache_get cache_put setTTL
  "\<lambda>c. map_of (rc_entries c)" "\<lambda>c now e. \<not> expired_at c now e" cache_inv
proof unfold_locales
  fix c c' :: responseCache and k :: string and t :: instant and r and e :: cacheEntry and d :: duration
  show "cache_inv c \<Longrightarrow> cache_get c k t = (c', r) \<Longrightarrow>
      cache_inv c' \<and> map_of (rc_entries c') \<subseteq>\<^sub>m map_of (rc_entries c)"
    by (auto dest: cache_get_ok)
  show "cache_inv c \<Longrightarrow> cache_get c k t = (c', Some e) \<Longrightarrow>
      map_of (rc_entries c) k = Some e \<and> \<not> expired_at c t e"
    using cache_get_ok(3) [of c k t c' "Some e" e] by (simp add: expired_at_def)
  show "cache_inv c \<Longrightarrow> \<exists>c'. cache_put c k e t = Some c' \<and> cache_inv c' \<and>
      map_of (rc_entries c') \<subseteq>\<^sub>m (map_of (rc_entries c))(k \<mapsto> e)"
    using cache_put_ok [of c k e t] by blast
  show "cache_inv c \<Longrightarrow> cache_inv (setTTL c d) \<and> map_of (rc_entries (setTTL c d)) \<subseteq>\<^sub>m map_of (rc_entries c)"
    using setTTL_ok by blast
qed

lemma newResponseCache_inv: "cache_inv (newResponseCache ttl)"
  by (simp add: newResponseCache_def cache_inv_def store_ok_def total_len_def over_bounds_def cacheMaxBytes_def)

subsection \<open>Properties of the store\<close>

text \<open>
  (C22) Every answer was stored. From an empty cache, any sequence of lookups, stores and TTL
  changes runs without a panic, keeps the store within its bounds with exact byte accounting, and
  each lookup answers either a miss or exactly the entry stored last under that very key.
\<close>

theorem cache_answers_stored:
  "\<exists>c rs. store_run cache_get cache_put setTTL (newResponseCache ttl) ops = Some (c, rs) \<and>
     distinct (keys (rc_entries c)) \<and> length (rc_entries c) \<le> cacheMaxEntries \<and>
     rc_bytes c = total_len (rc_entries c) \<and> rc_bytes c \<le> cacheMaxBytes \<and>
     list_all2 (\<lambda>r s. r = None \<or> r = s) rs (spec_answers Map.empty ops)"
proof -
  have "map_of (rc_entries (newResponseCache ttl)) \<subseteq>\<^sub>m Map.empty"
    by (simp add: newResponseCache_def)
  from route_cache.run_total_sound [OF newResponseCache_inv this, of ops]
  show ?thesis by (auto simp: cache_inv_def store_ok_def over_bounds_def not_less)
qed

lemma evictOldest_keeps:
  assumes "store_ok c" and "map_of (rc_entries c) k = Some e" and "body_len e \<le> cacheMaxBody"
    and "\<forall>(k', e')\<in>set (rc_entries c). k' \<noteq> k \<longrightarrow> ce_storedAt e' < ce_storedAt e"
    and "evictOldest c = Some c'"
  shows "map_of (rc_entries c') k = Some e \<and> rc_ttl c' = rc_ttl c"
  using assms
proof (induction c rule: evictOldest.induct)
  case (1 c)
  show ?case
  proof (cases "over_bounds c")
    case False
    with 1 show ?thesis by (simp add: evictOldest.simps [of c])
  next
    case True
    then obtain k0 e0 where o: "oldest None (rc_entries c) = Some (k0, e0)"
      using over_bounds_nonempty [OF "1.prems"(1)] oldest_None by fastforce
    then have mem: "(k0, e0) \<in> set (rc_entries c)" using oldest_mem by fastforce
    have ke: "(k, e) \<in> set (rc_entries c)" using "1.prems"(2) by (rule map_of_SomeD)
    have m0: "map_of (rc_entries c) k0 = Some e0"
      using "1.prems"(1) mem by (simp add: store_ok_def)
    have ne: "k0 \<noteq> k"
    proof
      assume "k0 = k"
      with m0 "1.prems"(2) have "e0 = e" by simp
      have "k' = k" if "(k', e') \<in> set (rc_entries c)" for k' e'
        using oldest_least [OF o that] "1.prems"(4) that \<open>e0 = e\<close> by fastforce
      then have "set (keys (rc_entries c)) \<subseteq> {k}" by auto
      then have "length (keys (rc_entries c)) \<le> card {k}"
        using "1.prems"(1) distinct_card [of "keys (rc_entries c)"] card_mono [of "{k}"]
        unfolding store_ok_def by (metis finite.emptyI finite.insertI)
      then have "rc_entries c = [(k, e)]" using ke by (cases "rc_entries c") auto
      with True "1.prems"(1,3) show False
        by (simp add: over_bounds_def store_ok_def total_len_def cacheMaxEntries_def cacheMaxBytes_def cacheMaxBody_def)
    qed
    let ?c = "c\<lparr>rc_entries := AList.delete k0 (rc_entries c), rc_bytes := rc_bytes c - body_len e0\<rparr>"
    have "map_of (rc_entries ?c) k = Some e" using ne "1.prems"(2) by simp
    moreover have "\<forall>(k', e')\<in>set (rc_entries ?c). k' \<noteq> k \<longrightarrow> ce_storedAt e' < ce_storedAt e"
      using "1.prems"(4) by (auto simp: AList.delete_eq)
    ultimately show ?thesis
      using "1.IH" [OF True o refl store_ok_delete [OF "1.prems"(1) m0]] "1.prems"(3,5) True o
      by (simp add: evictOldest.simps [of c])
  qed
qed

text \<open>
  A stored response is found again. An entry within the body limit that is newer than
  everything in the store is not evicted by its own insertion: until its TTL runs out, a lookup
  of its key returns it.
\<close>

theorem cache_put_get:
  assumes "cache_inv c" and "body_len e \<le> cacheMaxBody"
    and "\<forall>(k', e')\<in>set (rc_entries c). ce_storedAt e' < ce_storedAt e"
    and "now < ce_storedAt e + rc_ttl c" and "now' < ce_storedAt e + rc_ttl c"
  shows "\<exists>c'. cache_put c k e now = Some c' \<and> snd (cache_get c' k now') = Some e"
proof -
  let ?c1 = "c\<lparr>rc_entries := AList.update k e (rc_entries c),
    rc_bytes := (case map_of (rc_entries c) k of None \<Rightarrow> rc_bytes c | Some old \<Rightarrow> rc_bytes c - body_len old) + body_len e\<rparr>"
  let ?c2 = "?c1\<lparr>rc_entries := filter (\<lambda>p. \<not> (\<lambda>(k, e). expired_at ?c1 now e) p) (rc_entries ?c1),
    rc_bytes := rc_bytes ?c1 - sum_list (map (body_len \<circ> snd) (filter (\<lambda>(k, e). expired_at ?c1 now e) (rc_entries ?c1)))\<rparr>"
  have ok1: "store_ok ?c1" using assms(1) by (intro store_ok_update) (simp add: cache_inv_def)
  have ok2: "store_ok ?c2" using ok1 by (rule store_ok_filter)
  have m1: "map_of (rc_entries ?c1) k = Some e" by simp
  have m2: "map_of (rc_entries ?c2) k = Some e"
    using ok1 m1 assms(4) by (simp add: store_ok_def map_of_filter_distinct expired_at_def)
  have new: "\<forall>(k', e')\<in>set (rc_entries ?c1). k' \<noteq> k \<longrightarrow> ce_storedAt e' < ce_storedAt e"
    using assms(3) set_update_subset [of k e "rc_entries c"] by fastforce
  obtain c' where c': "cache_put c k e now = Some c'" using cache_put_ok [OF assms(1)] by blast
  have "map_of (rc_entries c') k = Some e \<and> rc_ttl c' = rc_ttl c"
  proof (cases "over_bounds ?c1")
    case False
    with c' m1 show ?thesis by (auto simp: cache_put_def Let_def)
  next
    case True
    with c' have "evictOldest ?c2 = Some c'"
      by (simp add: cache_put_def Let_def evictLocked_def case_prod_unfold)
    from evictOldest_keeps [OF ok2 m2 assms(2) _ this] new show ?thesis by auto
  qed
  with c' assms(5) show ?thesis by (simp add: cache_get_def expired_at_def)
qed

definition ex_entry :: "string \<Rightarrow> instant \<Rightarrow> cacheEntry" where
  "ex_entry b t = \<lparr>ce_status = 200, ce_header = [], ce_body = b, ce_storedAt = t\<rparr>"

theorem cache_put_get_witness:
  "\<exists>c'. cache_put (newResponseCache 10) ''k'' (ex_entry ''hello'' 5) 5 = Some c' \<and>
     snd (cache_get c' ''k'' 14) = Some (ex_entry ''hello'' 5)"
  using cache_put_get [of "newResponseCache 10" "ex_entry ''hello'' 5" 5 14 "''k''"]
  by (simp add: newResponseCache_inv) (simp add: ex_entry_def newResponseCache_def cacheMaxBody_def)

text \<open>The claims in flight: one per key, each its own, none of them ended.\<close>

definition fill_inv :: "responseCache \<Rightarrow> bool" where
  "fill_inv c \<longleftrightarrow> distinct (keys (rc_inflight c)) \<and> distinct (map snd (rc_inflight c)) \<and>
     (\<forall>f\<in>set (map snd (rc_inflight c)). f < rc_next c \<and> f \<notin> set (rc_closed c)) \<and>
     (\<forall>f\<in>set (rc_closed c). f < rc_next c)"

text \<open>
  One filler per key. The first request to claim a key owns its fill; until the owner ends
  it, everyone else is given the same fill to wait on and owns nothing; ending it once does not
  panic, releases exactly its waiters and frees the key.
\<close>

theorem single_flight:
  assumes "fill_inv c" and "beginFill c k = (c1, f, owner)"
  shows "fill_inv c1 \<and> (owner \<longleftrightarrow> map_of (rc_inflight c) k = None) \<and>
    beginFill c1 k = (c1, f, False) \<and>
    (\<exists>c2. endFill c1 k f = Some c2 \<and> fill_inv c2 \<and> map_of (rc_inflight c2) k = None \<and>
       rc_closed c2 = f # rc_closed c \<and> (\<forall>k'. k' \<noteq> k \<longrightarrow> map_of (rc_inflight c2) k' = map_of (rc_inflight c) k'))"
proof -
  have upd: "k \<notin> set (keys m) \<Longrightarrow> AList.update k v m = m @ [(k, v)]" for v m
    by (induction m) auto
  have c1: "fill_inv c1 \<and> map_of (rc_inflight c1) k = Some f \<and> rc_closed c1 = rc_closed c \<and>
      (owner \<longleftrightarrow> map_of (rc_inflight c) k = None) \<and>
      (\<forall>k'. k' \<noteq> k \<longrightarrow> map_of (rc_inflight c1) k' = map_of (rc_inflight c) k')"
  proof (cases "map_of (rc_inflight c) k")
    case None
    then have k: "k \<notin> set (keys (rc_inflight c))" by (simp add: map_of_eq_None_iff)
    with None assms(2) have e: "owner" "f = rc_next c" "c1 = c\<lparr>rc_inflight := rc_inflight c @ [(k, rc_next c)],
        rc_next := Suc (rc_next c)\<rparr>"
      by (auto simp: beginFill_def upd)
    have "rc_next c \<notin> set (map snd (rc_inflight c))" "rc_next c \<notin> set (rc_closed c)"
      using assms(1) by (auto simp: fill_inv_def)
    with assms(1) k have "fill_inv c1" by (auto simp: fill_inv_def e less_Suc_eq)
    with None k show ?thesis by (auto simp: e map_add_def split: option.split)
  qed (use assms in \<open>auto simp: beginFill_def\<close>)
  have mem: "(k, f) \<in> set (rc_inflight c1)" using c1 by (auto dest: map_of_SomeD)
  have nc: "f \<notin> set (rc_closed c1)" "f < rc_next c1" using c1 mem by (force simp: fill_inv_def)+
  have other: "g \<noteq> f" if "(k', g) \<in> set (rc_inflight c1)" "k' \<noteq> k" for k' g
  proof
    assume "g = f"
    moreover have "inj_on snd (set (rc_inflight c1))"
      using c1 by (simp add: fill_inv_def distinct_map)
    ultimately have "(k', f) = (k, f)" using that mem by (intro inj_onD [of snd]) auto
    then show False using that(2) by simp
  qed
  let ?c2 = "c1\<lparr>rc_inflight := AList.delete k (rc_inflight c1), rc_closed := f # rc_closed c1\<rparr>"
  have "endFill c1 k f = Some ?c2" using c1 nc by (simp add: endFill_def)
  moreover have "fill_inv ?c2"
    using c1 nc other
    by (auto simp: fill_inv_def AList.delete_eq distinct_map distinct_map_filter
        intro: inj_on_subset)
  ultimately show ?thesis using c1 by (simp add: beginFill_def)
qed

theorem single_flight_witness:
  "fill_inv (newResponseCache 5) \<and>
   (let (c1, f, owner) = beginFill (newResponseCache 5) ''k'' in owner \<and> beginFill c1 ''k'' = (c1, f, False))"
proof
  show i: "fill_inv (newResponseCache 5)" by (simp add: fill_inv_def newResponseCache_def)
  obtain c1 f owner where b: "beginFill (newResponseCache 5) ''k'' = (c1, f, owner)" by (rule prod_cases3)
  from single_flight [OF i b] b
  show "let (c1, f, owner) = beginFill (newResponseCache 5) ''k'' in owner \<and> beginFill c1 ''k'' = (c1, f, False)"
    by (simp add: newResponseCache_def)
qed

subsection \<open>What is stored\<close>

text \<open>What a handler does with its writer: each event carries the header map underneath at that time.\<close>

datatype write_event = WriteHeader header int | WriteBody header string

fun rec_step :: "cacheRecorder \<Rightarrow> write_event \<Rightarrow> cacheRecorder" where
  "rec_step w (WriteHeader h code) = fst (recWriteHeader w h code)"
| "rec_step w (WriteBody h p) = fst (recWrite w h p)"

fun written :: "write_event list \<Rightarrow> string" where
  "written [] = []"
| "written (WriteHeader h code # es) = written es"
| "written (WriteBody h p # es) = p @ written es"

lemma written_append: "written (es @ fs) = written es @ written fs"
  by (induction es rule: written.induct) simp_all

definition rec_inv :: "cacheRecorder \<Rightarrow> string \<Rightarrow> bool" where
  "rec_inv w body \<longleftrightarrow>
     (cr_storable w \<longrightarrow> cr_wroteHeader w \<and> cr_status w = 200 \<and>
        (\<exists>h. cacheResponseStorable h \<and> cr_header w = cloneStorableHeader h \<and>
             (\<forall>n. h_get h ''Content-Length'' \<noteq> [] \<longrightarrow> atoi (h_get h ''Content-Length'') = Some n \<longrightarrow> cr_declaredLen w = n)) \<and>
        (\<not> cr_overflow w \<longrightarrow> cr_buf w = body \<and> int (length body) \<le> cacheMaxBody)) \<and>
     (\<not> cr_wroteHeader w \<longrightarrow> \<not> cr_storable w \<and> \<not> cr_overflow w \<and> cr_buf w = [] \<and> body = [])"

lemma recWriteHeader_inv: "rec_inv w body \<Longrightarrow> rec_inv (fst (recWriteHeader w h code)) body"
  by (auto simp: rec_inv_def recWriteHeader_def Let_def cacheMaxBody_def split: list.split option.split
      intro!: exI [of _ "h_set h ''X-Cache'' (cr_mode w)"])

lemma recWriteHeader_wrote: "cr_wroteHeader (fst (recWriteHeader w h 200))"
  by (auto simp: recWriteHeader_def Let_def)

lemma recWrite_inv:
  assumes "rec_inv w body"
  shows "rec_inv (fst (recWrite w h p)) (body @ p)"
proof -
  define w1 where "w1 = (if cr_wroteHeader w then w else fst (recWriteHeader w h 200))"
  have i: "rec_inv w1 body" "cr_wroteHeader w1"
    using assms recWriteHeader_inv recWriteHeader_wrote by (auto simp: w1_def)
  have "fst (recWrite w h p) =
      (if cr_storable w1 \<and> \<not> cr_overflow w1
       then if cacheMaxBody < int (length (cr_buf w1)) + int (length p)
            then w1\<lparr>cr_overflow := True, cr_buf := []\<rparr>
            else w1\<lparr>cr_buf := cr_buf w1 @ p\<rparr>
       else w1)"
    by (simp add: recWrite_def w1_def Let_def case_prod_unfold)
  with i show ?thesis by (simp add: rec_inv_def)
qed

lemma rec_run_inv: "rec_inv w body \<Longrightarrow> rec_inv (foldl rec_step w es) (body @ written es)"
proof (induction es arbitrary: w body)
  case (Cons e es)
  show ?case
  proof (cases e)
    case (WriteHeader h code)
    with Cons.IH [OF recWriteHeader_inv [OF Cons.prems]] show ?thesis by simp
  next
    case (WriteBody h p)
    with Cons.IH [OF recWrite_inv [OF Cons.prems]] show ?thesis by simp
  qed
qed simp

lemma h_index_foldl_del: "h_index h k = [] \<Longrightarrow> h_index (foldl h_del h ns) k = []"
  by (induction ns arbitrary: h) (simp_all add: h_index_del)

lemma clone_no_cookie:
  "cacheResponseStorable h \<Longrightarrow> h_index (cloneStorableHeader h) ''Set-Cookie'' = []"
  by (simp add: cloneStorableHeader_def Let_def h_index_foldl_del cacheResponseStorable_def split: if_splits)



text \<open>
  Only anonymous reads are looked up or stored: an eligible request is a GET or HEAD of a
  route with a cache and a positive TTL, has no cookie, no \<^verbatim>\<open>Authorization\<close> and no \<^verbatim>\<open>Range\<close>, and
  its path is under one of the configured prefixes.
\<close>

theorem eligible_anonymous:
  assumes "cacheRequestEligible rq attached ttl paths origPath"
  shows "attached \<and> 0 < ttl \<and> rq_Method rq \<in> {''GET'', ''HEAD''} \<and>
    h_index (rq_Header rq) ''Cookie'' = [] \<and> req_cookie rq name = None \<and>
    h_get (rq_Header rq) ''Authorization'' = [] \<and> h_get (rq_Header rq) ''Range'' = [] \<and>
    (paths = [] \<or> (\<exists>p\<in>set paths. has_prefix origPath p))"
proof -
  have c: "h_index (rq_Header rq) ''Cookie'' = []"
    using assms by (simp add: cacheRequestEligible_def split: if_splits)
  then have "req_cookie rq name = None" by (rule req_cookie_None)
  with assms c show ?thesis by (auto simp: cacheRequestEligible_def list_ex_iff split: if_splits)
qed

definition ex_request :: request where
  "ex_request = \<lparr>rq_Method = ''GET'', rq_Host = ''shop.example'', rq_Path = ''/blog/1'', rq_RawQuery = [],
     rq_Header = [(''Accept'', [''*/*''])], rq_RemoteAddr = ''10.0.0.9:4242''\<rparr>"

theorem eligible_anonymous_witness:
  "cacheRequestEligible ex_request True (5 * second) [''/blog''] ''/blog/1'' \<and> req_cookie ex_request ''sid'' = None"
proof
  show e: "cacheRequestEligible ex_request True (5 * second) [''/blog''] ''/blog/1''" by code_simp
  show "req_cookie ex_request ''sid'' = None" using eligible_anonymous [OF e] by blast
qed

lemma accept_codings_sub: "set (accept_codings seen toks) \<subseteq> set codings - set seen"
proof (induction toks arbitrary: seen)
  case (Cons tok toks)
  let ?n = "to_lower (trim_space (hd (split_on CHR '';'' tok)))"
  show ?case using Cons.IH [of seen] Cons.IH [of "?n # seen"] by (auto simp: Let_def)
qed simp

lemma accept_codings_distinct: "distinct (accept_codings seen toks)"
proof (induction seen toks rule: accept_codings.induct)
  case (2 seen tok toks)
  then show ?case
    using accept_codings_sub [of "to_lower (trim_space (hd (split_on CHR '';'' tok))) # seen" toks]
    by (auto simp: Let_def)
qed simp

lemma set_join: "set (join sep xs) \<subseteq> set sep \<union> (\<Union>x\<in>set xs. set x)"
  by (induction sep xs rule: join.induct) auto

lemma normalize_no_NUL: "NUL \<notin> set (normalizeAcceptEncoding s)"
proof -
  have "NUL \<notin> set x" if "x \<in> set codings" for x
    using that by (auto simp: codings_def NUL_def char_of_def)
  moreover have "NUL \<notin> set '',''" by (simp add: NUL_def char_of_def)
  ultimately show ?thesis
    using set_join [of "'',''" "sort (accept_codings [] (split_on CHR '','' s))"]
      accept_codings_sub [of "[]" "split_on CHR '','' s"]
    unfolding normalizeAcceptEncoding_def by fastforce
qed

lemma filter_subseqs: "filter P xs \<in> set (subseqs xs)"
  by (induction xs) (auto simp: Let_def)

text \<open>
  The coding part of a cache key is canonical: it depends only on the set of codings the
  client accepts, so headers that differ in order, case, spacing, weights or unknown codings share
  one entry, and it is always one of the sixteen joins of known codings.
\<close>

theorem normalize_canonical:
  assumes "set (accept_codings [] (split_on CHR '','' s)) = set (accept_codings [] (split_on CHR '','' t))"
  shows "normalizeAcceptEncoding s = normalizeAcceptEncoding t \<and>
    normalizeAcceptEncoding s \<in> (join '','') ` set (subseqs codings)"
proof -
  let ?a = "accept_codings [] (split_on CHR '','' s)" and ?b = "accept_codings [] (split_on CHR '','' t)"
  have d: "distinct ?a" "distinct ?b" by (rule accept_codings_distinct)+
  have eq: "sort ?a = sort ?b"
    using d assms by (intro sorted_distinct_set_unique) simp_all
  have "sorted codings" "distinct codings" by (simp_all add: codings_def)
  then have "sort ?a = filter (\<lambda>c. c \<in> set ?a) codings"
    using d accept_codings_sub [of "[]"]
    by (intro sorted_distinct_set_unique) (auto intro: sorted_filter [of id, simplified])
  then have "sort ?a \<in> set (subseqs codings)" by (simp add: filter_subseqs)
  then show ?thesis using eq by (simp add: normalizeAcceptEncoding_def)
qed

theorem normalize_canonical_witness:
  "normalizeAcceptEncoding ''GZIP;q=1.0, br, gzip'' = normalizeAcceptEncoding ''br,gzip,identity''"
proof -
  have "set (accept_codings [] (split_on CHR '','' ''GZIP;q=1.0, br, gzip'')) =
      set (accept_codings [] (split_on CHR '','' ''br,gzip,identity''))" by code_simp
  from normalize_canonical [OF this] show ?thesis by blast
qed

text \<open>
  Two requests share a cache entry only if they agree on host, path, query and accepted
  codings, as long as hosts and queries have no NUL and decoded paths have no question mark.
\<close>

theorem cacheKey_inj:
  assumes "NUL \<notin> set h" "NUL \<notin> set h'" "NUL \<notin> set q" "NUL \<notin> set q'"
    and "CHR ''?'' \<notin> set p" "CHR ''?'' \<notin> set p'"
    and "cacheKey h p q e = cacheKey h' p' q' e'"
  shows "h = h' \<and> p = p' \<and> q = q' \<and> normalizeAcceptEncoding e = normalizeAcceptEncoding e'"
proof -
  let ?n = normalizeAcceptEncoding
  have "cut (cacheKey h p q e) NUL = cut (cacheKey h' p' q' e') NUL" using assms by simp
  then have 1: "h = h'" "p @ ''?'' @ q @ NUL # ?n e = p' @ ''?'' @ q' @ NUL # ?n e'"
    using assms by (simp_all add: cacheKey_def cut_append)
  then have "cut (p @ ''?'' @ q @ NUL # ?n e) CHR ''?'' = cut (p' @ ''?'' @ q' @ NUL # ?n e') CHR ''?''" by simp
  then have 2: "p = p'" "q @ NUL # ?n e = q' @ NUL # ?n e'" using assms by (simp_all add: cut_append)
  then have "cut (q @ NUL # ?n e) NUL = cut (q' @ NUL # ?n e') NUL" by simp
  then have "q = q' \<and> ?n e = ?n e'" using assms(3,4) by (simp add: cut_append)
  with 1 2 show ?thesis by simp
qed

theorem cacheKey_inj_witness:
  "cacheKey ''a.example'' ''/p'' ''x=1'' ''gzip'' = cacheKey ''a.example'' ''/p'' ''x=1'' ''GZIP'' \<and>
   normalizeAcceptEncoding ''gzip'' = normalizeAcceptEncoding ''GZIP''"
proof -
  have eq: "cacheKey ''a.example'' ''/p'' ''x=1'' ''gzip'' = cacheKey ''a.example'' ''/p'' ''x=1'' ''GZIP''" by code_simp
  have n: "NUL \<notin> set ''a.example''" "NUL \<notin> set ''x=1''" "CHR ''?'' \<notin> set ''/p''"
    by (simp_all add: NUL_def char_of_def)
  show ?thesis using eq cacheKey_inj [OF n(1) n(1) n(2) n(2) n(3) n(3) eq] by blast
qed

text \<open>
  The hypothesis on paths is needed: a path with a decoded question mark (\<^verbatim>\<open>/a%3Fb\<close>) has the
  key of another path with a longer query.
\<close>

theorem cacheKey_collision:
  "cacheKey h ''/a?b'' ''c'' e = cacheKey h ''/a'' ''b?c'' e"
  by (simp add: cacheKey_def)

subsection \<open>Termination of the eviction\<close>

lemma evictOldest_first:
  assumes "store_ok c" "evictOldest c = Some c'" "x \<in> set (rc_entries c)" "x \<notin> set (rc_entries c')" "y \<in> set (rc_entries c')"
  shows "ce_storedAt (snd x) \<le> ce_storedAt (snd y)"
  using assms
proof (induction c rule: evictOldest.induct)
  case (1 c)
  show ?case
  proof (cases "over_bounds c")
    case False
    with 1 show ?thesis by (simp add: evictOldest.simps [of c])
  next
    case True
    then obtain k e where o: "oldest None (rc_entries c) = Some (k, e)"
      using over_bounds_nonempty [OF "1.prems"(1)] oldest_None by fastforce
    then have "(k, e) \<in> set (rc_entries c)" using oldest_mem by fastforce
    then have m: "map_of (rc_entries c) k = Some e" using "1.prems"(1) by (simp add: store_ok_def)
    let ?c = "c\<lparr>rc_entries := AList.delete k (rc_entries c), rc_bytes := rc_bytes c - body_len e\<rparr>"
    note ok = store_ok_delete [OF "1.prems"(1) m]
    have e: "evictOldest ?c = Some c'" using "1.prems"(2) True o by (simp add: evictOldest.simps [of c])
    show ?thesis
    proof (cases "x = (k, e)")
      case True
      have "y \<in> set (rc_entries c)" using evictOldest_ok [OF ok] e "1.prems"(5) by (auto simp: AList.delete_eq)
      then show ?thesis using oldest_least [OF o, of "fst y" "snd y"] True by simp
    next
      case False
      have "fst x \<noteq> k"
      proof
        assume "fst x = k"
        then have "map_of (rc_entries c) k = Some (snd x)" using "1.prems"(1,3) by (auto simp: store_ok_def intro: map_of_is_SomeI)
        with m \<open>fst x = k\<close> False show False by (cases x) simp
      qed
      then have "x \<in> set (rc_entries ?c)" using "1.prems"(3) by (cases x) (auto simp: AList.delete_eq)
      from "1.IH" [OF \<open>over_bounds c\<close> o refl ok e this "1.prems"(4,5)] show ?thesis .
    qed
  qed
qed

text \<open>
  (C23) The eviction loop ends. From every consistent store, however far over its bounds, the eviction returns, without dereferencing the missing entry of an empty
  store, within the bounds on entries and bytes and consistent; it keeps a part of the entries, drops every expired one, and of the others it drops only ones that are no newer than any that it keeps.
\<close>

theorem eviction_terminates:
  assumes "store_ok c"
  shows "\<exists>c'. evictLocked c now = Some c' \<and> store_ok c' \<and> length (rc_entries c') \<le> cacheMaxEntries \<and> rc_bytes c' \<le> cacheMaxBytes \<and>
    set (rc_entries c') \<subseteq> set (rc_entries c) \<and> (\<forall>(k, e)\<in>set (rc_entries c'). \<not> expired_at c now e) \<and>
    (\<forall>x\<in>set (rc_entries c) - set (rc_entries c'). \<forall>y\<in>set (rc_entries c'). expired_at c now (snd x) \<or> ce_storedAt (snd x) \<le> ce_storedAt (snd y))"
proof -
  let ?c = "c\<lparr>rc_entries := filter (\<lambda>(k, e). \<not> expired_at c now e) (rc_entries c),
      rc_bytes := rc_bytes c - sum_list (map (body_len \<circ> snd) (filter (\<lambda>(k, e). expired_at c now e) (rc_entries c)))\<rparr>"
  have ok: "store_ok ?c" using store_ok_filter [OF assms, of "\<lambda>(k, e). expired_at c now e"] by (simp add: case_prod_unfold)
  from evictOldest_ok [OF ok] obtain c' where c': "evictOldest ?c = Some c'" "cache_inv c'" "set (rc_entries c') \<subseteq> set (rc_entries ?c)" by blast
  have "ce_storedAt (snd x) \<le> ce_storedAt (snd y)"
    if "x \<in> set (rc_entries c)" "x \<notin> set (rc_entries c')" "y \<in> set (rc_entries c')" "\<not> expired_at c now (snd x)" for x y
    using evictOldest_first [OF ok c'(1) _ that(2,3)] that by (auto simp: case_prod_unfold)
  with c' show ?thesis
    by (intro exI [of _ c']) (auto simp: evictLocked_def Let_def cache_inv_def over_bounds_def not_less)
qed

definition ex_stale_store :: responseCache where
  "ex_stale_store = (newResponseCache minute)\<lparr>rc_entries := [(''k'', \<lparr>ce_status = 200, ce_header = [], ce_body = ''x'', ce_storedAt = 0\<rparr>)], rc_bytes := 1\<rparr>"

theorem eviction_terminates_witness:
  "\<exists>c'. evictLocked ex_stale_store (2 * minute) = Some c' \<and> rc_entries c' = []"
proof -
  have "store_ok ex_stale_store" by (simp add: ex_stale_store_def store_ok_def total_len_def newResponseCache_def)
  from eviction_terminates [OF this, of "2 * minute"] obtain c' where c': "evictLocked ex_stale_store (2 * minute) = Some c'"
    "set (rc_entries c') \<subseteq> set (rc_entries ex_stale_store)" "\<forall>(k, e)\<in>set (rc_entries c'). \<not> expired_at ex_stale_store (2 * minute) e" by blast
  have "expired_at ex_stale_store (2 * minute) (snd x)" if "x \<in> set (rc_entries ex_stale_store)" for x
    using that by (simp add: ex_stale_store_def newResponseCache_def expired_at_def time_units)
  with c'(2,3) have "\<And>x. x \<notin> set (rc_entries c')" by (metis case_prodD prod.collapse subsetD)
  then have "rc_entries c' = []" by (cases "rc_entries c'") auto
  with c'(1) show ?thesis by blast
qed

end
