(* ===== verification/Sso.thy ===== *)
theory Sso
  imports Http
begin

section \<open>Signed cookies and OAuth blobs (\<^verbatim>\<open>internal/sso\<close>)\<close>

text \<open>
  The formats shared by the issuer and the proxy: the \<^verbatim>\<open>pmgr_sso\<close> cookie and the typed blobs of
  clients, codes, access tokens, refresh tokens and actor assertions. Byte strings are
  \<^typ>\<open>string\<close>s. The keyed hash (\<open>mac\<close>, HMAC-SHA256, key first) and the JSON encoder and decoder of
  each claims type are arguments of the definitions that use them; base64url and hex are
  written out. Verification returns the claims, or \<open>None\<close> where the code returns \<^verbatim>\<open>false\<close>.
\<close>

type_synonym mac = "string \<Rightarrow> string \<Rightarrow> string"

definition unix :: "instant \<Rightarrow> int" where "unix t = t div second"

subsection \<open>Hexadecimal\<close>

abbreviation byte :: "char \<Rightarrow> nat" where "byte \<equiv> of_char"

definition hex_char :: "nat \<Rightarrow> char" where "hex_char n = ''0123456789abcdef'' ! n"

fun hex_val :: "char \<Rightarrow> nat option" where
  "hex_val c =
     (if byte CHR ''0'' \<le> byte c \<and> byte c \<le> byte CHR ''9'' then Some (byte c - byte CHR ''0'')
      else if byte CHR ''a'' \<le> byte c \<and> byte c \<le> byte CHR ''f'' then Some (byte c - byte CHR ''a'' + 10)
      else if byte CHR ''A'' \<le> byte c \<and> byte c \<le> byte CHR ''F'' then Some (byte c - byte CHR ''A'' + 10)
      else None)"

definition hex_encode_string :: "string \<Rightarrow> string" where
  "hex_encode_string s = concat (map (\<lambda>c. [hex_char (byte c div 16), hex_char (byte c mod 16)]) s)"

fun hex_decode_string :: "string \<Rightarrow> string option" where
  "hex_decode_string [] = Some []"
| "hex_decode_string [a] = None"
| "hex_decode_string (a # b # s) =
     (case (hex_val a, hex_val b) of
        (Some x, Some y) \<Rightarrow> map_option ((#) (char_of (16 * x + y))) (hex_decode_string s)
      | _ \<Rightarrow> None)"

lemma hex_val_char: "n < 16 \<Longrightarrow> hex_val (hex_char n) = Some n"
proof -
  assume "n < 16"
  then have "n \<in> set [0..<16]" by simp
  moreover have "\<forall>n\<in>set [0..<16]. hex_val (hex_char n) = Some n" by code_simp
  ultimately show ?thesis by blast
qed

declare hex_val.simps [simp del]

lemma byte_less: "byte c < 256"
  by (cases c) (simp add: of_char_def) 

lemma byte_div: "byte c div 16 < 16" "byte c div 4 < 64" "byte c div 64 < 4"
  using byte_less [of c] by (simp_all only: less_mult_imp_div_less mult_numeral_1)

lemma hex_decode_encode: "hex_decode_string (hex_encode_string s) = Some s"
proof (induction s)
  case (Cons c s)
  have "byte c div 16 < 16" by (rule byte_div)
  then show ?case using Cons by (simp add: hex_encode_string_def hex_val_char)
qed (simp add: hex_encode_string_def)

lemma hex_encode_clean:
  assumes "c \<in> set (hex_encode_string s)"
  shows "c \<in> set ''0123456789abcdef''"
proof -
  obtain x where x: "c = hex_char (byte x div 16) \<or> c = hex_char (byte x mod 16)"
    using assms by (auto simp: hex_encode_string_def)
  have "byte x div 16 < 16" "byte x mod 16 < 16" by (simp_all add: byte_div)
  with x obtain n where "c = ''0123456789abcdef'' ! n" "n < length ''0123456789abcdef''"
    by (auto simp: hex_char_def)
  then show ?thesis by (metis nth_mem)
qed

subsection \<open>base64url without padding\<close>

definition b64_alphabet :: string where
  "b64_alphabet = ''ABCDEFGHIJKLMNOPQRSTUVWXYZabcdefghijklmnopqrstuvwxyz0123456789-_''"

definition b64_char :: "nat \<Rightarrow> char" where "b64_char n = b64_alphabet ! n"

definition b64_val :: "char \<Rightarrow> nat option" where
  "b64_val c = find (\<lambda>n. b64_char n = c) [0..<64]"

fun b64_encode :: "string \<Rightarrow> string" where
  "b64_encode [] = []"
| "b64_encode [a] = map b64_char [byte a div 4, (byte a mod 4) * 16]"
| "b64_encode [a, b] = map b64_char [byte a div 4, (byte a mod 4) * 16 + byte b div 16, (byte b mod 16) * 4]"
| "b64_encode (a # b # c # s) =
     map b64_char [byte a div 4, (byte a mod 4) * 16 + byte b div 16, (byte b mod 16) * 4 + byte c div 64, byte c mod 64]
     @ b64_encode s"

text \<open>The decoder is not strict: the unused low bits of the last digit are ignored.\<close>

fun b64_bytes :: "nat list \<Rightarrow> string option" where
  "b64_bytes [] = Some []"
| "b64_bytes [p] = None"
| "b64_bytes [p, q] = Some (map char_of [p * 4 + q div 16])"
| "b64_bytes [p, q, r] = Some (map char_of [p * 4 + q div 16, (q mod 16) * 16 + r div 4])"
| "b64_bytes (p # q # r # t # s) =
     map_option ((@) (map char_of [p * 4 + q div 16, (q mod 16) * 16 + r div 4, (r mod 4) * 64 + t])) (b64_bytes s)"

text \<open>Line breaks in the input are skipped; any other character outside the alphabet is an error.\<close>

definition b64_decode :: "string \<Rightarrow> string option" where
  "b64_decode s =
     (let ds = map b64_val (filter (\<lambda>c. c \<notin> {CHR 0x0A, CHR 0x0D}) s)
      in if None \<in> set ds then None else b64_bytes (map the ds))"

lemma b64_table:
  "n < 64 \<Longrightarrow> b64_val (b64_char n) = Some n \<and> b64_char n \<notin> {CHR 0x0A, CHR 0x0D} \<and> b64_char n \<noteq> CHR ''.''"
proof -
  assume "n < 64"
  then have "n \<in> set [0..<64]" by simp
  moreover have "list_all (\<lambda>n. b64_val (b64_char n) = Some n \<and> b64_char n \<notin> {CHR 0x0A, CHR 0x0D} \<and> b64_char n \<noteq> CHR ''.'') [0..<64]"
    by code_simp
  ultimately show ?thesis by (simp add: list_all_iff)
qed

lemma b64_decode_digits:
  assumes "\<forall>n\<in>set ns. n < 64"
  shows "b64_decode (map b64_char ns) = b64_bytes ns"
proof -
  have f: "filter (\<lambda>c. c \<notin> {CHR 0x0A, CHR 0x0D}) (map b64_char ns) = map b64_char ns"
    using assms b64_table by (induction ns) auto
  have "map b64_val (map b64_char ns) = map Some ns" using assms b64_table by (induction ns) auto
  moreover from this have "map the (map b64_val (map b64_char ns)) = ns"
    by (metis list.map_comp list.map_id option.sel comp_def map_idI)
  ultimately show ?thesis using f unfolding b64_decode_def Let_def by auto
qed

text \<open>The digits of an encoding, before they are written with the alphabet.\<close>

fun b64_digits :: "string \<Rightarrow> nat list" where
  "b64_digits [] = []"
| "b64_digits [a] = [byte a div 4, (byte a mod 4) * 16]"
| "b64_digits [a, b] = [byte a div 4, (byte a mod 4) * 16 + byte b div 16, (byte b mod 16) * 4]"
| "b64_digits (a # b # c # s) =
     [byte a div 4, (byte a mod 4) * 16 + byte b div 16, (byte b mod 16) * 4 + byte c div 64, byte c mod 64] @ b64_digits s"

lemma b64_encode_digits: "b64_encode s = map b64_char (b64_digits s)"
  by (induction s rule: b64_encode.induct) simp_all

lemma digit_bounds:
  "(byte a mod 4) * 16 + byte b div 16 < 64" "(byte a mod 16) * 4 + byte b div 64 < 64"
  "byte a mod 64 < 64" "(byte a mod 4) * 16 < 64" "(byte a mod 16) * 4 < 64"
proof -
  have "byte a mod 4 < 4" "byte a mod 16 < 16" by simp_all
  with byte_div [of b] show "(byte a mod 4) * 16 + byte b div 16 < 64" "(byte a mod 16) * 4 + byte b div 64 < 64"
    "(byte a mod 4) * 16 < 64" "(byte a mod 16) * 4 < 64" by linarith+
qed simp

lemma b64_digits_bound: "\<forall>n\<in>set (b64_digits s). n < 64"
  by (induction s rule: b64_digits.induct) (auto simp: digit_bounds byte_div)

lemma regroup:
  "byte a div 4 * 4 + ((byte a mod 4) * 16 + byte b div 16) div 16 = byte a"
  "((byte a mod 4) * 16 + byte b div 16) mod 16 * 16 + ((byte b mod 16) * 4 + byte c div 64) div 4 = byte b"
  "((byte b mod 16) * 4 + byte c div 64) mod 4 * 64 + byte c mod 64 = byte c"
  "byte a div 4 * 4 + (byte a mod 4) * 16 div 16 = byte a"
  "((byte a mod 4) * 16 + byte b div 16) mod 16 * 16 + (byte b mod 16) * 4 div 4 = byte b"
proof -
  have z: "byte b div 16 div 16 = 0" "byte c div 64 div 4 = 0"
    "byte b div 16 mod 16 = byte b div 16" "byte c div 64 mod 4 = byte c div 64"
    using byte_div [of b] byte_div [of c] by (simp_all only: div_less mod_less)
  show "byte a div 4 * 4 + ((byte a mod 4) * 16 + byte b div 16) div 16 = byte a"
    "byte a div 4 * 4 + (byte a mod 4) * 16 div 16 = byte a"
    using z(1) by simp_all
  show "((byte a mod 4) * 16 + byte b div 16) mod 16 * 16 + ((byte b mod 16) * 4 + byte c div 64) div 4 = byte b"
    "((byte a mod 4) * 16 + byte b div 16) mod 16 * 16 + (byte b mod 16) * 4 div 4 = byte b"
    using z by simp_all
  show "((byte b mod 16) * 4 + byte c div 64) mod 4 * 64 + byte c mod 64 = byte c"
    using z by simp
qed

lemma b64_bytes_digits: "b64_bytes (b64_digits s) = Some s"
  by (induction s rule: b64_digits.induct) (simp_all only: b64_digits.simps b64_bytes.simps append.simps
      regroup list.map char_of_char option.map o_apply)

lemma b64_decode_encode: "b64_decode (b64_encode s) = Some s"
  by (simp add: b64_encode_digits b64_decode_digits b64_digits_bound b64_bytes_digits)

lemma b64_no_dot: "CHR ''.'' \<notin> set (b64_encode s)"
  using b64_digits_bound [of s] b64_table by (fastforce simp: b64_encode_digits)

subsection \<open>The session cookie\<close>

definition CookieName :: string where "CookieName = ''pmgr_sso''"

definition Sign :: "mac \<Rightarrow> string \<Rightarrow> instant \<Rightarrow> string \<Rightarrow> string" where
  "Sign mac username expiry secret =
     (let payload = username @ ''|'' @ itoa (unix expiry)
      in payload @ ''|'' @ hex_encode_string (mac secret payload))"

definition Verify :: "mac \<Rightarrow> instant \<Rightarrow> string \<Rightarrow> string \<Rightarrow> string option" where
  "Verify mac now raw secret =
     (case split_on CHR ''|'' raw of
        [user, expiry, sig] \<Rightarrow>
          if user = [] then None
          else (case atoi expiry of
                  None \<Rightarrow> None
                | Some expUnix \<Rightarrow>
                    (case hex_decode_string sig of
                       None \<Rightarrow> None
                     | Some s \<Rightarrow>
                         if mac secret (user @ ''|'' @ expiry) \<noteq> s then None
                         else if expUnix < unix now then None
                         else Some user))
      | _ \<Rightarrow> None)"

subsection \<open>Typed blobs\<close>

definition ClientIDPrefix :: string where "ClientIDPrefix = ''pmgcl_''"
definition AuthCodePrefix :: string where "AuthCodePrefix = ''pmgc_''"
definition AccessTokenPrefix :: string where "AccessTokenPrefix = ''pmga_''"
definition RefreshTokenPrefix :: string where "RefreshTokenPrefix = ''pmgf_''"
definition ActorPrefix :: string where "ActorPrefix = ''pmgact_''"

definition tagClient :: string where "tagClient = ''pmgr-oauth-client-v1''"
definition tagCode :: string where "tagCode = ''pmgr-oauth-code-v1''"
definition tagAccess :: string where "tagAccess = ''pmgr-oauth-at-v1''"
definition tagRefresh :: string where "tagRefresh = ''pmgr-oauth-rt-v1''"
definition tagActor :: string where "tagActor = ''pmgr-actor-v1''"

lemmas blob_consts = ClientIDPrefix_def AuthCodePrefix_def AccessTokenPrefix_def RefreshTokenPrefix_def
  ActorPrefix_def tagClient_def tagCode_def tagAccess_def tagRefresh_def tagActor_def

definition blobMAC :: "mac \<Rightarrow> string \<Rightarrow> string \<Rightarrow> string \<Rightarrow> string" where
  "blobMAC mac tag payload secret = mac secret (tag @ [char_of (0 :: nat)] @ payload)"

definition signBlob :: "mac \<Rightarrow> string \<Rightarrow> string \<Rightarrow> string \<Rightarrow> string \<Rightarrow> string" where
  "signBlob mac prefix tag payload secret =
     prefix @ b64_encode payload @ ''.'' @ b64_encode (blobMAC mac tag payload secret)"

definition verifyBlob :: "mac \<Rightarrow> string \<Rightarrow> string \<Rightarrow> string \<Rightarrow> string \<Rightarrow> string option" where
  "verifyBlob mac raw prefix tag secret =
     (case cut_prefix raw prefix of
        None \<Rightarrow> None
      | Some body \<Rightarrow>
          (case cut body CHR ''.'' of
             None \<Rightarrow> None
           | Some (payB64, macB64) \<Rightarrow>
               (case b64_decode payB64 of
                  None \<Rightarrow> None
                | Some payload \<Rightarrow>
                    (case b64_decode macB64 of
                       None \<Rightarrow> None
                     | Some sig \<Rightarrow>
                         if blobMAC mac tag payload secret \<noteq> sig then None else Some payload))))"

definition expired :: "instant \<Rightarrow> int \<Rightarrow> bool" where "expired now expUnix \<longleftrightarrow> expUnix < unix now"

record ClientReg =
  cl_RedirectURIs :: "string list"
  cl_Name :: string
  cl_IssuedAt :: int

record CodeClaims =
  cc_Username :: string
  cc_ClientID :: string
  cc_Audience :: string
  cc_Scope :: string
  cc_RedirectURI :: string
  cc_CodeChallenge :: string
  cc_JTI :: string
  cc_Exp :: int

record AccessClaims =
  ac_Username :: string
  ac_ClientID :: string
  ac_Audience :: string
  ac_Scope :: string
  ac_Exp :: int

record RefreshClaims =
  rf_Username :: string
  rf_ClientID :: string
  rf_Audience :: string
  rf_Scope :: string
  rf_JTI :: string
  rf_Exp :: int

record ActorClaims =
  act_Username :: string
  act_IP :: string
  act_Exp :: int

definition SignClient :: "mac \<Rightarrow> (ClientReg \<Rightarrow> string) \<Rightarrow> ClientReg \<Rightarrow> string \<Rightarrow> string" where
  "SignClient mac marshal c secret = signBlob mac ClientIDPrefix tagClient (marshal c) secret"

definition VerifyClient :: "mac \<Rightarrow> (string \<Rightarrow> ClientReg option) \<Rightarrow> string \<Rightarrow> string \<Rightarrow> ClientReg option" where
  "VerifyClient mac unmarshal raw secret =
     (case verifyBlob mac raw ClientIDPrefix tagClient secret of None \<Rightarrow> None | Some payload \<Rightarrow> unmarshal payload)"

definition SignCode :: "mac \<Rightarrow> (CodeClaims \<Rightarrow> string) \<Rightarrow> CodeClaims \<Rightarrow> string \<Rightarrow> string" where
  "SignCode mac marshal c secret = signBlob mac AuthCodePrefix tagCode (marshal c) secret"

definition VerifyCode :: "mac \<Rightarrow> (string \<Rightarrow> CodeClaims option) \<Rightarrow> instant \<Rightarrow> string \<Rightarrow> string \<Rightarrow> CodeClaims option" where
  "VerifyCode mac unmarshal now raw secret =
     (case verifyBlob mac raw AuthCodePrefix tagCode secret of
        None \<Rightarrow> None
      | Some payload \<Rightarrow>
          (case unmarshal payload of None \<Rightarrow> None | Some c \<Rightarrow> if expired now (cc_Exp c) then None else Some c))"

definition SignAccess :: "mac \<Rightarrow> (AccessClaims \<Rightarrow> string) \<Rightarrow> AccessClaims \<Rightarrow> string \<Rightarrow> string" where
  "SignAccess mac marshal c secret = signBlob mac AccessTokenPrefix tagAccess (marshal c) secret"

definition VerifyAccess :: "mac \<Rightarrow> (string \<Rightarrow> AccessClaims option) \<Rightarrow> instant \<Rightarrow> string \<Rightarrow> string \<Rightarrow> AccessClaims option" where
  "VerifyAccess mac unmarshal now raw secret =
     (case verifyBlob mac raw AccessTokenPrefix tagAccess secret of
        None \<Rightarrow> None
      | Some payload \<Rightarrow>
          (case unmarshal payload of None \<Rightarrow> None | Some c \<Rightarrow> if expired now (ac_Exp c) then None else Some c))"

definition SignRefresh :: "mac \<Rightarrow> (RefreshClaims \<Rightarrow> string) \<Rightarrow> RefreshClaims \<Rightarrow> string \<Rightarrow> string" where
  "SignRefresh mac marshal c secret = signBlob mac RefreshTokenPrefix tagRefresh (marshal c) secret"

definition VerifyRefresh :: "mac \<Rightarrow> (string \<Rightarrow> RefreshClaims option) \<Rightarrow> instant \<Rightarrow> string \<Rightarrow> string \<Rightarrow> RefreshClaims option" where
  "VerifyRefresh mac unmarshal now raw secret =
     (case verifyBlob mac raw RefreshTokenPrefix tagRefresh secret of
        None \<Rightarrow> None
      | Some payload \<Rightarrow>
          (case unmarshal payload of None \<Rightarrow> None | Some c \<Rightarrow> if expired now (rf_Exp c) then None else Some c))"

definition SignActor :: "mac \<Rightarrow> (ActorClaims \<Rightarrow> string) \<Rightarrow> ActorClaims \<Rightarrow> string \<Rightarrow> string" where
  "SignActor mac marshal c secret = signBlob mac ActorPrefix tagActor (marshal c) secret"

definition VerifyActor :: "mac \<Rightarrow> (string \<Rightarrow> ActorClaims option) \<Rightarrow> instant \<Rightarrow> string \<Rightarrow> string \<Rightarrow> ActorClaims option" where
  "VerifyActor mac unmarshal now raw secret =
     (case verifyBlob mac raw ActorPrefix tagActor secret of
        None \<Rightarrow> None
      | Some payload \<Rightarrow>
          (case unmarshal payload of None \<Rightarrow> None | Some c \<Rightarrow> if expired now (act_Exp c) then None else Some c))"

subsection \<open>Properties of the cookie\<close>

lemma hex_encode_no_bar: "CHR ''|'' \<notin> set (hex_encode_string s)"
  using hex_encode_clean by fastforce

lemma count_list_pos: "c \<in> set s \<Longrightarrow> 0 < count_list s c"
  by (induction s) auto

lemma Verify_parts: "length (split_on CHR ''|'' raw) \<noteq> 3 \<Longrightarrow> Verify mac now raw secret = None"
  by (auto simp: Verify_def split: list.splits)

text \<open>
  (C36) What verification makes of a cookie the issuer signed: the username comes back exactly when it is
  not empty, has no \<^verbatim>\<open>|\<close> and the cookie has not expired, and the cookie is refused otherwise.
\<close>

theorem Sign_Verify:
  assumes "int64_ok (unix expiry)"
  shows "Verify mac now (Sign mac username expiry secret) secret =
    (if username = [] \<or> CHR ''|'' \<in> set username \<or> unix expiry < unix now then None else Some username)"
proof (cases "CHR ''|'' \<in> set username")
  case True
  then have "length (split_on CHR ''|'' (Sign mac username expiry secret)) \<noteq> 3"
    using count_list_pos [OF True] by (simp add: Sign_def Let_def length_split_on)
  with True show ?thesis by (simp add: Verify_parts)
next
  case False
  then show ?thesis
    using assms by (simp add: Verify_def Sign_def Let_def split_on_append split_on_notin itoa_no_bar
      hex_encode_no_bar atoi_itoa hex_decode_encode)
qed

text \<open>A keyed hash for concrete inputs: the key, a colon and the message.\<close>

definition ex_mac :: mac where "ex_mac k m = k @ '':'' @ m"

theorem Sign_Verify_witness:
  "Verify ex_mac (5 * second) (Sign ex_mac ''alice'' (60 * second) ''k'') ''k'' = Some ''alice''"
proof -
  have i: "int64_ok (unix (60 * second))" by code_simp
  have u: "\<not> unix (60 * second) < unix (5 * second)" by code_simp
  show ?thesis using Sign_Verify [OF i, of ex_mac "5 * second" "''alice''" "''k''"] u by simp
qed

lemma Verify_SomeD:
  assumes "Verify mac now raw secret = Some u"
  obtains e sig n where "split_on CHR ''|'' raw = [u, e, sig]" "atoi e = Some n"
    "hex_decode_string sig = Some (mac secret (u @ ''|'' @ e))" "unix now \<le> n" "u \<noteq> []"
  using assms by (auto simp: Verify_def split: list.splits option.splits if_splits)

lemma split_on_clean: "x \<in> set (split_on c s) \<Longrightarrow> c \<notin> set x"
proof (induction s arbitrary: x)
  case (Cons a s)
  obtain y ys where "split_on c s = y # ys" by (meson split_on_nonempty neq_Nil_conv)
  with Cons show ?case by (auto split: if_splits)
qed simp

text \<open>
  A signature is bound to its user and expiry: a cookie that carries the signature of a cookie
  issued to \<open>username\<close>, with any other user or expiry written in front of it, is not accepted for
  anyone else, nor after the signed expiry.
\<close>

theorem cookie_binding:
  assumes collision_free: "\<forall>m m'. mac secret m = mac secret m' \<longrightarrow> m = m'"
    and "int64_ok (unix expiry)" and "CHR ''|'' \<notin> set username"
    and "split_on CHR ''|'' raw = [a, b, sig]"
    and "hex_decode_string sig = Some (mac secret (username @ ''|'' @ itoa (unix expiry)))"
    and "Verify mac now raw secret = Some u"
  shows "u = username \<and> unix now \<le> unix expiry"
proof -
  obtain e n where v: "a = u" "b = e" "atoi e = Some n" "unix now \<le> n"
    "hex_decode_string sig = Some (mac secret (u @ ''|'' @ e))"
    using assms(4,6) by (auto elim!: Verify_SomeD)
  then have eq: "u @ CHR ''|'' # e = username @ CHR ''|'' # itoa (unix expiry)"
    using assms(5) collision_free by simp
  have "CHR ''|'' \<notin> set u" using split_on_clean [of u "CHR ''|''" raw] assms(4) v(1) by simp
  moreover have "cut (u @ CHR ''|'' # e) CHR ''|'' = cut (username @ CHR ''|'' # itoa (unix expiry)) CHR ''|''"
    by (simp only: eq)
  ultimately have "u = username" "e = itoa (unix expiry)" using assms(3) by (simp_all add: cut_append)
  with v assms(2) show ?thesis by (simp add: atoi_itoa)
qed

theorem cookie_binding_witness:
  "Verify ex_mac (5 * second) (Sign ex_mac ''bob'' (60 * second) ''k'') ''k'' = Some ''bob'' \<and>
   unix (5 * second) \<le> unix (60 * second)"
proof -
  let ?raw = "Sign ex_mac ''bob'' (60 * second) ''k''"
  let ?sig = "hex_encode_string (ex_mac ''k'' (''bob'' @ ''|'' @ itoa (unix (60 * second))))"
  have v: "Verify ex_mac (5 * second) ?raw ''k'' = Some ''bob''" by code_simp
  have "\<forall>m m'. ex_mac ''k'' m = ex_mac ''k'' m' \<longrightarrow> m = m'" by (simp add: ex_mac_def)
  moreover have "int64_ok (unix (60 * second))" by code_simp
  moreover have "CHR ''|'' \<notin> set ''bob''" by simp
  moreover have "split_on CHR ''|'' ?raw = [''bob'', itoa (unix (60 * second)), ?sig]" by code_simp
  ultimately show ?thesis using cookie_binding [OF _ _ _ _ hex_decode_encode v] v by blast
qed

subsection \<open>Properties of blobs\<close>

lemma verify_signed: "verifyBlob mac (signBlob mac prefix tag payload secret) prefix tag secret = Some payload"
  by (simp add: verifyBlob_def signBlob_def cut_append b64_no_dot b64_decode_encode)

text \<open>
  Every kind of blob survives the round trip: what the issuer signs, the verifier reads back
  unchanged until it expires, and not after.
\<close>

theorem blob_round_trip:
  assumes "um1 (m1 cl) = Some cl" "um2 (m2 co) = Some co" "um3 (m3 ac) = Some ac"
    "um4 (m4 rf) = Some rf" "um5 (m5 act) = Some act"
  shows "VerifyClient mac um1 (SignClient mac m1 cl secret) secret = Some cl \<and>
    VerifyCode mac um2 now (SignCode mac m2 co secret) secret = (if cc_Exp co < unix now then None else Some co) \<and>
    VerifyAccess mac um3 now (SignAccess mac m3 ac secret) secret = (if ac_Exp ac < unix now then None else Some ac) \<and>
    VerifyRefresh mac um4 now (SignRefresh mac m4 rf secret) secret = (if rf_Exp rf < unix now then None else Some rf) \<and>
    VerifyActor mac um5 now (SignActor mac m5 act secret) secret = (if act_Exp act < unix now then None else Some act)"
  using assms
  by (simp add: VerifyClient_def SignClient_def VerifyCode_def SignCode_def VerifyAccess_def SignAccess_def
      VerifyRefresh_def SignRefresh_def VerifyActor_def SignActor_def verify_signed expired_def)

text \<open>Concrete claims and an encoding of them for the examples.\<close>

definition ex_access :: AccessClaims where
  "ex_access = \<lparr>ac_Username = ''alice'', ac_ClientID = ''cli'', ac_Audience = ''https://mcp.example/'', ac_Scope = ''mcp'', ac_Exp = 100\<rparr>"

definition ex_marshal :: "AccessClaims \<Rightarrow> string" where
  "ex_marshal c = join ''|'' [ac_Username c, ac_ClientID c, ac_Audience c, ac_Scope c, itoa (ac_Exp c)]"

definition ex_unmarshal :: "string \<Rightarrow> AccessClaims option" where
  "ex_unmarshal s =
     (case split_on CHR ''|'' s of
        [u, i, a, sc, e] \<Rightarrow> map_option (\<lambda>n. \<lparr>ac_Username = u, ac_ClientID = i, ac_Audience = a, ac_Scope = sc, ac_Exp = n\<rparr>) (atoi e)
      | _ \<Rightarrow> None)"

theorem blob_round_trip_witness:
  "VerifyAccess ex_mac ex_unmarshal (5 * second) (SignAccess ex_mac ex_marshal ex_access ''k'') ''k'' = Some ex_access"
proof -
  have a: "ex_unmarshal (ex_marshal ex_access) = Some ex_access" by code_simp
  define cl where "cl = \<lparr>cl_RedirectURIs = [''https://a/cb''], cl_Name = ''n'', cl_IssuedAt = 1\<rparr>"
  define co where "co = \<lparr>cc_Username = ''u'', cc_ClientID = ''i'', cc_Audience = ''a'', cc_Scope = ''s'',
    cc_RedirectURI = ''r'', cc_CodeChallenge = ''c'', cc_JTI = ''j'', cc_Exp = 9\<rparr>"
  define rf where "rf = \<lparr>rf_Username = ''u'', rf_ClientID = ''i'', rf_Audience = ''a'', rf_Scope = ''s'', rf_JTI = ''j'', rf_Exp = 9\<rparr>"
  define act where "act = \<lparr>act_Username = ''u'', act_IP = ''10.0.0.1'', act_Exp = 9\<rparr>"
  have "\<not> ac_Exp ex_access < unix (5 * second)" by code_simp
  then show ?thesis
    using blob_round_trip [of "\<lambda>s. if s = ''cl'' then Some cl else None" "\<lambda>c. ''cl''" cl
        "\<lambda>s. if s = ''co'' then Some co else None" "\<lambda>c. ''co''" co ex_unmarshal ex_marshal ex_access
        "\<lambda>s. if s = ''rf'' then Some rf else None" "\<lambda>c. ''rf''" rf
        "\<lambda>s. if s = ''act'' then Some act else None" "\<lambda>c. ''act''" act ex_mac "''k''" "5 * second"] a
    by simp
qed

text \<open>The kinds of blob, each with its prefix and its tag.\<close>

definition blob_types :: "(string \<times> string) list" where
  "blob_types = [(ClientIDPrefix, tagClient), (AuthCodePrefix, tagCode), (AccessTokenPrefix, tagAccess),
     (RefreshTokenPrefix, tagRefresh), (ActorPrefix, tagActor)]"

lemma prefixes_apart:
  assumes "(p, t) \<in> set blob_types" "(p', t') \<in> set blob_types" "p \<noteq> p'"
  shows "cut_prefix (p @ s) p' = None"
proof -
  have "p @ s \<noteq> p' @ r" for r using assms by (auto simp: blob_types_def blob_consts)
  then show ?thesis by (metis cut_prefix_Some not_Some_eq)
qed

lemma tags_clean: "(p, t) \<in> set blob_types \<Longrightarrow> char_of (0 :: nat) \<notin> set t"
  by (auto simp: blob_types_def blob_consts char_of_def)

text \<open>
  Kinds of blob cannot be confused: a blob signed as one kind is refused by the verifier of every other
  kind, both as it is and after its prefix has been rewritten to the one that verifier expects.
\<close>

theorem blob_domain_separation:
  assumes collision_free: "\<forall>m m'. mac secret m = mac secret m' \<longrightarrow> m = m'"
    and "(p, t) \<in> set blob_types" "(p', t') \<in> set blob_types" "(p, t) \<noteq> (p', t')"
    and "signBlob mac p t payload secret = p @ body"
  shows "verifyBlob mac (p @ body) p' t' secret = None \<and> verifyBlob mac (p' @ body) p' t' secret = None"
proof
  have ne: "p \<noteq> p'" "t \<noteq> t'" using assms(2-4) by (auto simp: blob_types_def blob_consts)
  show "verifyBlob mac (p @ body) p' t' secret = None"
    using prefixes_apart [OF assms(2,3) ne(1)] by (simp add: verifyBlob_def)
  have "cut (t @ char_of (0 :: nat) # payload) (char_of (0 :: nat)) \<noteq> cut (t' @ char_of (0 :: nat) # payload) (char_of (0 :: nat))"
    using ne(2) tags_clean [OF assms(2)] tags_clean [OF assms(3)] by (simp add: cut_append)
  then have "t' @ char_of (0 :: nat) # payload \<noteq> t @ char_of (0 :: nat) # payload" by metis
  then have "blobMAC mac t' payload secret \<noteq> blobMAC mac t payload secret"
    using collision_free unfolding blobMAC_def by auto
  then show "verifyBlob mac (p' @ body) p' t' secret = None"
    using assms(5) by (auto simp: verifyBlob_def signBlob_def cut_append b64_no_dot b64_decode_encode)
qed

theorem blob_domain_separation_witness:
  "verifyBlob ex_mac (ActorPrefix @ b64_encode ''x'' @ ''.'' @ b64_encode (blobMAC ex_mac tagAccess ''x'' ''k'')) ActorPrefix tagActor ''k'' = None"
proof -
  have c: "\<forall>m m'. ex_mac ''k'' m = ex_mac ''k'' m' \<longrightarrow> m = m'" by (simp add: ex_mac_def)
  have m: "(AccessTokenPrefix, tagAccess) \<in> set blob_types" "(ActorPrefix, tagActor) \<in> set blob_types"
    by (simp_all add: blob_types_def)
  have n: "(AccessTokenPrefix, tagAccess) \<noteq> (ActorPrefix, tagActor)" by (simp add: blob_consts)
  have b: "signBlob ex_mac AccessTokenPrefix tagAccess ''x'' ''k'' =
      AccessTokenPrefix @ (b64_encode ''x'' @ ''.'' @ b64_encode (blobMAC ex_mac tagAccess ''x'' ''k''))"
    by (simp add: signBlob_def)
  show ?thesis using blob_domain_separation [OF c m n b] by (rule conjunct2)
qed

end
