(* ===== verification/Ip.thy ===== *)
theory Ip
  imports Http
begin

section \<open>IP addresses and networks of the Go standard library\<close>

text \<open>
  What the sources use of \<^verbatim>\<open>net\<close>: \<^verbatim>\<open>ParseIP\<close>, \<^verbatim>\<open>ParseCIDR\<close>, \<^verbatim>\<open>IPNet.Contains\<close>, \<^verbatim>\<open>IP.To4\<close>,
  \<^verbatim>\<open>IP.Mask\<close>, \<^verbatim>\<open>IP.String\<close> and \<^verbatim>\<open>SplitHostPort\<close>. An address is its list of bytes: sixteen, with the
  IPv4-in-IPv6 prefix for IPv4, or four after \<^verbatim>\<open>To4\<close>.
\<close>

unbundle bit_operations_syntax

type_synonym ip = "nat list"

definition v4InV6Prefix :: "nat list" where
  "v4InV6Prefix = replicate 10 0 @ [255, 255]"

definition to4 :: "ip \<Rightarrow> ip option" where
  "to4 a = (if length a = 4 then Some a
            else if length a = 16 \<and> take 12 a = v4InV6Prefix then Some (drop 12 a) else None)"

subsection \<open>Parsing\<close>

definition parse_octet :: "string \<Rightarrow> nat option" where
  "parse_octet s =
     (if s = [] \<or> \<not> all_digits s \<or> (1 < length s \<and> hd s = CHR ''0'') \<or> 255 < digits_nat s then None
      else Some (digits_nat s))"

definition parse4 :: "string \<Rightarrow> nat list option" where
  "parse4 s =
     (let os = map parse_octet (split_on CHR ''.'' s)
      in if length os = 4 \<and> None \<notin> set os then Some (map the os) else None)"

definition xdigit :: "char \<Rightarrow> nat option" where
  "xdigit c =
     (let n = (of_char c :: nat)
      in if 48 \<le> n \<and> n \<le> 57 then Some (n - 48)
         else if 97 \<le> n \<and> n \<le> 102 then Some (n - 87)
         else if 65 \<le> n \<and> n \<le> 70 then Some (n - 55) else None)"

definition hex_group :: "string \<Rightarrow> nat" where
  "hex_group s = foldl (\<lambda>acc c. acc * 16 + the (xdigit c)) 0 s"

text \<open>
  The bytes so far, the position of the ellipsis, and the rest of the string. A group is up to four hex
  digits; a dotted IPv4 address may stand for the last two groups.
\<close>

function parse6 :: "nat list \<Rightarrow> nat option \<Rightarrow> string \<Rightarrow> (nat list \<times> nat option \<times> string) option" where
  "parse6 bs el s =
     (if 16 \<le> length bs then Some (bs, el, s)
      else let g = takeWhile (\<lambda>c. xdigit c \<noteq> None) s; rest = dropWhile (\<lambda>c. xdigit c \<noteq> None) s
           in if g = [] \<or> 4 < length g then None
              else if rest \<noteq> [] \<and> hd rest = CHR ''.''
              then (if (el = None \<and> length bs \<noteq> 12) \<or> 16 < length bs + 4 then None
                    else case parse4 s of None \<Rightarrow> None | Some v4 \<Rightarrow> Some (bs @ v4, el, []))
              else let bs1 = bs @ [hex_group g div 256, hex_group g mod 256]
                   in (case rest of
                         [] \<Rightarrow> Some (bs1, el, [])
                       | [c] \<Rightarrow> None
                       | c # d # t \<Rightarrow>
                           if c \<noteq> CHR '':'' then None
                           else if d = CHR '':''
                           then (if el \<noteq> None then None
                                 else if t = [] then Some (bs1, Some (length bs1), [])
                                 else parse6 bs1 (Some (length bs1)) t)
                           else parse6 bs1 el (d # t)))"
  by pat_completeness auto
termination by (relation "measure (\<lambda>(bs, el, s). 16 - length bs)") auto

declare parse6.simps [simp del]

definition parse_v6 :: "string \<Rightarrow> ip option" where
  "parse_v6 s =
     (let (el0, s0) = (if has_prefix s ''::'' then (Some 0, drop 2 s) else (None, s))
      in if el0 = Some 0 \<and> s0 = [] then Some (replicate 16 0)
         else case parse6 [] el0 s0 of
           None \<Rightarrow> None
         | Some (bs, el, rest) \<Rightarrow>
             if rest \<noteq> [] then None
             else if length bs < 16
             then (case el of None \<Rightarrow> None | Some e \<Rightarrow> Some (take e bs @ replicate (16 - length bs) 0 @ drop e bs))
             else if el \<noteq> None then None else Some bs)"

text \<open>\<^verbatim>\<open>netip.ParseAddr\<close> looks at the first dot, colon or percent sign; zones are refused by the callers.\<close>

definition parse_addr :: "string \<Rightarrow> ip option" where
  "parse_addr s =
     (case dropWhile (\<lambda>c. c \<notin> {CHR ''.'', CHR '':'', CHR ''%''}) s of
        [] \<Rightarrow> None
      | c # _ \<Rightarrow> if c = CHR ''.'' then parse4 s else if c = CHR '':'' then parse_v6 s else None)"

definition parseIP :: "string \<Rightarrow> ip option" where
  "parseIP s = map_option (\<lambda>a. if length a = 4 then v4InV6Prefix @ a else a) (parse_addr s)"

subsection \<open>Networks\<close>

type_synonym ipnet = "nat list \<times> nat list"

fun cidrMask :: "nat \<Rightarrow> nat \<Rightarrow> nat list" where
  "cidrMask ones 0 = []"
| "cidrMask ones (Suc n) = (256 - 2 ^ (8 - min 8 ones)) # cidrMask (ones - 8) n"

definition mask_bytes :: "nat list \<Rightarrow> nat list \<Rightarrow> nat list" where
  "mask_bytes a m = map2 (AND) a m"

definition parseCIDR :: "string \<Rightarrow> ipnet option" where
  "parseCIDR s =
     (case cut s CHR ''/'' of
        None \<Rightarrow> None
      | Some (addr, m) \<Rightarrow>
          (case parse_addr addr of
             None \<Rightarrow> None
           | Some a \<Rightarrow>
               if m = [] \<or> \<not> all_digits m \<or> 8 * length a < digits_nat m then None
               else let k = cidrMask (digits_nat m) (length a) in Some (mask_bytes a k, k)))"

definition net_contains :: "ipnet \<Rightarrow> ip \<Rightarrow> bool" where
  "net_contains n a =
     (let nip = (case to4 (fst n) of None \<Rightarrow> fst n | Some x \<Rightarrow> x);
          m = (if length (snd n) = 16 \<and> length nip = 4 then drop 12 (snd n) else snd n);
          x = (case to4 a of None \<Rightarrow> a | Some y \<Rightarrow> y)
      in length x = length nip \<and> length m = length nip \<and> mask_bytes nip m = mask_bytes x m)"

subsection \<open>Printing\<close>

fun hex_str :: "nat \<Rightarrow> string" where
  "hex_str n = (if n < 16 then [''0123456789abcdef'' ! n] else hex_str (n div 16) @ [''0123456789abcdef'' ! (n mod 16)])"

declare hex_str.simps [simp del]

fun groups16 :: "nat list \<Rightarrow> nat list" where
  "groups16 (a # b # s) = (a * 256 + b) # groups16 s"
| "groups16 _ = []"

text \<open>The longest run of at least two zero groups, the first among equals: its start and its length.\<close>

definition zero_run :: "nat list \<Rightarrow> nat \<Rightarrow> nat" where
  "zero_run gs i = length (takeWhile (\<lambda>g. g = 0) (drop i gs))"

definition best_run :: "nat list \<Rightarrow> (nat \<times> nat) option" where
  "best_run gs =
     foldl (\<lambda>best i. let n = zero_run gs i in
              if n < 2 then best
              else case best of None \<Rightarrow> Some (i, n) | Some (j, m) \<Rightarrow> if m < n then Some (i, n) else best)
           None [0..<length gs]"

definition ip_string :: "ip \<Rightarrow> string" where
  "ip_string a =
     (case to4 a of
        Some v \<Rightarrow> join ''.'' (map nat_str v)
      | None \<Rightarrow>
          (let gs = groups16 a
           in case best_run gs of
                None \<Rightarrow> join '':'' (map hex_str gs)
              | Some (i, n) \<Rightarrow>
                  join '':'' (map hex_str (take i gs)) @ ''::'' @ join '':'' (map hex_str (drop (i + n) gs))))"

definition ip_mask :: "ip \<Rightarrow> nat list \<Rightarrow> ip" where
  "ip_mask a m = mask_bytes a m"

subsection \<open>Host and port\<close>

definition last_index :: "char \<Rightarrow> string \<Rightarrow> nat option" where
  "last_index c s =
     (let r = takeWhile (\<lambda>x. x \<noteq> c) (rev s) in if length r = length s then None else Some (length s - Suc (length r)))"

definition splitHostPort :: "string \<Rightarrow> (string \<times> string) option" where
  "splitHostPort hp =
     (case last_index CHR '':'' hp of
        None \<Rightarrow> None
      | Some i \<Rightarrow>
          if hp \<noteq> [] \<and> hd hp = CHR ''[''
          then (let e = length (takeWhile (\<lambda>c. c \<noteq> CHR '']'') hp)
                in if e = length hp \<or> Suc e = length hp \<or> Suc e \<noteq> i then None
                   else if CHR ''['' \<in> set (drop 1 hp) \<or> CHR '']'' \<in> set (drop (Suc e) hp) then None
                   else Some (take (e - 1) (drop 1 hp), drop (Suc i) hp))
          else if CHR '':'' \<in> set (take i hp) \<or> CHR ''['' \<in> set hp \<or> CHR '']'' \<in> set hp then None
          else Some (take i hp, drop (Suc i) hp))"

lemma ip_examples:
  "map_option ip_string (parseIP ''192.168.1.10'') = Some ''192.168.1.10''"
  "parseIP ''10.0.0.256'' = None" "parseIP ''010.0.0.1'' = None"
  "splitHostPort ''[::1]:80'' = Some (''::1'', ''80'')"
  "splitHostPort ''10.0.0.1:80'' = Some (''10.0.0.1'', ''80'')"
  "parseCIDR ''10.0.0.0/8'' = Some ([10, 0, 0, 0], [255, 0, 0, 0])"
  "map_option (net_contains ([10, 0, 0, 0], [255, 0, 0, 0])) (parseIP ''10.9.8.7'') = Some True"
  by code_simp+

end
