(* ===== verification/Backend.thy ===== *)
theory Backend
  imports Prelude
begin

section \<open>Backends, route groups and the choice of a backend\<close>

text \<open>
  The data of \<^verbatim>\<open>cmd/proxy/router.go\<close> (\<^verbatim>\<open>Backend\<close>, \<^verbatim>\<open>RouteGroup\<close>), the health state of a
  backend with its probes (\<^verbatim>\<open>cmd/proxy/health.go\<close>), and the selection functions
  \<^verbatim>\<open>pickHealthy\<close>, \<^verbatim>\<open>pickAny\<close>, \<^verbatim>\<open>pickPool\<close> and \<^verbatim>\<open>pickTier\<close>.

  A Go \<^verbatim>\<open>*Backend\<close> is an address into a heap of backends, because the same backend object can
  sit in several groups (a static route that resolves its service from labelled containers);
  a route group holds the addresses. The atomic counters keep their width: the round-robin
  cursor is a 64-bit word, the failure streak a 32-bit one. A run-time panic of the Go code
  is the value \<open>Panicked\<close>.
\<close>

subsection \<open>Data\<close>

datatype 'a go = Panicked | Returned 'a

type_synonym baddr = nat

text \<open>
  What the \<^verbatim>\<open>Director\<close> of a backend's reverse proxy does to a request: a local backend gets the route's host, a peer
  gets the route's host, the prefix restored, and the hop headers.
\<close>

datatype director =
    LocalDirector string
  | PeerDirector (pd_host: string) (pd_prefix: string) (pd_strip: bool) (pd_hopAuth: string)

record Backend =
  b_URL :: string
  b_Weight :: int
  b_Container :: string
  b_HealthPath :: string
  b_proxy :: "director option"
  b_proxyTransport :: "nat option"
  b_healthyFlag :: bool
  b_stickyID :: string
  b_consecFails :: "32 word"
  b_DockerUnhealthy :: bool
  b_Learned :: bool
  b_PeerID :: string
  b_Variant :: string
  b_peerTestID :: string
  b_ContainerID :: string
  b_draining :: bool
  b_transport :: "nat option"

type_synonym bheap = "baddr \<Rightarrow> Backend"

record abConfig =
  ab_ID :: string
  ab_Assign :: string
  ab_Header :: string
  ab_Split :: int
  ab_Groups :: "(string \<times> string) list"
  ab_UIDCookie :: string
  ab_GroupCookie :: string
  ab_Anon :: bool
  ab_SessionIdle :: duration
  ab_PinRefresh :: duration
  ab_MaxSession :: duration
  ab_Started :: int
  ab_Epoch :: int
  ab_Phase :: string
  ab_PhaseAt :: int
  ab_AbortReason :: string
  ab_Exclude :: "string list"
  ab_Static :: "string list"
  ab_CookieJS :: bool
  ab_Override :: bool
  ab_AutoAbort :: bool
  ab_MinSamples :: int
  ab_MinRuntime :: duration
  ab_Warmup :: duration
  ab_Window :: duration
  ab_Windows :: int
  ab_WindowMinSamples :: int
  ab_ErrDelta :: rat
  ab_ErrRatio :: rat
  ab_P95Ratio :: rat
  ab_P95Slack :: duration

text \<open>
  \<^verbatim>\<open>limiter\<close>, \<^verbatim>\<open>cache\<close> and \<^verbatim>\<open>ab\<close> are pointers to objects that outlive a refresh: addresses
  into the router's limiters and caches, and the service name of an A/B run.
\<close>

record RouteGroup =
  g_Host :: string
  g_PathPrefix :: string
  g_StripPrefix :: bool
  g_Name :: string
  g_Service :: string
  g_Backends :: "baddr list"
  g_DropHeaders :: "string list"
  g_Sticky :: bool
  g_CacheTTL :: duration
  g_CachePaths :: "string list"
  g_cache :: "nat option"
  g_AuthRequired :: bool
  g_AuthUsers :: "string list"
  g_AuthMode :: string
  g_RateLimit :: bool
  g_RateRPM :: int
  g_limiter :: "nat option"
  g_Spread :: bool
  g_SpreadLocal :: bool
  g_cursor :: "64 word"
  g_panicLogAt :: instant
  g_static :: bool
  g_abCfg :: "abConfig option"
  g_ab :: "string option"
  g_abLocal :: "abConfig option"

subsection \<open>Health state\<close>

definition unhealthyAfterConsecutiveFails :: int where
  "unhealthyAfterConsecutiveFails = 2"

definition markHealthy :: "Backend \<Rightarrow> bool \<Rightarrow> Backend" where
  "markHealthy b ok = b\<lparr>b_healthyFlag := ok\<rparr>"

definition recordHealthCheck :: "Backend \<Rightarrow> bool \<Rightarrow> Backend" where
  "recordHealthCheck b ok =
     (if ok then markHealthy (b\<lparr>b_consecFails := 0\<rparr>) True
      else let b1 = b\<lparr>b_consecFails := b_consecFails b + 1\<rparr>
           in if unhealthyAfterConsecutiveFails \<le> sint (b_consecFails b1)
              then markHealthy b1 False else b1)"

definition healthy :: "Backend \<Rightarrow> bool" where
  "healthy b \<longleftrightarrow> \<not> b_DockerUnhealthy b \<and> \<not> b_draining b \<and> b_healthyFlag b"

definition excludedFrom :: "Backend \<Rightarrow> bool \<Rightarrow> bool" where
  "excludedFrom b ignoreHealth \<longleftrightarrow>
     (if b_DockerUnhealthy b \<or> b_draining b then True
      else \<not> ignoreHealth \<and> \<not> b_healthyFlag b)"

subsection \<open>Health probes (\<^verbatim>\<open>cmd/proxy/health.go\<close>)\<close>

text \<open>
  The network's answers: the status of an HTTP probe of a URL (\<open>None\<close> for an error or a
  timeout), and whether a TCP dial of a URL's host succeeds.
\<close>

record probe_env =
  pe_http :: "string \<Rightarrow> int option"
  pe_dial :: "string \<Rightarrow> bool"

definition checkBackend :: "probe_env \<Rightarrow> Backend \<Rightarrow> Backend" where
  "checkBackend pe b =
     (if b_HealthPath b \<noteq> []
      then case pe_http pe (b_URL b @ b_HealthPath b) of
             None \<Rightarrow> recordHealthCheck b False
           | Some st \<Rightarrow> recordHealthCheck b (st div 100 = 2)
      else recordHealthCheck b (pe_dial pe (b_URL b)))"

text \<open>
  One tick: every backend of every group is checked, except those that drain. The goroutines
  of a tick touch disjoint backends unless two groups share one, whose checks are ordered by
  its atomic counter.
\<close>

fun checkAll :: "probe_env \<Rightarrow> bheap \<Rightarrow> baddr list \<Rightarrow> bheap" where
  "checkAll pe h [] = h"
| "checkAll pe h (a # as) =
     checkAll pe (if b_draining (h a) then h else h(a := checkBackend pe (h a))) as"

definition dispatchHealthChecks :: "probe_env \<Rightarrow> bheap \<Rightarrow> RouteGroup list \<Rightarrow> bheap" where
  "dispatchHealthChecks pe h gs = checkAll pe h (concat (map g_Backends gs))"

subsection \<open>Variants\<close>

definition abVariantA :: string where "abVariantA = ''A''"
definition abVariantB :: string where "abVariantB = ''B''"

definition variantName :: "Backend \<Rightarrow> string" where
  "variantName b = (if b_Variant b = abVariantB then abVariantB else abVariantA)"

definition inVariant :: "Backend \<Rightarrow> string \<Rightarrow> bool" where
  "inVariant b v \<longleftrightarrow> v = [] \<or> variantName b = v"

definition abIdx :: "string \<Rightarrow> nat" where
  "abIdx v = (if v = abVariantB then 1 else 0)"

definition abOther :: "string \<Rightarrow> string" where
  "abOther v = (if v = abVariantB then abVariantA else abVariantB)"

definition hasVariant :: "bheap \<Rightarrow> RouteGroup \<Rightarrow> string \<Rightarrow> bool" where
  "hasVariant h g v \<longleftrightarrow>
     list_ex (\<lambda>a. inVariant (h a) v \<and> \<not> b_DockerUnhealthy (h a) \<and> \<not> b_draining (h a)) (g_Backends g)"

definition hasBBackend :: "bheap \<Rightarrow> RouteGroup \<Rightarrow> bool" where
  "hasBBackend h g \<longleftrightarrow> list_ex (\<lambda>a. b_Variant (h a) = abVariantB) (g_Backends g)"

subsection \<open>Weighted round robin\<close>

text \<open>
  The index \<^verbatim>\<open>int(cursor.Add(1)-1) % len(pool)\<close>: the unsigned counter is reinterpreted as a
  signed one, so past \<open>2 ^ 63\<close> picks the index can be negative, and then indexing panics.
\<close>

definition pick_index :: "64 word \<Rightarrow> nat \<Rightarrow> nat option" where
  "pick_index c n =
     (let i = go_rem (sint ((c + 1) - 1)) (int n) in if i < 0 then None else Some (nat i))"

definition rr_pick :: "RouteGroup \<Rightarrow> baddr list \<Rightarrow> RouteGroup \<times> baddr option go" where
  "rr_pick g pool =
     (if pool = [] then (g, Returned None)
      else (g\<lparr>g_cursor := g_cursor g + 1\<rparr>,
            case pick_index (g_cursor g) (length pool) of
              None \<Rightarrow> Panicked
            | Some i \<Rightarrow> Returned (Some (pool ! i))))"

definition copies :: "Backend \<Rightarrow> nat" where
  "copies b = nat (if b_Weight b < 1 then 1 else b_Weight b)"

fun weighted :: "bheap \<Rightarrow> (baddr \<Rightarrow> bool) \<Rightarrow> baddr list \<Rightarrow> baddr list" where
  "weighted h P [] = []"
| "weighted h P (a # as) =
     (if P a then replicate (copies (h a)) a else []) @ weighted h P as"

definition poolOK :: "bheap \<Rightarrow> baddr list \<Rightarrow> bool \<Rightarrow> string \<Rightarrow> baddr \<Rightarrow> bool" where
  "poolOK h skip ignoreHealth variant a \<longleftrightarrow>
     \<not> (a \<in> set skip \<or> \<not> inVariant (h a) variant \<or> excludedFrom (h a) ignoreHealth)"

definition pickPool :: "bheap \<Rightarrow> RouteGroup \<Rightarrow> baddr list \<Rightarrow> bool \<Rightarrow> string \<Rightarrow>
    RouteGroup \<times> baddr option go" where
  "pickPool h g skip ignoreHealth variant =
     rr_pick g (weighted h (poolOK h skip ignoreHealth variant) (g_Backends g))"

definition tierOK :: "bheap \<Rightarrow> baddr list \<Rightarrow> bool \<Rightarrow> bool \<Rightarrow> string \<Rightarrow> baddr \<Rightarrow> bool" where
  "tierOK h skip wantLearned ignoreHealth variant a \<longleftrightarrow>
     \<not> (a \<in> set skip \<or> b_Learned (h a) \<noteq> wantLearned \<or> \<not> inVariant (h a) variant \<or>
        excludedFrom (h a) ignoreHealth)"

definition pickTier :: "bheap \<Rightarrow> RouteGroup \<Rightarrow> baddr list \<Rightarrow> bool \<Rightarrow> bool \<Rightarrow> string \<Rightarrow>
    RouteGroup \<times> baddr option go" where
  "pickTier h g skip wantLearned ignoreHealth variant =
     rr_pick g (weighted h (tierOK h skip wantLearned ignoreHealth variant) (g_Backends g))"

definition pickHealthy :: "bheap \<Rightarrow> RouteGroup \<Rightarrow> baddr list \<Rightarrow> bool \<Rightarrow> string \<Rightarrow>
    RouteGroup \<times> baddr option go" where
  "pickHealthy h g skip allowPeer variant =
     (if g_Spread g \<and> allowPeer then pickPool h g skip False variant
      else case pickTier h g skip False False variant of
        (g1, Returned None) \<Rightarrow>
          if allowPeer then pickTier h g1 skip True False variant else (g1, Returned None)
      | r \<Rightarrow> r)"

definition pickAny :: "bheap \<Rightarrow> RouteGroup \<Rightarrow> baddr list \<Rightarrow> bool \<Rightarrow> string \<Rightarrow>
    RouteGroup \<times> baddr option go" where
  "pickAny h g skip allowPeer variant =
     (if g_Spread g \<and> allowPeer then pickPool h g skip True variant
      else case pickTier h g skip False True variant of
        (g1, Returned None) \<Rightarrow>
          if allowPeer then pickTier h g1 skip True True variant else (g1, Returned None)
      | r \<Rightarrow> r)"

subsection \<open>Session affinity\<close>

definition stickyCookiePrefix :: string where "stickyCookiePrefix = ''_pmgr_sticky_''"
definition stickyCookieMaxAge :: duration where "stickyCookieMaxAge = 2 * hour"

fun hex_digit :: "nat \<Rightarrow> char" where
  "hex_digit n = (if n < 10 then char_of (48 + n) else char_of (87 + n))"

definition hex_encode :: "string \<Rightarrow> string" where
  "hex_encode s = concat (map (\<lambda>c. [hex_digit (of_char c div 16), hex_digit (of_char c mod 16)]) s)"

text \<open>\<open>sha256\<close> is \<^verbatim>\<open>crypto/sha256\<close>, of which only that it is a function matters.\<close>

definition stickyCookieName :: "(string \<Rightarrow> string) \<Rightarrow> RouteGroup \<Rightarrow> string" where
  "stickyCookieName sha256 g =
     stickyCookiePrefix @ hex_encode (take 4 (sha256 (g_Host g @ ''|'' @ g_PathPrefix g)))"

definition stickyCookiePath :: "RouteGroup \<Rightarrow> string" where
  "stickyCookiePath g = (if g_PathPrefix g \<noteq> [] then g_PathPrefix g else ''/'')"

definition backendStickyID :: "(string \<Rightarrow> string) \<Rightarrow> string \<Rightarrow> string" where
  "backendStickyID sha256 rawURL = hex_encode (take 8 (sha256 rawURL))"

definition backendByStickyID :: "bheap \<Rightarrow> RouteGroup \<Rightarrow> string \<Rightarrow> baddr option" where
  "backendByStickyID h g i = find (\<lambda>a. b_stickyID (h a) = i) (g_Backends g)"

text \<open>
  The \<^verbatim>\<open>Set-Cookie\<close> values queued on the response: this cookie's earlier value is dropped and
  the new one appended, as \<^verbatim>\<open>http.SetCookie\<close> renders it.
\<close>

definition setStickyCookie ::
    "(string \<Rightarrow> string) \<Rightarrow> string list \<Rightarrow> RouteGroup \<Rightarrow> string \<Rightarrow> string list" where
  "setStickyCookie sha256 existing g stickyID =
     (let name = stickyCookieName sha256 g
      in filter (\<lambda>v. \<not> has_prefix v (name @ ''='')) existing @
         [name @ ''='' @ stickyID @ ''; Path='' @ stickyCookiePath g @ ''; Max-Age='' @
          itoa (stickyCookieMaxAge div second) @ ''; HttpOnly; Secure; SameSite=Lax''])"

subsection \<open>Throttled panic-mode log\<close>

definition panicLogInterval :: duration where "panicLogInterval = 30 * second"

definition logPanicOnce :: "RouteGroup \<Rightarrow> instant \<Rightarrow> RouteGroup \<times> bool" where
  "logPanicOnce g now =
     (if now - g_panicLogAt g < panicLogInterval then (g, False)
      else (g\<lparr>g_panicLogAt := now\<rparr>, True))"

subsection \<open>Lemmas on the weighted pool and the cursor\<close>

lemma copies_pos [simp]: "0 < copies b" "copies b \<noteq> 0"
  by (simp_all add: copies_def)

lemma set_weighted [simp]: "set (weighted h P as) = {a \<in> set as. P a}"
  by (induction as) (auto simp: set_replicate_conv_if)

lemma weighted_Nil_iff: "weighted h P as = [] \<longleftrightarrow> (\<forall>a\<in>set as. \<not> P a)"
proof -
  have "weighted h P as = [] \<longleftrightarrow> set (weighted h P as) = {}" by (simp del: set_weighted)
  then show ?thesis by auto
qed

lemma count_list_replicate: "count_list (replicate n x) a = (if x = a then n else 0)"
  by (induction n) auto

lemma count_weighted:
  "distinct as \<Longrightarrow> count_list (weighted h P as) a = (if a \<in> set as \<and> P a then copies (h a) else 0)"
  by (induction as) (auto simp: count_list_append count_list_replicate)

lemma pick_index_small:
  assumes "unat c < 2 ^ 63" and "0 < n"
  shows "pick_index c n = Some (unat c mod n)"
proof -
  have u: "uint c = int (unat c)" by (rule uint_nat)
  have "int (unat c) < int (2 ^ 63)" using assms(1) by (simp only: of_nat_less_iff)
  then have "uint c < 2 ^ 63" by simp
  moreover have "- (2 ^ 63) \<le> uint c" by (rule order_trans [OF _ uint_ge_0]) simp
  ultimately have "sint c = uint c"
    unfolding sint_uint by (intro signed_take_bit_int_eq_self) simp_all
  then have "sint c = int (unat c)" using u by (rule trans)
  moreover have "go_rem (int m) (int n) = int (m mod n)" for m
    by (cases "m = 0") (simp_all add: go_rem_def zmod_int)
  ultimately have "go_rem (sint c) (int n) = int (unat c mod n)" by (simp only:)
  then show ?thesis by (simp only: pick_index_def Let_def add_diff_cancel_right') simp
qed

lemma rr_pick_small:
  assumes "unat (g_cursor g) < 2 ^ 63" and "pool \<noteq> []"
  shows "rr_pick g pool =
    (g\<lparr>g_cursor := g_cursor g + 1\<rparr>, Returned (Some (pool ! (unat (g_cursor g) mod length pool))))"
  using assms by (simp add: rr_pick_def pick_index_small)

lemma rr_pick_Some: "rr_pick g pool = (g', Returned (Some a)) \<Longrightarrow> a \<in> set pool"
proof -
  assume r: "rr_pick g pool = (g', Returned (Some a))"
  then have ne: "pool \<noteq> []" by (auto simp: rr_pick_def)
  with r obtain i where i: "pick_index (g_cursor g) (length pool) = Some i" and a: "a = pool ! i"
    by (auto simp: rr_pick_def split: option.splits)
  have "i < length pool"
  proof -
    have "\<bar>go_rem m (int (length pool))\<bar> < int (length pool)" for m
      using ne by (cases m rule: linorder_cases [of _ 0]) (auto simp: go_rem_def abs_mult sgn_if)
    then have "go_rem m (int (length pool)) < int (length pool)" for m
      by (meson abs_ge_self order_le_less_trans)
    then show ?thesis using i ne
      by (auto simp: pick_index_def Let_def nat_less_iff split: if_splits)
  qed
  with a show "a \<in> set pool" by simp
qed

lemma rr_pick_None: "rr_pick g pool = (g', Returned None) \<longleftrightarrow> pool = [] \<and> g' = g"
  by (auto simp: rr_pick_def split: option.splits)

lemmas pick_defs = pickHealthy_def pickAny_def pickPool_def pickTier_def

lemma healthy_not_excluded: "healthy b \<longleftrightarrow> \<not> excludedFrom b False"
  by (auto simp: healthy_def excludedFrom_def)

text \<open>
  The backends a request may use: not yet tried, of the wanted variant, not excluded, and
  learned from a peer only if peers are allowed.
\<close>

definition pickable :: "bheap \<Rightarrow> RouteGroup \<Rightarrow> baddr list \<Rightarrow> bool \<Rightarrow> bool \<Rightarrow> string \<Rightarrow> baddr \<Rightarrow> bool" where
  "pickable h g skip ignoreHealth allowPeer variant a \<longleftrightarrow>
     a \<in> set (g_Backends g) \<and> a \<notin> set skip \<and> inVariant (h a) variant \<and>
     \<not> excludedFrom (h a) ignoreHealth \<and> (b_Learned (h a) \<longrightarrow> allowPeer)"

text \<open>Both picks are one function of the health switch.\<close>

definition pickWith :: "bool \<Rightarrow> bheap \<Rightarrow> RouteGroup \<Rightarrow> baddr list \<Rightarrow> bool \<Rightarrow> string \<Rightarrow>
    RouteGroup \<times> baddr option go" where
  "pickWith ig h g skip allowPeer variant =
     (if ig then pickAny h g skip allowPeer variant else pickHealthy h g skip allowPeer variant)"

lemma pickWith_unfold:
  "pickWith ig h g skip allowPeer variant =
     (if g_Spread g \<and> allowPeer then pickPool h g skip ig variant
      else case pickTier h g skip False ig variant of
        (g1, Returned None) \<Rightarrow>
          if allowPeer then pickTier h g1 skip True ig variant else (g1, Returned None)
      | r \<Rightarrow> r)"
  by (induction ig rule: bool.induct) (simp_all add: pickWith_def pickHealthy_def pickAny_def)

lemma pickWith_cases:
  assumes "pickWith ig h g skip ap v = r"
  obtains (pool) "g_Spread g" "ap" "r = rr_pick g (weighted h (poolOK h skip ig v) (g_Backends g))"
  | (local) "\<not> (g_Spread g \<and> ap)" "\<exists>a\<in>set (g_Backends g). tierOK h skip False ig v a"
      "r = rr_pick g (weighted h (tierOK h skip False ig v) (g_Backends g))"
  | (peer) "\<not> g_Spread g" "ap" "\<forall>a\<in>set (g_Backends g). \<not> tierOK h skip False ig v a"
      "r = rr_pick g (weighted h (tierOK h skip True ig v) (g_Backends g))"
  | (none) "\<not> ap" "\<forall>a\<in>set (g_Backends g). \<not> tierOK h skip False ig v a" "r = (g, Returned None)"
proof (cases "g_Spread g \<and> ap")
  case True
  with assms pool show ?thesis by (simp add: pickWith_unfold pickPool_def)
next
  case False
  show ?thesis
  proof (cases "\<exists>a\<in>set (g_Backends g). tierOK h skip False ig v a")
    case True
    then have "weighted h (tierOK h skip False ig v) (g_Backends g) \<noteq> []"
      by (simp add: weighted_Nil_iff)
    then have "r = rr_pick g (weighted h (tierOK h skip False ig v) (g_Backends g))"
      using assms \<open>\<not> (g_Spread g \<and> ap)\<close>
      by (auto simp: pickWith_unfold pickTier_def rr_pick_def split: option.splits)
    with False True local show ?thesis by blast
  next
    case none': False
    then have "weighted h (tierOK h skip False ig v) (g_Backends g) = []"
      by (simp add: weighted_Nil_iff)
    with assms False none' peer none show ?thesis
      by (cases ap) (auto simp: pickWith_unfold pickTier_def rr_pick_def [of g "[]"])
  qed
qed

lemma pickWith_sound:
  assumes "pickWith ig h g skip ap v = (g', Returned (Some a))"
  shows "pickable h g skip ig ap v a"
    and "b_Learned (h a) \<Longrightarrow> \<not> g_Spread g \<Longrightarrow>
      pickable h g skip ig ap v a' \<Longrightarrow> b_Learned (h a')"
proof -
  from assms have "pickable h g skip ig ap v a \<and> (b_Learned (h a) \<longrightarrow> \<not> g_Spread g \<longrightarrow>
      pickable h g skip ig ap v a' \<longrightarrow> b_Learned (h a'))"
    by (rule pickWith_cases)
      (auto dest!: rr_pick_Some [OF sym] simp: pickable_def poolOK_def tierOK_def)
  then show "pickable h g skip ig ap v a"
    and "b_Learned (h a) \<Longrightarrow> \<not> g_Spread g \<Longrightarrow>
      pickable h g skip ig ap v a' \<Longrightarrow> b_Learned (h a')" by blast+
qed

lemma pickWith_None:
  assumes "pickWith ig h g skip ap v = (g', Returned None)"
  shows "\<not> pickable h g skip ig ap v a \<and> g' = g"
  using assms
  by (rule pickWith_cases)
    (fastforce dest!: sym [of _ "rr_pick _ _"] simp: rr_pick_None weighted_Nil_iff pickable_def poolOK_def tierOK_def)+

lemma pickWith_no_panic:
  assumes "unat (g_cursor g) < 2 ^ 63"
  shows "snd (pickWith ig h g skip ap v) \<noteq> Panicked"
proof -
  have "snd (rr_pick g pool) \<noteq> Panicked" for pool
    using assms by (cases "pool = []") (simp_all add: rr_pick_small rr_pick_def [of g "[]"])
  then show ?thesis
    by (metis pickWith_cases go.distinct(1) snd_conv)
qed

subsection \<open>Properties of the choice\<close>

text \<open>
  What may be chosen. A backend that \<^verbatim>\<open>pickHealthy\<close> returns belongs to the group, was not
  tried before, has the wanted variant and is healthy: the probe trusts it, Docker does not call
  it unhealthy, it does not drain. A request that a peer already forwarded never goes to another
  peer, and without \<^verbatim>\<open>Spread\<close> a peer is used only if no local backend is eligible. The panic
  mode of \<^verbatim>\<open>pickAny\<close> drops nothing but the probe's verdict.
\<close>

theorem pick_sound:
  "(pickHealthy h g skip allowPeer variant = (g', Returned (Some a)) \<longrightarrow>
      a \<in> set (g_Backends g) \<and> a \<notin> set skip \<and> inVariant (h a) variant \<and> healthy (h a) \<and>
      (b_Learned (h a) \<longrightarrow> allowPeer \<and> (g_Spread g \<or>
         (\<forall>c\<in>set (g_Backends g). c \<notin> set skip \<longrightarrow> inVariant (h c) variant \<longrightarrow> healthy (h c) \<longrightarrow> b_Learned (h c))))) \<and>
   (pickAny h g skip allowPeer variant = (g', Returned (Some a)) \<longrightarrow>
      a \<in> set (g_Backends g) \<and> a \<notin> set skip \<and> inVariant (h a) variant \<and>
      \<not> b_DockerUnhealthy (h a) \<and> \<not> b_draining (h a) \<and> (b_Learned (h a) \<longrightarrow> allowPeer))"
proof (intro conjI impI)
  assume "pickHealthy h g skip allowPeer variant = (g', Returned (Some a))"
  then have p: "pickWith False h g skip allowPeer variant = (g', Returned (Some a))"
    by (simp add: pickWith_def)
  note s = pickWith_sound(1) [OF p, unfolded pickable_def healthy_not_excluded [symmetric]]
  from s show "a \<in> set (g_Backends g)" "a \<notin> set skip" "inVariant (h a) variant" "healthy (h a)"
    by simp_all
  assume l: "b_Learned (h a)"
  with s show ap: "allowPeer" by simp
  from pickWith_sound(2) [OF p l, unfolded pickable_def healthy_not_excluded [symmetric]] ap
  show "g_Spread g \<or> (\<forall>c\<in>set (g_Backends g). c \<notin> set skip \<longrightarrow> inVariant (h c) variant \<longrightarrow>
      healthy (h c) \<longrightarrow> b_Learned (h c))" by blast
next
  assume "pickAny h g skip allowPeer variant = (g', Returned (Some a))"
  then have "pickWith True h g skip allowPeer variant = (g', Returned (Some a))"
    by (simp add: pickWith_def)
  from pickWith_sound(1) [OF this]
  show "a \<in> set (g_Backends g)" "a \<notin> set skip" "inVariant (h a) variant"
    "\<not> b_DockerUnhealthy (h a)" "\<not> b_draining (h a)" "b_Learned (h a) \<Longrightarrow> allowPeer"
    by (auto simp: pickable_def excludedFrom_def split: if_splits)
qed

text \<open>A group with one local backend and one learned from a peer, for the witnesses.\<close>

definition ex_backend :: "string \<Rightarrow> int \<Rightarrow> bool \<Rightarrow> Backend" where
  "ex_backend u w learned =
     \<lparr>b_URL = u, b_Weight = w, b_Container = u, b_HealthPath = [], b_proxy = Some (LocalDirector u),
      b_proxyTransport = None, b_healthyFlag = True, b_stickyID = u, b_consecFails = 0,
      b_DockerUnhealthy = False, b_Learned = learned, b_PeerID = [], b_Variant = [],
      b_peerTestID = [], b_ContainerID = u, b_draining = False, b_transport = None\<rparr>"

definition ex_heap :: bheap where
  "ex_heap a = (if a = 2 then ex_backend ''peer'' 1 True
                else if a = 1 then ex_backend ''b1'' 2 False else ex_backend ''b0'' 1 False)"

definition ex_group :: RouteGroup where
  "ex_group =
     \<lparr>g_Host = ''a.example'', g_PathPrefix = [], g_StripPrefix = False, g_Name = [], g_Service = [],
      g_Backends = [0, 1, 2], g_DropHeaders = [], g_Sticky = False, g_CacheTTL = 0,
      g_CachePaths = [], g_cache = None, g_AuthRequired = False, g_AuthUsers = [], g_AuthMode = [],
      g_RateLimit = False, g_RateRPM = 0, g_limiter = None, g_Spread = False,
      g_SpreadLocal = False, g_cursor = 0, g_panicLogAt = 0, g_static = False, g_abCfg = None,
      g_ab = None, g_abLocal = None\<rparr>"

lemmas ex_defs = ex_heap_def ex_group_def ex_backend_def

lemmas pick_eval = pick_defs rr_pick_def pick_index_def go_rem_def tierOK_def poolOK_def
  inVariant_def excludedFrom_def copies_def

theorem pick_sound_witness:
  "pickHealthy ex_heap ex_group [] True [] = (ex_group\<lparr>g_cursor := 1\<rparr>, Returned (Some 0)) \<and>
   healthy (ex_heap 0)"
proof
  show p: "pickHealthy ex_heap ex_group [] True [] = (ex_group\<lparr>g_cursor := 1\<rparr>, Returned (Some 0))"
    by (simp add: pick_eval ex_defs numeral_2_eq_2)
  show "healthy (ex_heap 0)"
    using pick_sound [of ex_heap ex_group "[]" True "[]" "ex_group\<lparr>g_cursor := 1\<rparr>" 0] p by simp
qed

text \<open>
  A pick never gives up too early. While the cursor has not passed \<open>2 ^ 63\<close>, picking does
  not panic, and it returns nothing exactly if no backend is eligible; the cursor moves only if a
  backend is returned.
\<close>

theorem pick_complete:
  assumes "unat (g_cursor g) < 2 ^ 63"
  shows "snd (pickWith ig h g skip allowPeer variant) \<noteq> Panicked \<and>
    (snd (pickWith ig h g skip allowPeer variant) = Returned None \<longleftrightarrow>
       (\<forall>a. \<not> pickable h g skip ig allowPeer variant a)) \<and>
    (snd (pickWith ig h g skip allowPeer variant) = Returned None \<longrightarrow>
       fst (pickWith ig h g skip allowPeer variant) = g)"
proof -
  obtain g' r where p: "pickWith ig h g skip allowPeer variant = (g', r)" by (rule prod.exhaust)
  have "r \<noteq> Panicked" using pickWith_no_panic [OF assms, of ig h skip allowPeer variant] p by simp
  moreover have "r = Returned (Some a) \<Longrightarrow> pickable h g skip ig allowPeer variant a" for a
    using pickWith_sound(1) p by blast
  moreover have "r = Returned None \<Longrightarrow> \<not> pickable h g skip ig allowPeer variant a \<and> g' = g" for a
    using pickWith_None p by blast
  ultimately show ?thesis using p by (cases r) (auto, metis option.exhaust)
qed

theorem pick_complete_witness:
  "unat (g_cursor ex_group) < 2 ^ 63 \<and> snd (pickWith True ex_heap ex_group [0, 1, 2] True []) = Returned None"
  using pick_complete [of ex_group True ex_heap "[0, 1, 2]" True "[]"]
  by (auto simp: pickable_def ex_defs)

subsection \<open>Fairness of the weighted round robin\<close>

text \<open>\<open>n\<close> requests in a row, each served by its first pick.\<close>

fun pick_run :: "bheap \<Rightarrow> RouteGroup \<Rightarrow> bool \<Rightarrow> nat \<Rightarrow> baddr list option" where
  "pick_run h g allowPeer 0 = Some []"
| "pick_run h g allowPeer (Suc n) =
     (case pickHealthy h g [] allowPeer [] of
        (g', Returned (Some a)) \<Rightarrow> map_option ((#) a) (pick_run h g' allowPeer n)
      | _ \<Rightarrow> None)"

text \<open>The backends among which the requests are balanced: the whole pool, or the local tier.\<close>

definition balanced :: "bheap \<Rightarrow> RouteGroup \<Rightarrow> bool \<Rightarrow> baddr \<Rightarrow> bool" where
  "balanced h g allowPeer a \<longleftrightarrow>
     a \<in> set (g_Backends g) \<and> healthy (h a) \<and> (b_Learned (h a) \<longrightarrow> g_Spread g \<and> allowPeer)"

lemma pickHealthy_balanced:
  assumes "balanced h g ap a"
  shows "pickHealthy h g [] ap [] = rr_pick g (weighted h (balanced h g ap) (g_Backends g))"
proof -
  have cong: "weighted h P as = weighted h Q as" if "\<And>a. a \<in> set as \<Longrightarrow> P a = Q a" for P Q as
    using that by (induction as) auto
  have "pickWith False h g [] ap [] = rr_pick g (weighted h (balanced h g ap) (g_Backends g))"
  proof (rule pickWith_cases [OF refl])
    assume "g_Spread g" "ap"
      "pickWith False h g [] ap [] = rr_pick g (weighted h (poolOK h [] False []) (g_Backends g))"
    moreover from this(1,2) have "weighted h (poolOK h [] False []) (g_Backends g)
        = weighted h (balanced h g ap) (g_Backends g)"
      by (intro cong) (auto simp: balanced_def poolOK_def inVariant_def healthy_not_excluded)
    ultimately show ?thesis by simp
  next
    assume "\<not> (g_Spread g \<and> ap)"
      "pickWith False h g [] ap [] = rr_pick g (weighted h (tierOK h [] False False []) (g_Backends g))"
    moreover from this(1) have "weighted h (tierOK h [] False False []) (g_Backends g)
        = weighted h (balanced h g ap) (g_Backends g)"
      by (intro cong) (auto simp: balanced_def tierOK_def inVariant_def healthy_not_excluded)
    ultimately show ?thesis by simp
  qed (use assms in \<open>auto simp: balanced_def tierOK_def inVariant_def healthy_not_excluded\<close>)
  then show ?thesis by (simp add: pickWith_def)
qed

lemma balanced_cursor [simp]: "balanced h (g\<lparr>g_cursor := c\<rparr>) ap = balanced h g ap"
  by (simp add: balanced_def fun_eq_iff)

lemma pick_run_eq:
  assumes "balanced h g ap a0" and "unat (g_cursor g) + n \<le> 2 ^ 63"
  shows "pick_run h g ap n = Some (map (\<lambda>i. let p = weighted h (balanced h g ap) (g_Backends g)
      in p ! ((unat (g_cursor g) + i) mod length p)) [0..<n])"
  using assms
proof (induction n arbitrary: g)
  case (Suc n)
  let ?p = "weighted h (balanced h g ap) (g_Backends g)" and ?g = "g\<lparr>g_cursor := g_cursor g + 1\<rparr>"
  have ne: "?p \<noteq> []" using Suc.prems(1) by (auto simp: weighted_Nil_iff balanced_def)
  have u: "unat (g_cursor g + 1) = Suc (unat (g_cursor g))"
    using Suc.prems(2) by (simp add: unat_word_ariths)
  have "pickHealthy h g [] ap [] = (?g, Returned (Some (?p ! (unat (g_cursor g) mod length ?p))))"
    using Suc.prems(2) ne by (simp add: pickHealthy_balanced [OF Suc.prems(1)] rr_pick_small)
  moreover have "pick_run h ?g ap n = Some (map (\<lambda>i. ?p ! ((unat (g_cursor g) + Suc i) mod length ?p)) [0..<n])"
    using Suc.IH [of ?g] Suc.prems u by (simp add: Let_def)
  moreover have "[0..<Suc n] = 0 # map Suc [0..<n]"
    by (simp add: map_Suc_upt upt_conv_Cons)
  ultimately show ?case by (simp add: Let_def o_def del: upt_Suc)
qed simp

lemma count_list_rotate: "count_list (rotate n xs) a = count_list xs a"
proof -
  have "count_list (drop k xs @ take k xs) a = count_list (take k xs @ drop k xs) a" for k
    by (simp only: count_list_append add.commute)
  then show ?thesis by (simp add: rotate_drop_take)
qed

text \<open>
  (C31) Weighted round robin is fair. From any cursor that does not overflow, if every request is
  served by its first pick, then over one round of as many requests as the eligible backends have
  weight, each eligible backend is chosen exactly as often as its weight says (at least once),
  and no other backend is chosen.
\<close>

theorem round_robin_fair:
  assumes "balanced h g allowPeer a0" and "distinct (g_Backends g)"
    and "n = length (weighted h (balanced h g allowPeer) (g_Backends g))"
    and "unat (g_cursor g) + n \<le> 2 ^ 63"
  shows "\<exists>as. pick_run h g allowPeer n = Some as \<and>
    (\<forall>a. count_list as a = (if balanced h g allowPeer a then copies (h a) else 0))"
proof -
  let ?p = "weighted h (balanced h g allowPeer) (g_Backends g)"
  have "map (\<lambda>i. ?p ! ((unat (g_cursor g) + i) mod length ?p)) [0..<n] = rotate (unat (g_cursor g)) ?p"
    using assms(3) by (intro nth_equalityI) (simp_all add: nth_rotate)
  then have "pick_run h g allowPeer n = Some (rotate (unat (g_cursor g)) ?p)"
    using pick_run_eq [OF assms(1,4)] by (simp add: Let_def)
  moreover have "count_list ?p a = (if balanced h g allowPeer a then copies (h a) else 0)" for a
    using count_weighted [OF assms(2)] by (auto simp: balanced_def)
  ultimately show ?thesis by (auto simp: count_list_rotate)
qed

theorem round_robin_fair_witness:
  "\<exists>as. pick_run ex_heap (ex_group\<lparr>g_cursor := 7\<rparr>) True 3 = Some as \<and>
     (\<forall>a. count_list as a = (if balanced ex_heap ex_group True a then copies (ex_heap a) else 0))"
proof -
  let ?g = "ex_group\<lparr>g_cursor := 7\<rparr>"
  have b: "balanced ex_heap ?g True 0"
    by (simp add: balanced_def healthy_def ex_defs)
  have n: "3 = length (weighted ex_heap (balanced ex_heap ?g True) (g_Backends ?g))"
    by (simp add: balanced_def healthy_def ex_defs copies_def)
  have "distinct (g_Backends ?g)" "unat (g_cursor ?g) + 3 \<le> 2 ^ 63"
    by (simp_all add: ex_group_def)
  from round_robin_fair [OF b this(1) n this(2)] show ?thesis by simp
qed

text \<open>Past \<open>2 ^ 63\<close> picks the reinterpreted counter is negative and the index panics.\<close>

lemma pick_overflow_panics:
  "snd (pickHealthy ex_heap (ex_group\<lparr>g_cursor := 2 ^ 63\<rparr>) [] True []) = Panicked"
  by (simp add: pick_eval ex_defs numeral_2_eq_2)

subsection \<open>Properties of the health state\<close>

definition trailing_failures :: "bool list \<Rightarrow> nat" where
  "trailing_failures rs = length (takeWhile Not (rev rs))"

lemma recordHealthCheck_run:
  assumes "b_healthyFlag b" and "b_consecFails b = 0"
  shows "let b' = foldl recordHealthCheck b rs in
     (trailing_failures rs = 0 \<longrightarrow> b_healthyFlag b' \<and> b_consecFails b' = 0) \<and>
     (trailing_failures rs = 1 \<longrightarrow> b_healthyFlag b' \<and> b_consecFails b' = 1) \<and>
     (2 \<le> trailing_failures rs \<longrightarrow> \<not> b_healthyFlag b')"
proof (induction rs rule: rev_induct)
  case Nil
  with assms show ?case by (simp add: trailing_failures_def)
next
  case (snoc r rs)
  let ?n = "trailing_failures rs"
  consider "r" | "\<not> r" "?n = 0" | "\<not> r" "?n = 1" | "\<not> r" "2 \<le> ?n" by linarith
  then show ?case
    using snoc
    by cases (auto simp: Let_def recordHealthCheck_def markHealthy_def trailing_failures_def
        unhealthyAfterConsecutiveFails_def)
qed

text \<open>
  Hysteresis of the probes. A backend that starts healthy is marked down by its periodic
  probes exactly if the last two of them failed; one success brings it back at once, however long
  the streak was (also past the wrap-around of the 32-bit counter).
\<close>

theorem hysteresis:
  assumes "b_healthyFlag b" and "b_consecFails b = 0"
  shows "b_healthyFlag (foldl recordHealthCheck b rs) \<longleftrightarrow> trailing_failures rs < 2"
  using recordHealthCheck_run [OF assms, of rs] by (simp add: Let_def) linarith

theorem hysteresis_witness:
  "\<not> b_healthyFlag (foldl recordHealthCheck (ex_backend ''u'' 1 False) [True, False, False]) \<and>
   b_healthyFlag (foldl recordHealthCheck (ex_backend ''u'' 1 False) [False, False, True, False])"
  using hysteresis [of "ex_backend ''u'' 1 False" "[True, False, False]"]
    hysteresis [of "ex_backend ''u'' 1 False" "[False, False, True, False]"]
  by (simp add: ex_backend_def trailing_failures_def)

text \<open>
  A backend shared by two groups loses the hysteresis. A tick checks a backend once per group
  that lists it; a backend that two groups share (a static route resolved by service name and the
  container's own route) is marked down by a single failed tick, while in one group it survives it.
\<close>

theorem shared_backend_one_tick:
  assumes "g_Backends g1 = [a]" and "g_Backends g2 = [a]" and "\<not> b_draining (h a)"
    and "b_healthyFlag (h a)" and "b_consecFails (h a) = 0" and "b_HealthPath (h a) = []"
    and "\<not> pe_dial pe (b_URL (h a))"
  shows "\<not> b_healthyFlag (dispatchHealthChecks pe h [g1, g2] a) \<and>
    b_healthyFlag (dispatchHealthChecks pe h [g1] a)"
  using assms by (simp add: dispatchHealthChecks_def checkBackend_def recordHealthCheck_def
      markHealthy_def unhealthyAfterConsecutiveFails_def Let_def)

theorem shared_backend_one_tick_witness:
  "\<not> b_healthyFlag (dispatchHealthChecks \<lparr>pe_http = (\<lambda>_. None), pe_dial = (\<lambda>_. False)\<rparr> ex_heap
      [ex_group\<lparr>g_Backends := [0]\<rparr>, ex_group\<lparr>g_Backends := [0], g_static := True\<rparr>] 0)"
  using shared_backend_one_tick [of "ex_group\<lparr>g_Backends := [0]\<rparr>" 0
      "ex_group\<lparr>g_Backends := [0], g_static := True\<rparr>" ex_heap
      "\<lparr>pe_http = (\<lambda>_. None), pe_dial = (\<lambda>_. False)\<rparr>"]
  by (simp add: ex_heap_def ex_backend_def)

subsection \<open>Properties of the affinity cookie\<close>

text \<open>
  One affinity cookie per response. Whatever is queued, after \<^verbatim>\<open>setStickyCookie\<close> exactly
  one \<^verbatim>\<open>Set-Cookie\<close> carries this route's cookie name, it holds the new pin, and every other
  queued cookie is still there, in order.
\<close>

theorem setStickyCookie_unique:
  "let name = stickyCookieName sha g; cs' = setStickyCookie sha cs g pin in
     length (filter (\<lambda>v. has_prefix v (name @ ''='')) cs') = 1 \<and>
     has_prefix (last cs') (name @ ''='' @ pin @ ''; Path='') \<and>
     filter (\<lambda>v. \<not> has_prefix v (name @ ''='')) cs' = filter (\<lambda>v. \<not> has_prefix v (name @ ''='')) cs"
proof -
  have p: "has_prefix (p @ r) p" for p r by simp
  have f: "filter P (filter (\<lambda>v. \<not> P v) xs) = []" "filter Q (filter Q xs) = filter Q xs"
    for P Q :: "string \<Rightarrow> bool" and xs by (induction xs) auto
  show ?thesis
    unfolding setStickyCookie_def Let_def
    using p [of "stickyCookieName sha g @ ''=''"]
      p [of "stickyCookieName sha g @ ''='' @ pin @ ''; Path=''"]
    by (simp add: f)
qed

end
