(* ===== verification/AuthGate.thy ===== *)
theory AuthGate
  imports Sso Ip Backend
begin

section \<open>The auth gate (\<^verbatim>\<open>cmd/proxy/auth.go\<close>, \<^verbatim>\<open>cmd/proxy/oauth.go\<close>)\<close>

text \<open>
  Who may reach a protected route: the LAN bypass, the SSO cookie, dashboard tokens behind a
  bounded cache, OAuth access tokens bound to the route, and the signed attribution header. The
  keyed hash, SHA-256, the JSON codecs of two claims types and the dashboard's answers are
  the fields of \<open>auth_env\<close>. Every refusal is a response; letting a request through returns the
  request as the backend will see it.
\<close>

subsection \<open>State\<close>

definition bearerPrefix :: string where "bearerPrefix = ''Bearer ''"
definition bearerPositiveTTL :: duration where "bearerPositiveTTL = 5 * minute"
definition bearerNegativeTTL :: duration where "bearerNegativeTTL = 30 * second"
definition maxBearerCache :: nat where "maxBearerCache = 4096"

record bearerEntry =
  be_username :: string
  be_expires :: instant

record authGate =
  ag_secret :: string
  ag_actorSecret :: string
  ag_domains :: "string list"
  ag_trusted :: "ipnet list"
  ag_xffTrusted :: "ipnet list"
  ag_bearers :: "(string \<times> bearerEntry) list"

text \<open>
  \<open>ae_dashboard\<close> is the answer to a token's verification: \<open>None\<close> for a transport error, otherwise
  the status and the decoded username (\<open>None\<close> when the body is not JSON).
\<close>

record auth_env =
  ae_mac :: mac
  ae_sha256 :: "string \<Rightarrow> string"
  ae_marshalActor :: "ActorClaims \<Rightarrow> string"
  ae_unmarshalAccess :: "string \<Rightarrow> AccessClaims option"
  ae_dashboard :: "string \<Rightarrow> (int \<times> string option) option"

definition parseCIDRList :: "string \<Rightarrow> ipnet list" where
  "parseCIDRList csv =
     List.map_filter parseCIDR (filter (\<lambda>s. s \<noteq> []) (map trim_space (split_on CHR '','' csv)))"

definition newAuthGate :: "string \<Rightarrow> string \<Rightarrow> string \<Rightarrow> string \<Rightarrow> string \<Rightarrow> authGate" where
  "newAuthGate secret actorSecret domainsCSV trustedCSV xffTrustedCSV =
     \<lparr>ag_secret = secret, ag_actorSecret = actorSecret,
      ag_domains = filter (\<lambda>d. d \<noteq> []) (map (to_lower \<circ> trim_space) (split_on CHR '','' domainsCSV)),
      ag_trusted = parseCIDRList trustedCSV, ag_xffTrusted = parseCIDRList xffTrustedCSV, ag_bearers = []\<rparr>"

definition ipInAny :: "ip \<Rightarrow> ipnet list \<Rightarrow> bool" where
  "ipInAny a nets \<longleftrightarrow> list_ex (\<lambda>n. net_contains n a) nets"

definition remote_host :: "request \<Rightarrow> string" where
  "remote_host rq = (case splitHostPort (rq_RemoteAddr rq) of None \<Rightarrow> rq_RemoteAddr rq | Some (h, _) \<Rightarrow> h)"

definition realClientIP :: "request \<Rightarrow> ipnet list \<Rightarrow> ip option" where
  "realClientIP rq xffTrusted =
     (case parseIP (remote_host rq) of
        None \<Rightarrow> None
      | Some peer \<Rightarrow>
          if \<not> ipInAny peer xffTrusted then Some peer
          else let xff = h_get (rq_Header rq) ''X-Forwarded-For''
               in if xff = [] then Some peer
                  else (case parseIP (trim_space (last (split_on CHR '','' xff))) of
                          Some a \<Rightarrow> Some a
                        | None \<Rightarrow> Some peer))"

subsection \<open>Attribution\<close>

definition ActorHeader :: string where "ActorHeader = ''X-Pmgr-Actor''"
definition actorTTL :: duration where "actorTTL = 2 * minute"

definition stampActor :: "auth_env \<Rightarrow> instant \<Rightarrow> authGate \<Rightarrow> request \<Rightarrow> string \<Rightarrow> request" where
  "stampActor env now a rq user =
     (if ag_actorSecret a = [] \<or> user = [] then rq
      else let ip = (case realClientIP rq (ag_xffTrusted a) of None \<Rightarrow> [] | Some v \<Rightarrow> ip_string v);
               claims = \<lparr>act_Username = user, act_IP = ip, act_Exp = unix (now + actorTTL)\<rparr>
           in rq\<lparr>rq_Header := h_set (rq_Header rq) ActorHeader
                    (SignActor (ae_mac env) (ae_marshalActor env) claims (ag_actorSecret a))\<rparr>)"

subsection \<open>Bearer tokens of the dashboard\<close>

definition token_user :: "auth_env \<Rightarrow> string \<Rightarrow> string" where
  "token_user env token =
     (case ae_dashboard env token of
        None \<Rightarrow> []
      | Some (st, body) \<Rightarrow> if st = 200 then (case body of None \<Rightarrow> [] | Some u \<Rightarrow> u) else [])"

definition sweepBearers :: "instant \<Rightarrow> (string \<times> bearerEntry) list \<Rightarrow> (string \<times> bearerEntry) list" where
  "sweepBearers now bs =
     (if maxBearerCache \<le> length bs
      then let kept = filter (\<lambda>(k, e). \<not> be_expires e < now) bs
           in if maxBearerCache \<le> length kept then [] else kept
      else bs)"

definition verifyBearer :: "auth_env \<Rightarrow> instant \<Rightarrow> authGate \<Rightarrow> string \<Rightarrow> authGate \<times> string" where
  "verifyBearer env now a token =
     (let key = ae_sha256 env token;
          fetch = (let user = token_user env token;
                       ttl = (if user \<noteq> [] then bearerPositiveTTL else bearerNegativeTTL)
                   in (a\<lparr>ag_bearers := AList.update key \<lparr>be_username = user, be_expires = now + ttl\<rparr>
                           (sweepBearers now (ag_bearers a))\<rparr>, user))
      in case map_of (ag_bearers a) key of
           Some e \<Rightarrow> if now < be_expires e then (a, be_username e) else fetch
         | None \<Rightarrow> fetch)"

definition userAllowed :: "RouteGroup \<Rightarrow> string \<Rightarrow> bool" where
  "userAllowed g user \<longleftrightarrow> (if g_AuthUsers g = [] then True else list_ex (\<lambda>u. equal_fold u user) (g_AuthUsers g))"

subsection \<open>Refusals\<close>

text \<open>The page of \<^verbatim>\<open>serveUnavailableRetry\<close>; \<open>middot\<close> is the UTF-8 encoding of the dot between the parts of the title.\<close>

definition middot :: string where "middot = [char_of (194 :: nat), char_of (183 :: nat)]"

definition statusText :: "int \<Rightarrow> string" where
  "statusText status =
     (if status = 404 then ''Not Found'' else if status = 502 then ''Bad Gateway'' else if status = 503 then ''Service Unavailable'' else [])"

definition unavailable_page :: "int \<Rightarrow> int \<Rightarrow> string \<Rightarrow> string \<Rightarrow> string \<Rightarrow> string" where
  "unavailable_page retryAfter status title host reason =
     join newline
     [''<!doctype html><html lang=en><meta charset=utf-8>'',
      ''<meta name=viewport content='' @ [dquote] @ ''width=device-width,initial-scale=1'' @ [dquote] @ ''>'',
      ''<meta http-equiv=refresh content='' @ [dquote] @ itoa retryAfter @ [dquote] @ ''>'',
      ''<title>'' @ itoa status @ '' '' @ title @ '' '' @ middot @ '' '' @ host @ ''</title>'',
      ''<style>'',
      ''  :root{color-scheme:dark}'',
      ''  html,body{height:100%;margin:0}'',
      ''  body{background:#0a0a0a;color:#e6e6e6;font:15px/1.55 -apple-system,BlinkMacSystemFont,'' @ [dquote] @ ''Inter'' @ [dquote] @ '',system-ui,sans-serif;display:flex;align-items:center;justify-content:center;padding:24px}'',
      ''  .box{max-width:420px;text-align:center}'',
      ''  .code{font:600 12px/1 ui-monospace,SFMono-Regular,Menlo,monospace;letter-spacing:.12em;color:#6a6a6a;margin-bottom:14px;text-transform:uppercase}'',
      ''  h1{margin:0 0 10px;font-size:20px;font-weight:600;letter-spacing:-.015em;color:#fafafa}'',
      ''  p{margin:0;color:#8a8a8a;font-size:14px}'',
      ''</style>'',
      ''<div class=box>'',
      ''  <div class=code>'' @ itoa status @ '' '' @ middot @ '' '' @ statusText status @ ''</div>'',
      ''  <h1>'' @ title @ ''</h1>'',
      ''  <p>'' @ reason @ ''</p>'',
      ''</div>'',
      []]"

definition serveUnavailableRetry :: "header \<Rightarrow> int \<Rightarrow> string \<Rightarrow> string \<Rightarrow> int \<Rightarrow> response" where
  "serveUnavailableRetry h status host reason retryAfter =
     (let title = (if status = 404 then ''Not found'' else ''Service unavailable'')
      in \<lparr>rs_status = status,
          rs_header = h_set (h_set (h_set h ''Content-Type'' ''text/html; charset=utf-8'') ''Cache-Control'' ''no-store'')
                        ''Retry-After'' (itoa retryAfter),
          rs_body = unavailable_page retryAfter status title host reason\<rparr>)"

definition unavailable_reason :: string where
  "unavailable_reason = ''Service unavailable at this time, try again later.''"

definition serveUnavailable :: "header \<Rightarrow> int \<Rightarrow> string \<Rightarrow> string \<Rightarrow> response" where
  "serveUnavailable h status host reason = serveUnavailableRetry h status host reason 300"

definition forbidden :: "header \<Rightarrow> response" where
  "forbidden h = writeJSON h 403 (json_pair ''error'' ''forbidden'')"

definition parentDomain :: "authGate \<Rightarrow> string \<Rightarrow> string" where
  "parentDomain a host =
     (case find (\<lambda>d. equal_fold host d \<or> has_suffix (to_lower host) (''.'' @ d)) (ag_domains a) of
        None \<Rightarrow> [] | Some d \<Rightarrow> d)"

definition deny :: "authGate \<Rightarrow> header \<Rightarrow> request \<Rightarrow> string \<Rightarrow> response" where
  "deny a h rq reqHost =
     (let json401 = writeJSON (h_set h ''WWW-Authenticate'' ''Bearer'') 401 (json_pair ''error'' ''authentication required'')
      in if contains_str (h_get (rq_Header rq) ''Accept'') ''text/html''
         then (case find (\<lambda>d. equal_fold reqHost d \<or> has_suffix (to_lower reqHost) (''.'' @ d)) (ag_domains a) of
                 None \<Rightarrow> json401
               | Some d \<Rightarrow>
                   http_redirect h (rq_Method rq)
                     (''https://auth.'' @ d @ ''/login?redirect='' @
                      query_escape (''https://'' @ rq_Host rq @ request_uri rq)) 302)
         else json401)"

subsection \<open>OAuth resource server\<close>

definition protectedResourcePath :: string where
  "protectedResourcePath = ''/.well-known/oauth-protected-resource''"

definition oauthResource :: "string \<Rightarrow> string \<Rightarrow> string" where
  "oauthResource reqHost pathPrefix = to_lower reqHost @ trim_suffix pathPrefix ''/''"

definition verifyOAuthBearer :: "auth_env \<Rightarrow> instant \<Rightarrow> authGate \<Rightarrow> string \<Rightarrow> string \<Rightarrow> string \<Rightarrow> string option" where
  "verifyOAuthBearer env now a token reqHost pathPrefix =
     (case VerifyAccess (ae_mac env) (ae_unmarshalAccess env) now token (ag_secret a) of
        None \<Rightarrow> None
      | Some claims \<Rightarrow>
          (let want = oauthResource reqHost pathPrefix
           in if pathPrefix \<noteq> []
              then (if \<not> equal_fold (ac_Audience claims) want then None else Some (ac_Username claims))
              else if ac_Audience claims \<noteq> ''*'' \<and> \<not> equal_fold (ac_Audience claims) want then None
              else Some (ac_Username claims)))"

definition denyOAuth :: "header \<Rightarrow> string \<Rightarrow> string \<Rightarrow> bool \<Rightarrow> response" where
  "denyOAuth h reqHost pathPrefix hadBearer =
     (let metaURL = ''https://'' @ reqHost @ protectedResourcePath @ trim_suffix pathPrefix ''/'';
          challenge = ''Bearer resource_metadata='' @ go_quote metaURL;
          challenge1 = (if hadBearer then challenge @ '', error='' @ go_quote ''invalid_token'' else challenge)
      in writeJSON (h_set h ''WWW-Authenticate'' challenge1) 401 (json_pair ''error'' ''authentication required''))"

datatype auth_result = Allowed request | Denied response

definition grant :: "auth_env \<Rightarrow> instant \<Rightarrow> authGate \<Rightarrow> header \<Rightarrow> request \<Rightarrow> RouteGroup \<Rightarrow> string \<Rightarrow> auth_result" where
  "grant env now a h rq g user =
     (if userAllowed g user then Allowed (stampActor env now a rq user) else Denied (forbidden h))"

definition authorizeOAuth :: "auth_env \<Rightarrow> instant \<Rightarrow> authGate \<Rightarrow> header \<Rightarrow> request \<Rightarrow> RouteGroup \<Rightarrow> string \<Rightarrow> authGate \<times> auth_result" where
  "authorizeOAuth env now a h rq g reqHost =
     (let authz = h_get (rq_Header rq) ''Authorization'';
          hadBearer = has_prefix authz bearerPrefix;
          token = trim_prefix authz bearerPrefix;
          denied = Denied (denyOAuth h reqHost (g_PathPrefix g) hadBearer)
      in if has_prefix authz (bearerPrefix @ ''pmt_'')
         then (let (a1, user) = verifyBearer env now a token
               in if user \<noteq> [] then (a1, grant env now a1 h rq g user) else (a1, denied))
         else if has_prefix authz (bearerPrefix @ AccessTokenPrefix)
         then (case verifyOAuthBearer env now a token reqHost (g_PathPrefix g) of
                 Some user \<Rightarrow> (a, grant env now a h rq g user)
               | None \<Rightarrow> (a, denied))
         else (a, denied))"

definition serveProtectedResourceMetadata :: "authGate \<Rightarrow> header \<Rightarrow> request \<Rightarrow> response" where
  "serveProtectedResourceMetadata a h rq =
     (let host = hostOnly (rq_Host rq); parent = parentDomain a host
      in if parent = [] then http_not_found h
         else let suffix = trim_prefix (rq_Path rq) protectedResourcePath
              in writeJSON (h_set (h_set h ''Access-Control-Allow-Origin'' ''*'') ''Cache-Control'' ''max-age=300'') 200
                   (''{'' @ json_string ''authorization_servers'' @ '':['' @ json_string (''https://auth.'' @ parent) @ ''],'' @
                    json_string ''bearer_methods_supported'' @ '':['' @ json_string ''header'' @ ''],'' @
                    json_string ''resource'' @ '':'' @ json_string (''https://'' @ host @ suffix) @ ''}''))"

definition redirectASMetadata :: "authGate \<Rightarrow> header \<Rightarrow> request \<Rightarrow> response" where
  "redirectASMetadata a h rq =
     (let host = hostOnly (rq_Host rq); parent = parentDomain a host
      in if parent = [] then http_not_found h
         else http_redirect h (rq_Method rq) (''https://auth.'' @ parent @ rq_Path rq) 302)"

subsection \<open>The gate\<close>

definition login_host :: "authGate \<Rightarrow> string \<Rightarrow> bool" where
  "login_host a reqHost \<longleftrightarrow> list_ex (\<lambda>d. equal_fold reqHost (''auth.'' @ d)) (ag_domains a)"

definition lan_bypass :: "authGate \<Rightarrow> request \<Rightarrow> bool" where
  "lan_bypass a rq \<longleftrightarrow>
     (case realClientIP rq (ag_xffTrusted a) of None \<Rightarrow> False | Some v \<Rightarrow> ipInAny v (ag_trusted a))"

definition cookie_user :: "auth_env \<Rightarrow> instant \<Rightarrow> authGate \<Rightarrow> request \<Rightarrow> string option" where
  "cookie_user env now a rq =
     (case req_cookie rq CookieName of None \<Rightarrow> None | Some v \<Rightarrow> Verify (ae_mac env) now v (ag_secret a))"

definition authorize :: "auth_env \<Rightarrow> instant \<Rightarrow> authGate \<Rightarrow> header \<Rightarrow> request \<Rightarrow> RouteGroup \<Rightarrow> authGate \<times> auth_result" where
  "authorize env now a h rq g =
     (let reqHost = hostOnly (rq_Host rq); authz = h_get (rq_Header rq) ''Authorization''
      in if login_host a reqHost then (a, Allowed rq)
         else if g_AuthMode g \<noteq> ''oauth'' \<and> lan_bypass a rq then (a, Allowed rq)
         else if ag_secret a = [] then (a, Denied (serveUnavailable h 503 reqHost unavailable_reason))
         else if g_AuthMode g = ''oauth'' then authorizeOAuth env now a h rq g reqHost
         else (case cookie_user env now a rq of
                 Some user \<Rightarrow> (a, grant env now a h rq g user)
               | None \<Rightarrow>
                   if has_prefix authz (bearerPrefix @ ''pmt_'')
                   then (let (a1, user) = verifyBearer env now a (trim_prefix authz bearerPrefix)
                         in if user \<noteq> [] then (a1, grant env now a1 h rq g user)
                            else (a1, Denied (deny a1 h rq reqHost)))
                   else (a, Denied (deny a h rq reqHost))))"

subsection \<open>Who is let through\<close>

text \<open>The credentials that let a user through, by mode.\<close>

definition proven_user :: "auth_env \<Rightarrow> instant \<Rightarrow> authGate \<Rightarrow> request \<Rightarrow> RouteGroup \<Rightarrow> string \<Rightarrow> bool" where
  "proven_user env now a rq g user \<longleftrightarrow>
     (let authz = h_get (rq_Header rq) ''Authorization''; token = trim_prefix authz bearerPrefix
      in (g_AuthMode g \<noteq> ''oauth'' \<and> cookie_user env now a rq = Some user) \<or>
         (has_prefix authz (bearerPrefix @ ''pmt_'') \<and> user \<noteq> [] \<and> snd (verifyBearer env now a token) = user) \<or>
         (g_AuthMode g = ''oauth'' \<and> has_prefix authz (bearerPrefix @ AccessTokenPrefix) \<and>
          verifyOAuthBearer env now a token (hostOnly (rq_Host rq)) (g_PathPrefix g) = Some user))"

lemma stampActor_cong: "ag_actorSecret a = ag_actorSecret a' \<Longrightarrow> ag_xffTrusted a = ag_xffTrusted a' \<Longrightarrow>
    stampActor env now a rq u = stampActor env now a' rq u"
  by (simp add: stampActor_def)

lemma verifyBearer_keeps:
  "ag_actorSecret (fst (verifyBearer env now a token)) = ag_actorSecret a"
  "ag_xffTrusted (fst (verifyBearer env now a token)) = ag_xffTrusted a"
  by (auto simp: verifyBearer_def Let_def split: option.split)

lemma verifyBearer_stamp: "stampActor env now (fst (verifyBearer env now a token)) rq u = stampActor env now a rq u"
  by (rule stampActor_cong) (simp_all add: verifyBearer_keeps)

lemma grant_Allowed: "grant env now a h rq g u = Allowed rq' \<longleftrightarrow> userAllowed g u \<and> rq' = stampActor env now a rq u"
  by (auto simp: grant_def)

lemma authorizeOAuth_Allowed:
  assumes "authorizeOAuth env now a h rq g (hostOnly (rq_Host rq)) = (a', Allowed rq')" "g_AuthMode g = ''oauth''"
  shows "\<exists>u. proven_user env now a rq g u \<and> userAllowed g u \<and> rq' = stampActor env now a rq u"
proof -
  let ?t = "trim_prefix (h_get (rq_Header rq) ''Authorization'') bearerPrefix"
  obtain a1 u where v: "verifyBearer env now a ?t = (a1, u)" by (cases "verifyBearer env now a ?t")
  show ?thesis
    using assms verifyBearer_stamp [of env now a ?t rq u] v
    by (auto simp: authorizeOAuth_def Let_def grant_Allowed proven_user_def split: if_splits option.splits)
qed

lemma authorize_Allowed:
  assumes "authorize env now a h rq g = (a', Allowed rq')"
  shows "(login_host a (hostOnly (rq_Host rq)) \<and> rq' = rq) \<or>
    (g_AuthMode g \<noteq> ''oauth'' \<and> lan_bypass a rq \<and> rq' = rq) \<or>
    (ag_secret a \<noteq> [] \<and> (\<exists>u. proven_user env now a rq g u \<and> userAllowed g u \<and> rq' = stampActor env now a rq u))"
proof (cases "login_host a (hostOnly (rq_Host rq)) \<or> g_AuthMode g \<noteq> ''oauth'' \<and> lan_bypass a rq")
  case True
  with assms show ?thesis by (auto simp: authorize_def Let_def split: if_splits)
next
  case F: False
  show ?thesis
  proof (cases "g_AuthMode g = ''oauth''")
    case True
    with assms F have "authorizeOAuth env now a h rq g (hostOnly (rq_Host rq)) = (a', Allowed rq')" "ag_secret a \<noteq> []"
      by (auto simp: authorize_def Let_def split: if_splits)
    with authorizeOAuth_Allowed [OF this(1) True] show ?thesis by blast
  next
    case False
    let ?t = "trim_prefix (h_get (rq_Header rq) ''Authorization'') bearerPrefix"
    obtain a1 u where v: "verifyBearer env now a ?t = (a1, u)" by (cases "verifyBearer env now a ?t")
    from assms F False show ?thesis
      using verifyBearer_stamp [of env now a ?t rq u] v
      by (auto simp: authorize_def Let_def grant_Allowed proven_user_def split: if_splits option.splits)
  qed
qed

text \<open>A concrete gate, its environment and a request for the examples.\<close>

definition ex_env :: auth_env where
  "ex_env = \<lparr>ae_mac = ex_mac, ae_sha256 = (\<lambda>s. s), ae_marshalActor = act_Username, ae_unmarshalAccess = ex_unmarshal,
     ae_dashboard = (\<lambda>t. if t = ''pmt_1'' then Some (200, Some ''alice'') else Some (401, None))\<rparr>"

definition ex_gate :: authGate where
  "ex_gate = \<lparr>ag_secret = ''k'', ag_actorSecret = [], ag_domains = [''example''],
     ag_trusted = [([10, 0, 0, 0], [255, 0, 0, 0])], ag_xffTrusted = [([127, 0, 0, 0], [255, 0, 0, 0])], ag_bearers = []\<rparr>"

definition ex_auth_request :: request where
  "ex_auth_request = \<lparr>rq_Method = ''GET'', rq_Host = ''shop.example:443'', rq_Path = ''/'', rq_RawQuery = [],
     rq_Header = [(''Authorization'', [''Bearer pmt_1'']), (''X-Forwarded-For'', [''10.0.0.1, 9.9.9.9''])],
     rq_RemoteAddr = ''127.0.0.1:5000''\<rparr>"

definition ex_auth_group :: RouteGroup where
  "ex_auth_group = ex_group\<lparr>g_AuthRequired := True, g_AuthUsers := [''Alice''], g_AuthMode := []\<rparr>"

text \<open>
  (C1) The gate lets a request through only for a reason: the host is a login host, or a plain-SSO route is
  reached from a trusted network, or a secret is configured and a user proven by a credential the route's
  mode accepts is on the route's allowlist. OAuth routes never accept a cookie or a trusted network,
  and the request forwarded is the original one stamped with that user.
\<close>

theorem authorize_sound:
  assumes "authorize env now a h rq g = (a', Allowed rq')"
  shows "(login_host a (hostOnly (rq_Host rq)) \<and> rq' = rq) \<or>
    (g_AuthMode g \<noteq> ''oauth'' \<and> lan_bypass a rq \<and> rq' = rq) \<or>
    (ag_secret a \<noteq> [] \<and> (\<exists>u. proven_user env now a rq g u \<and> userAllowed g u \<and> rq' = stampActor env now a rq u))"
  using assms by (rule authorize_Allowed)

theorem authorize_sound_witness:
  "authorize ex_env 0 ex_gate [] ex_auth_request ex_auth_group =
     (ex_gate\<lparr>ag_bearers := [(''pmt_1'', \<lparr>be_username = ''alice'', be_expires = bearerPositiveTTL\<rparr>)]\<rparr>, Allowed ex_auth_request) \<and>
   (\<exists>u. proven_user ex_env 0 ex_gate ex_auth_request ex_auth_group u \<and> userAllowed ex_auth_group u)"
proof -
  have e: "authorize ex_env 0 ex_gate [] ex_auth_request ex_auth_group =
     (ex_gate\<lparr>ag_bearers := [(''pmt_1'', \<lparr>be_username = ''alice'', be_expires = bearerPositiveTTL\<rparr>)]\<rparr>, Allowed ex_auth_request)"
    by code_simp
  have n: "\<not> login_host ex_gate (hostOnly (rq_Host ex_auth_request))" "\<not> lan_bypass ex_gate ex_auth_request" by code_simp+
  show ?thesis using e n authorize_sound [OF e] by blast
qed

text \<open>
  Without the shared secret a protected route fails closed: except for login hosts and the trusted
  networks of a plain-SSO route, every request gets the 503 page, whatever credentials it carries, and
  the gate's state does not change.
\<close>

theorem authorize_fail_closed:
  assumes "ag_secret a = []" and "\<not> login_host a (hostOnly (rq_Host rq))"
    and "g_AuthMode g = ''oauth'' \<or> \<not> lan_bypass a rq"
  shows "authorize env now a h rq g = (a, Denied (serveUnavailable h 503 (hostOnly (rq_Host rq)) unavailable_reason))"
  using assms by (auto simp: authorize_def Let_def)

theorem authorize_fail_closed_witness:
  "\<exists>r. authorize ex_env 0 (ex_gate\<lparr>ag_secret := []\<rparr>) [] ex_auth_request ex_auth_group = (ex_gate\<lparr>ag_secret := []\<rparr>, Denied r) \<and>
       rs_status r = 503"
proof -
  let ?a = "ex_gate\<lparr>ag_secret := []\<rparr>"
  have "ag_secret ?a = []" by simp
  moreover have "\<not> login_host ?a (hostOnly (rq_Host ex_auth_request))" by code_simp
  moreover have "g_AuthMode ex_auth_group = ''oauth'' \<or> \<not> lan_bypass ?a ex_auth_request" by code_simp
  ultimately show ?thesis
    using authorize_fail_closed [of ?a ex_auth_request ex_auth_group ex_env 0 "[]"]
    by (simp add: serveUnavailable_def serveUnavailableRetry_def Let_def)
qed

lemma equal_fold_star: "equal_fold ''*'' s \<Longrightarrow> s = ''*''"
proof -
  have "lower_char c = CHR ''*'' \<Longrightarrow> c = CHR ''*''" for c
    by (cases "65 \<le> (of_char c :: nat) \<and> of_char c \<le> (90 :: nat)")
      (auto simp: lower_char_def Let_def char_of_eq_iff of_char_eq_iff take_bit_nat_eq_self_iff take_bit_nat_eq_self)
  then show "equal_fold ''*'' s \<Longrightarrow> s = ''*''"
    by (cases s) (auto simp: equal_fold_def to_lower_def lower_char_def)
qed

text \<open>
  A wildcard token opens host-wide routes only: a token minted without a resource is refused on every
  path-mounted route of a real host, and any token accepted there names exactly that host and prefix.
\<close>

theorem path_mounted_audience:
  assumes "pathPrefix \<noteq> []" and "verifyOAuthBearer env now a token reqHost pathPrefix = Some user"
    and "to_lower reqHost \<noteq> ''*''"
  shows "\<exists>c. VerifyAccess (ae_mac env) (ae_unmarshalAccess env) now token (ag_secret a) = Some c \<and>
    ac_Username c = user \<and> equal_fold (ac_Audience c) (oauthResource reqHost pathPrefix) \<and>
    (to_lower reqHost \<noteq> [] \<longrightarrow> ac_Audience c \<noteq> ''*'')"
proof -
  obtain c where c: "VerifyAccess (ae_mac env) (ae_unmarshalAccess env) now token (ag_secret a) = Some c"
    "ac_Username c = user" "equal_fold (ac_Audience c) (oauthResource reqHost pathPrefix)"
    using assms by (auto simp: verifyOAuthBearer_def Let_def split: option.splits if_splits)
  moreover have "ac_Audience c \<noteq> ''*''" if "to_lower reqHost \<noteq> []"
  proof
    assume "ac_Audience c = ''*''"
    with c(3) have "oauthResource reqHost pathPrefix = ''*''" by (simp add: equal_fold_star)
    with that assms(3) show False by (auto simp: oauthResource_def append_eq_Cons_conv)
  qed
  ultimately show ?thesis by blast
qed

theorem path_mounted_audience_witness:
  "\<exists>c. VerifyAccess ex_mac ex_unmarshal 0
          (SignAccess ex_mac ex_marshal (ex_access\<lparr>ac_Audience := ''mcp.example/mcp/dash''\<rparr>) ''k'') ''k'' = Some c \<and>
       ac_Audience c \<noteq> ''*''"
proof -
  let ?tok = "SignAccess ex_mac ex_marshal (ex_access\<lparr>ac_Audience := ''mcp.example/mcp/dash''\<rparr>) ''k''"
  have v: "verifyOAuthBearer ex_env 0 ex_gate ?tok ''MCP.example'' ''/mcp/dash/'' = Some ''alice''" by code_simp
  have "to_lower ''MCP.example'' \<noteq> ''*''" "to_lower ''MCP.example'' \<noteq> []" by code_simp+
  with path_mounted_audience [OF _ v] show ?thesis by (auto simp: ex_env_def ex_gate_def)
qed

subsection \<open>Freshness and size of the bearer cache\<close>

text \<open>A history of verifications: when, what the dashboard would answer at that time, and the token.\<close>

type_synonym bearer_event = "instant \<times> (string \<Rightarrow> (int \<times> string option) option) \<times> string"

fun bearer_run :: "auth_env \<Rightarrow> authGate \<Rightarrow> bearer_event list \<Rightarrow> authGate" where
  "bearer_run env a [] = a"
| "bearer_run env a ((now, d, tok) # es) =
     bearer_run env (fst (verifyBearer (env\<lparr>ae_dashboard := d\<rparr>) now a tok)) es"

definition answered :: "auth_env \<Rightarrow> bearer_event list \<Rightarrow> string \<Rightarrow> string \<Rightarrow> instant \<Rightarrow> bool" where
  "answered env es key user t \<longleftrightarrow>
     (\<exists>d tok. (t, d, tok) \<in> set es \<and> ae_sha256 env tok = key \<and> token_user (env\<lparr>ae_dashboard := d\<rparr>) tok = user)"

definition bearer_inv :: "auth_env \<Rightarrow> bearer_event list \<Rightarrow> authGate \<Rightarrow> bool" where
  "bearer_inv env es a \<longleftrightarrow> length (ag_bearers a) \<le> maxBearerCache \<and>
     (\<forall>(k, e)\<in>set (ag_bearers a). be_username e \<noteq> [] \<longrightarrow>
        answered env es k (be_username e) (be_expires e - bearerPositiveTTL))"

lemma answered_mono: "set es \<subseteq> set es' \<Longrightarrow> answered env es k u t \<Longrightarrow> answered env es' k u t"
  by (auto simp: answered_def)

lemma sweep_length: "length bs \<le> maxBearerCache \<Longrightarrow> length (sweepBearers now bs) < maxBearerCache"
  by (auto simp: sweepBearers_def Let_def maxBearerCache_def)

lemma sweep_subset: "set (sweepBearers now bs) \<subseteq> set bs"
  by (auto simp: sweepBearers_def Let_def)

lemma length_update_le: "length (AList.update k v xs) \<le> Suc (length xs)"
  by (simp add: length_update)

lemma verifyBearer_fresh:
  assumes "bearer_inv env es a" and "verifyBearer (env\<lparr>ae_dashboard := d\<rparr>) now a tok = (a', user)"
  shows "bearer_inv env (es @ [(now, d, tok)]) a'"
    and "user \<noteq> [] \<longrightarrow> (\<exists>t. answered env (es @ [(now, d, tok)]) (ae_sha256 env tok) user t \<and> now < t + bearerPositiveTTL)"
proof -
  let ?env = "env\<lparr>ae_dashboard := d\<rparr>" and ?k = "ae_sha256 env tok" and ?es = "es @ [(now, d, tok)]"
  have keep: "bearer_inv env ?es a"
    using assms(1) answered_mono [of es ?es] by (fastforce simp: bearer_inv_def)
  show "bearer_inv env ?es a'"
    and "user \<noteq> [] \<longrightarrow> (\<exists>t. answered env ?es ?k user t \<and> now < t + bearerPositiveTTL)"
  proof -
    define fetched where "fetched = \<lparr>be_username = token_user ?env tok,
      be_expires = now + (if token_user ?env tok \<noteq> [] then bearerPositiveTTL else bearerNegativeTTL)\<rparr>"
    let ?miss = "(a\<lparr>ag_bearers := AList.update ?k fetched (sweepBearers now (ag_bearers a))\<rparr>, token_user ?env tok)"
    have k: "ae_sha256 ?env tok = ?k" by simp
    have "verifyBearer ?env now a tok =
      (case map_of (ag_bearers a) ?k of Some e \<Rightarrow> if now < be_expires e then (a, be_username e) else ?miss | None \<Rightarrow> ?miss)"
      unfolding verifyBearer_def Let_def fetched_def k ..
    with assms(2) have r: "(a', user) =
      (case map_of (ag_bearers a) ?k of Some e \<Rightarrow> if now < be_expires e then (a, be_username e) else ?miss | None \<Rightarrow> ?miss)"
      by simp
    consider (hit) e where "map_of (ag_bearers a) ?k = Some e" "now < be_expires e" "a' = a" "user = be_username e"
      | (miss) "a' = a\<lparr>ag_bearers := AList.update ?k fetched (sweepBearers now (ag_bearers a))\<rparr>" "user = token_user ?env tok"
      by (cases "map_of (ag_bearers a) ?k") (use r in \<open>auto split: if_splits\<close>)
    then have "bearer_inv env ?es a' \<and>
      (user \<noteq> [] \<longrightarrow> (\<exists>t. answered env ?es ?k user t \<and> now < t + bearerPositiveTTL))"
    proof cases
      case hit
      then have "(?k, e) \<in> set (ag_bearers a)" by (simp add: map_of_SomeD)
      then have "user \<noteq> [] \<longrightarrow> answered env ?es ?k user (be_expires e - bearerPositiveTTL)"
        using keep hit(4) by (auto simp: bearer_inv_def)
      moreover have "now < (be_expires e - bearerPositiveTTL) + bearerPositiveTTL" using hit(2) by simp
      ultimately show ?thesis using keep hit(3) by blast
    next
      case miss
      have now: "answered env ?es ?k (token_user ?env tok) now" by (auto simp: answered_def)
      have "length (ag_bearers a') \<le> maxBearerCache"
        using assms(1) sweep_length [of "ag_bearers a" now] length_update_le [of ?k fetched "sweepBearers now (ag_bearers a)"]
        by (simp add: bearer_inv_def miss(1))
      moreover have "set (ag_bearers a') \<subseteq> insert (?k, fetched) (set (ag_bearers a))"
        using set_update_subset [of ?k fetched "sweepBearers now (ag_bearers a)"] sweep_subset [of now "ag_bearers a"]
        by (auto simp: miss(1))
      moreover have "be_username fetched \<noteq> [] \<longrightarrow> answered env ?es ?k (be_username fetched) (be_expires fetched - bearerPositiveTTL)"
        using now by (simp add: fetched_def)
      ultimately have "bearer_inv env ?es a'" using keep by (fastforce simp: bearer_inv_def)
      then show ?thesis using now miss(2) by (auto simp: bearerPositiveTTL_def time_units)
    qed
    then show "bearer_inv env ?es a'"
      and "user \<noteq> [] \<longrightarrow> (\<exists>t. answered env ?es ?k user t \<and> now < t + bearerPositiveTTL)" by blast+
  qed
qed

lemma bearer_run_inv: "bearer_inv env hist a \<Longrightarrow> bearer_inv env (hist @ es) (bearer_run env a es)"
proof (induction es arbitrary: a hist)
  case (Cons x es)
  obtain now d tok where x: "x = (now, d, tok)" by (cases x)
  obtain a' u where v: "verifyBearer (env\<lparr>ae_dashboard := d\<rparr>) now a tok = (a', u)" by (rule prod.exhaust)
  from Cons.IH [OF verifyBearer_fresh(1) [OF Cons.prems v]] show ?case by (simp add: x v)
qed simp

text \<open>
  A dashboard token stands for a user only as long as the dashboard said so within the last five
  minutes: after any sequence of verifications, with answers that change over time, the user returned for a token
  is one the dashboard gave for a token of the same digest less than the positive TTL ago; and the cache never
  exceeds its bound, whatever tokens are sprayed at it.
\<close>

theorem bearer_freshness:
  assumes "ag_bearers a = []"
    and "verifyBearer (env\<lparr>ae_dashboard := d\<rparr>) now (bearer_run env a es) tok = (a', user)"
  shows "length (ag_bearers a') \<le> maxBearerCache \<and>
    (user \<noteq> [] \<longrightarrow> (\<exists>t. answered env (es @ [(now, d, tok)]) (ae_sha256 env tok) user t \<and> now < t + bearerPositiveTTL))"
proof -
  have "bearer_inv env [] a" using assms(1) by (simp add: bearer_inv_def)
  from bearer_run_inv [OF this, of es] have i: "bearer_inv env es (bearer_run env a es)" by simp
  show ?thesis using verifyBearer_fresh [OF i assms(2)] by (simp add: bearer_inv_def)
qed

theorem bearer_freshness_witness:
  "\<exists>a' t. verifyBearer ex_env minute (bearer_run ex_env ex_gate [(0, ae_dashboard ex_env, ''pmt_1'')]) ''pmt_1'' = (a', ''alice'') \<and>
     answered ex_env [(0, ae_dashboard ex_env, ''pmt_1''), (minute, ae_dashboard ex_env, ''pmt_1'')] ''pmt_1'' ''alice'' t \<and>
     minute < t + bearerPositiveTTL"
proof -
  let ?g = "bearer_run ex_env ex_gate [(0, ae_dashboard ex_env, ''pmt_1'')]"
  have g: "ag_bearers ex_gate = []" by (simp add: ex_gate_def)
  have v: "verifyBearer (ex_env\<lparr>ae_dashboard := ae_dashboard ex_env\<rparr>) minute ?g ''pmt_1'' =
      (ex_gate\<lparr>ag_bearers := [(''pmt_1'', \<lparr>be_username = ''alice'', be_expires = bearerPositiveTTL\<rparr>)]\<rparr>, ''alice'')"
    by code_simp
  from bearer_freshness [OF g v] v show ?thesis by (auto simp: ex_env_def)
qed

subsection \<open>The client address\<close>

lemma remote_host_update: "remote_host (rq\<lparr>rq_Header := hs\<rparr>) = remote_host rq"
  by (simp add: remote_host_def split: option.split)

lemma last_split_on: "c \<notin> set b \<Longrightarrow> last (split_on c (a @ c # b)) = b"
proof (induction a)
  case (Cons x a)
  obtain y ys where s: "split_on c (a @ c # b) = y # ys" by (meson split_on_nonempty neq_Nil_conv)
  have "ys \<noteq> []"
  proof
    assume "ys = []"
    with s have "length (split_on c (a @ c # b)) = 1" by simp
    then show False by (simp add: length_split_on)
  qed
  with Cons s show ?case by simp
qed (simp add: split_on_notin)



end
