(* ===== verification/ABConfig.thy ===== *)
theory ABConfig
  imports Http Backend "HOL-Library.Product_Lexorder"
begin

section \<open>A/B test configuration (\<^verbatim>\<open>cmd/proxy/docker.go\<close>, \<^verbatim>\<open>cmd/proxy/abtest.go\<close>)\<close>

text \<open>
  The labels of a container, the strict parser of the \<^verbatim>\<open>proxy.ab.*\<close> labels with its defaults and warnings,
  the rendering of a configuration back into labels, and the scan that decides which containers are B
  backends and which are left out of routing.
\<close>

subsection \<open>Labels and containers\<close>

definition labelEnable :: string where "labelEnable = ''proxy.enable''"
definition labelHost :: string where "labelHost = ''proxy.host''"
definition labelPort :: string where "labelPort = ''proxy.port''"
definition labelPath :: string where "labelPath = ''proxy.path''"
definition labelStrip :: string where "labelStrip = ''proxy.strip''"
definition labelName :: string where "labelName = ''proxy.name''"
definition labelWeight :: string where "labelWeight = ''proxy.weight''"
definition labelHealth :: string where "labelHealth = ''proxy.health''"
definition labelService :: string where "labelService = ''proxy.service''"
definition labelAuth :: string where "labelAuth = ''proxy.auth''"
definition labelAuthUsers :: string where "labelAuthUsers = ''proxy.auth.users''"
definition labelAuthMode :: string where "labelAuthMode = ''proxy.auth.mode''"
definition labelRateLimit :: string where "labelRateLimit = ''proxy.ratelimit''"
definition labelRateRPM :: string where "labelRateRPM = ''proxy.ratelimit.rpm''"
definition labelDropHeaders :: string where "labelDropHeaders = ''proxy.drop_headers''"
definition labelSpread :: string where "labelSpread = ''proxy.spread''"
definition labelSticky :: string where "labelSticky = ''proxy.sticky''"
definition labelCache :: string where "labelCache = ''proxy.cache''"
definition labelCachePaths :: string where "labelCachePaths = ''proxy.cache.paths''"
definition labelCanary :: string where "labelCanary = ''proxy.canary''"
definition labelABVariant :: string where "labelABVariant = ''proxy.ab.variant''"
definition labelABID :: string where "labelABID = ''proxy.ab.id''"
definition labelABAssign :: string where "labelABAssign = ''proxy.ab.assign''"
definition labelABSplit :: string where "labelABSplit = ''proxy.ab.split''"
definition labelABGroups :: string where "labelABGroups = ''proxy.ab.groups''"
definition labelABUIDCookie :: string where "labelABUIDCookie = ''proxy.ab.uid_cookie''"
definition labelABGroupCookie :: string where "labelABGroupCookie = ''proxy.ab.group_cookie''"
definition labelABAnon :: string where "labelABAnon = ''proxy.ab.anon''"
definition labelABSessionIdle :: string where "labelABSessionIdle = ''proxy.ab.session_idle''"
definition labelABPinRefresh :: string where "labelABPinRefresh = ''proxy.ab.pin_refresh''"
definition labelABMaxSession :: string where "labelABMaxSession = ''proxy.ab.max_session''"
definition labelABStarted :: string where "labelABStarted = ''proxy.ab.started''"
definition labelABEpoch :: string where "labelABEpoch = ''proxy.ab.epoch''"
definition labelABPhase :: string where "labelABPhase = ''proxy.ab.phase''"
definition labelABPhaseAt :: string where "labelABPhaseAt = ''proxy.ab.phase_at''"
definition labelABAbortReason :: string where "labelABAbortReason = ''proxy.ab.abort_reason''"
definition labelABExclude :: string where "labelABExclude = ''proxy.ab.exclude''"
definition labelABStatic :: string where "labelABStatic = ''proxy.ab.static''"
definition labelABCookieJS :: string where "labelABCookieJS = ''proxy.ab.cookie_js''"
definition labelABOverride :: string where "labelABOverride = ''proxy.ab.override''"
definition labelABAutoAbort :: string where "labelABAutoAbort = ''proxy.ab.autoabort''"
definition labelABMinSamples :: string where "labelABMinSamples = ''proxy.ab.min_samples''"
definition labelABMinRuntime :: string where "labelABMinRuntime = ''proxy.ab.min_runtime''"
definition labelABWarmup :: string where "labelABWarmup = ''proxy.ab.warmup''"
definition labelABWindow :: string where "labelABWindow = ''proxy.ab.window''"
definition labelABWindows :: string where "labelABWindows = ''proxy.ab.windows''"
definition labelABWindowMinSamples :: string where "labelABWindowMinSamples = ''proxy.ab.window_min_samples''"
definition labelABErrDelta :: string where "labelABErrDelta = ''proxy.ab.err_delta''"
definition labelABErrRatio :: string where "labelABErrRatio = ''proxy.ab.err_ratio''"
definition labelABP95Ratio :: string where "labelABP95Ratio = ''proxy.ab.p95_ratio''"
definition labelABP95Slack :: string where "labelABP95Slack = ''proxy.ab.p95_slack''"

lemmas label_defs = labelEnable_def labelHost_def labelPort_def labelPath_def labelStrip_def labelName_def labelWeight_def labelHealth_def labelService_def labelAuth_def labelAuthUsers_def labelAuthMode_def labelRateLimit_def labelRateRPM_def labelDropHeaders_def labelSpread_def labelSticky_def labelCache_def labelCachePaths_def labelCanary_def labelABVariant_def labelABID_def labelABAssign_def labelABSplit_def labelABGroups_def labelABUIDCookie_def labelABGroupCookie_def labelABAnon_def labelABSessionIdle_def labelABPinRefresh_def labelABMaxSession_def labelABStarted_def labelABEpoch_def labelABPhase_def labelABPhaseAt_def labelABAbortReason_def labelABExclude_def labelABStatic_def labelABCookieJS_def labelABOverride_def labelABAutoAbort_def labelABMinSamples_def labelABMinRuntime_def labelABWarmup_def labelABWindow_def labelABWindows_def labelABWindowMinSamples_def labelABErrDelta_def labelABErrRatio_def labelABP95Ratio_def labelABP95Slack_def

type_synonym label_map = "(string \<times> string) list"

record dockerContainer =
  dc_ID :: string
  dc_Names :: "string list"
  dc_State :: string
  dc_Status :: string
  dc_Labels :: label_map
  dc_Networks :: "(string \<times> string) list"

definition dockerUnhealthy :: "string \<Rightarrow> bool" where
  "dockerUnhealthy status \<longleftrightarrow> contains_str status ''(unhealthy)''"

definition container_name :: "dockerContainer \<Rightarrow> string" where
  "container_name c = (case dc_Names c of [] \<Rightarrow> ''?'' | n # _ \<Rightarrow> trim_prefix n ''/'')"

text \<open>Indexing a Go string map: an absent key reads as the empty string.\<close>

definition label :: "label_map \<Rightarrow> string \<Rightarrow> string" where
  "label m k = (case map_of m k of None \<Rightarrow> [] | Some v \<Rightarrow> v)"

subsection \<open>Values\<close>

definition abPhaseRunning :: string where "abPhaseRunning = ''running''"
definition abPhaseAborted :: string where "abPhaseAborted = ''aborted''"
definition abPhasePromoting :: string where "abPhasePromoting = ''promoting''"
definition abPhaseDiscarding :: string where "abPhaseDiscarding = ''discarding''"

lemmas phase_defs = abPhaseRunning_def abPhaseAborted_def abPhasePromoting_def abPhaseDiscarding_def

definition abDefaultStatic :: string where "abDefaultStatic = ''/_next/static/''"
definition abMaxPrefixes :: nat where "abMaxPrefixes = 32"
definition abMaxPrefixLen :: nat where "abMaxPrefixLen = 256"
definition abMaxGroups :: nat where "abMaxGroups = 32"
definition abMaxTokenLen :: nat where "abMaxTokenLen = 64"

definition is_lower_alnum :: "char \<Rightarrow> bool" where
  "is_lower_alnum c \<longleftrightarrow> (let n = (of_char c :: nat) in (48 \<le> n \<and> n \<le> 57) \<or> (97 \<le> n \<and> n \<le> 122))"

definition abIDRe :: "string \<Rightarrow> bool" where
  "abIDRe s \<longleftrightarrow> 4 \<le> length s \<and> length s \<le> 16 \<and> list_all is_lower_alnum s"

definition abGroupNameRe :: "string \<Rightarrow> bool" where
  "abGroupNameRe s \<longleftrightarrow> 1 \<le> length s \<and> length s \<le> 32 \<and> list_all (\<lambda>c. is_lower_alnum c \<or> c = CHR ''_'' \<or> c = CHR ''-'') s"

definition isToken :: "string \<Rightarrow> bool" where
  "isToken s \<longleftrightarrow> (if s = [] \<or> abMaxTokenLen < length s then False else list_all is_token_char s)"

definition is_ctl :: "char \<Rightarrow> bool" where
  "is_ctl c \<longleftrightarrow> (of_char c :: nat) < 32 \<or> of_char c = (127 :: nat)"

definition parsePrefixes :: "string \<Rightarrow> string list option" where
  "parsePrefixes v =
     (let parts = splitTrimmed v
      in if abMaxPrefixes < length parts then None
         else if list_ex (\<lambda>p. \<not> has_prefix p ''/'' \<or> abMaxPrefixLen < length p \<or> list_ex is_ctl p) parts then None
         else Some parts)"

definition parseABGroup :: "string \<Rightarrow> (string \<times> string) option" where
  "parseABGroup p =
     (case cut p CHR '':'' of
        None \<Rightarrow> None
      | Some (name, variant) \<Rightarrow>
          if \<not> abGroupNameRe name \<or> (variant \<noteq> abVariantA \<and> variant \<noteq> abVariantB) then None else Some (name, variant))"

definition parseABGroups :: "string \<Rightarrow> (string \<times> string) list option" where
  "parseABGroups v =
     (let parts = splitTrimmed v; ps = map parseABGroup parts
      in if abMaxGroups < length parts \<or> None \<in> set ps then None
         else Some (foldl (\<lambda>m p. AList.update (fst (the p)) (snd (the p)) m) [] ps))"

definition parseABFloat :: "rat \<Rightarrow> rat \<Rightarrow> string \<Rightarrow> rat option" where
  "parseABFloat lo hi v = (case parse_float v of None \<Rightarrow> None | Some f \<Rightarrow> if f < lo \<or> hi < f then None else Some f)"

definition parseABInt :: "int \<Rightarrow> int \<Rightarrow> string \<Rightarrow> int option" where
  "parseABInt lo hi v = (case atoi v of None \<Rightarrow> None | Some n \<Rightarrow> if n < lo \<or> hi < n then None else Some n)"

definition parseABDuration :: "duration \<Rightarrow> duration \<Rightarrow> string \<Rightarrow> duration option" where
  "parseABDuration lo hi v = (case parse_duration v of None \<Rightarrow> None | Some d \<Rightarrow> if d < lo \<or> hi < d then None else Some d)"

definition parseABBool :: "string \<Rightarrow> bool option" where
  "parseABBool v = (if v = ''true'' then Some True else if v = ''false'' then Some False else None)"

definition parseUnix :: "string \<Rightarrow> int option" where
  "parseUnix v = (case atoi v of None \<Rightarrow> None | Some n \<Rightarrow> if n \<le> 0 then None else Some n)"

subsection \<open>The parser\<close>

definition ab_defaults :: "string \<Rightarrow> abConfig" where
  "ab_defaults i =
     \<lparr>ab_ID = i, ab_Assign = ''cookie'', ab_Header = [], ab_Split = 10, ab_Groups = [],
      ab_UIDCookie = ''ab_uid'', ab_GroupCookie = ''ab_group'', ab_Anon = True,
      ab_SessionIdle = 30 * minute, ab_PinRefresh = 5 * minute, ab_MaxSession = 24 * hour,
      ab_Started = 0, ab_Epoch = 0, ab_Phase = abPhaseRunning, ab_PhaseAt = 0, ab_AbortReason = [],
      ab_Exclude = [], ab_Static = [abDefaultStatic], ab_CookieJS = False, ab_Override = False,
      ab_AutoAbort = True, ab_MinSamples = 500, ab_MinRuntime = 15 * minute, ab_Warmup = 3 * minute,
      ab_Window = 5 * minute, ab_Windows = 2, ab_WindowMinSamples = 50,
      ab_ErrDelta = 2, ab_ErrRatio = 2, ab_P95Ratio = 3 / 2, ab_P95Slack = second div 5\<rparr>"

text \<open>The configuration so far, and the labels warned about.\<close>

type_synonym ab_parse = "abConfig \<times> (string \<times> string) list"

definition ab_field :: "label_map \<Rightarrow> string \<Rightarrow> (string \<Rightarrow> 'a option) \<Rightarrow> ('a \<Rightarrow> abConfig \<Rightarrow> abConfig) \<Rightarrow> ab_parse \<Rightarrow> ab_parse" where
  "ab_field labels key parse store st =
     (let v = label labels key
      in if v = [] then st
         else case parse v of
           Some x \<Rightarrow> (store x (fst st), snd st)
         | None \<Rightarrow> (fst st, snd st @ [(key, v)]))"

definition parse_assign :: "string \<Rightarrow> (string \<times> string option) option" where
  "parse_assign v =
     (if v = ''cookie'' \<or> v = ''random'' then Some (v, None)
      else if has_prefix v ''header:''
      then (let name = trim_prefix v ''header:''; canon = canonicalKey name
            in if isToken name \<and> canon \<noteq> ''Cookie'' \<and> canon \<noteq> ''Host'' then Some (''header'', Some canon) else None)
      else None)"

definition parse_token :: "string \<Rightarrow> string option" where
  "parse_token v = (if isToken v then Some v else None)"

definition parse_phase :: "string \<Rightarrow> string option" where
  "parse_phase v = (if v \<in> {abPhaseRunning, abPhaseAborted, abPhasePromoting, abPhaseDiscarding} then Some v else None)"

definition parse_reason :: "string \<Rightarrow> string option" where
  "parse_reason v = (if v \<in> {''errors'', ''latency'', ''manual''} then Some v else None)"

definition parse_stamp :: "instant \<Rightarrow> string \<Rightarrow> int option" where
  "parse_stamp now v =
     (let day = 86400; nowUnix = now div second
      in case parseUnix v of
           None \<Rightarrow> None
         | Some n \<Rightarrow> if nowUnix - 90 * day \<le> n \<and> n \<le> nowUnix + day then Some n else None)"

definition parse_static :: "string \<Rightarrow> string list option" where
  "parse_static v = (if v = ''none'' then Some [] else parsePrefixes v)"

definition ab_clampRefresh :: "ab_parse \<Rightarrow> ab_parse" where
  "ab_clampRefresh st =
     (let c = fst st; half = go_div (ab_SessionIdle c) 2
      in if half < ab_PinRefresh c then (c\<lparr>ab_PinRefresh := half\<rparr>, snd st) else st)"

definition ab_pinRefresh :: "label_map \<Rightarrow> ab_parse \<Rightarrow> ab_parse" where
  "ab_pinRefresh labels st =
     ab_field labels labelABPinRefresh (parseABDuration minute (go_div (ab_SessionIdle (fst st)) 2))
       (\<lambda>d c. c\<lparr>ab_PinRefresh := d\<rparr>) st"

definition parse_basic :: "label_map \<Rightarrow> ab_parse \<Rightarrow> ab_parse" where
  "parse_basic ls st =
     (let s1 = ab_field ls labelABAssign parse_assign
                 (\<lambda>(a, h) c. case h of None \<Rightarrow> c\<lparr>ab_Assign := a\<rparr> | Some x \<Rightarrow> c\<lparr>ab_Assign := a, ab_Header := x\<rparr>) st;
          s2 = ab_field ls labelABSplit (parseABInt 0 100) (\<lambda>n c. c\<lparr>ab_Split := n\<rparr>) s1;
          s3 = ab_field ls labelABGroups parseABGroups (\<lambda>m c. c\<lparr>ab_Groups := m\<rparr>) s2;
          s4 = ab_field ls labelABUIDCookie parse_token (\<lambda>v c. c\<lparr>ab_UIDCookie := v\<rparr>) s3;
          s5 = ab_field ls labelABGroupCookie parse_token (\<lambda>v c. c\<lparr>ab_GroupCookie := v\<rparr>) s4;
          s6 = ab_field ls labelABAnon parseABBool (\<lambda>b c. c\<lparr>ab_Anon := b\<rparr>) s5;
          s7 = ab_field ls labelABCookieJS parseABBool (\<lambda>b c. c\<lparr>ab_CookieJS := b\<rparr>) s6;
          s8 = ab_field ls labelABOverride parseABBool (\<lambda>b c. c\<lparr>ab_Override := b\<rparr>) s7
      in ab_field ls labelABAutoAbort parseABBool (\<lambda>b c. c\<lparr>ab_AutoAbort := b\<rparr>) s8)"

definition parse_durations :: "label_map \<Rightarrow> ab_parse \<Rightarrow> ab_parse" where
  "parse_durations ls st =
     (let s1 = ab_field ls labelABSessionIdle (parseABDuration (5 * minute) (24 * hour)) (\<lambda>d c. c\<lparr>ab_SessionIdle := d\<rparr>) st;
          s2 = ab_field ls labelABMaxSession (parseABDuration hour (7 * 24 * hour)) (\<lambda>d c. c\<lparr>ab_MaxSession := d\<rparr>) s1;
          s3 = ab_field ls labelABMinRuntime (parseABDuration 0 (24 * hour)) (\<lambda>d c. c\<lparr>ab_MinRuntime := d\<rparr>) s2;
          s4 = ab_field ls labelABWarmup (parseABDuration 0 hour) (\<lambda>d c. c\<lparr>ab_Warmup := d\<rparr>) s3;
          s5 = ab_field ls labelABWindow (parseABDuration minute hour) (\<lambda>d c. c\<lparr>ab_Window := d\<rparr>) s4;
          s6 = ab_field ls labelABP95Slack (parseABDuration 0 (60 * second)) (\<lambda>d c. c\<lparr>ab_P95Slack := d\<rparr>) s5
      in ab_pinRefresh ls (ab_clampRefresh s6))"

definition parse_thresholds :: "label_map \<Rightarrow> ab_parse \<Rightarrow> ab_parse" where
  "parse_thresholds ls st =
     (let s1 = ab_field ls labelABMinSamples (parseABInt 1 10000000) (\<lambda>n c. c\<lparr>ab_MinSamples := n\<rparr>) st;
          s2 = ab_field ls labelABWindows (parseABInt 1 12) (\<lambda>n c. c\<lparr>ab_Windows := n\<rparr>) s1;
          s3 = ab_field ls labelABWindowMinSamples (parseABInt 1 1000000) (\<lambda>n c. c\<lparr>ab_WindowMinSamples := n\<rparr>) s2;
          s4 = ab_field ls labelABErrDelta (parseABFloat (1 / 10) 100) (\<lambda>f c. c\<lparr>ab_ErrDelta := f\<rparr>) s3;
          s5 = ab_field ls labelABErrRatio (parseABFloat 1 100) (\<lambda>f c. c\<lparr>ab_ErrRatio := f\<rparr>) s4
      in ab_field ls labelABP95Ratio (parseABFloat 1 100) (\<lambda>f c. c\<lparr>ab_P95Ratio := f\<rparr>) s5)"

definition parse_lifecycle :: "label_map \<Rightarrow> instant \<Rightarrow> ab_parse \<Rightarrow> ab_parse" where
  "parse_lifecycle ls now st =
     (let s1 = ab_field ls labelABStarted (parse_stamp now) (\<lambda>n c. c\<lparr>ab_Started := n\<rparr>) st;
          s2 = ab_field ls labelABEpoch (parse_stamp now) (\<lambda>n c. c\<lparr>ab_Epoch := n\<rparr>) s1;
          s3 = ab_field ls labelABPhaseAt (parse_stamp now) (\<lambda>n c. c\<lparr>ab_PhaseAt := n\<rparr>) s2;
          s4 = ab_field ls labelABPhase parse_phase (\<lambda>v c. c\<lparr>ab_Phase := v\<rparr>) s3;
          s5 = ab_field ls labelABAbortReason parse_reason (\<lambda>v c. c\<lparr>ab_AbortReason := v\<rparr>) s4;
          s6 = ab_field ls labelABExclude parsePrefixes (\<lambda>ps c. c\<lparr>ab_Exclude := ps\<rparr>) s5
      in ab_field ls labelABStatic parse_static (\<lambda>ps c. c\<lparr>ab_Static := ps\<rparr>) s6)"

definition parseABConfig :: "label_map \<Rightarrow> instant \<Rightarrow> ab_parse" where
  "parseABConfig ls now =
     parse_lifecycle ls now (parse_thresholds ls (parse_durations ls (parse_basic ls (ab_defaults (label ls labelABID), []))))"

subsection \<open>Rendering\<close>

text \<open>\<^verbatim>\<open>time.Duration.String\<close> of a non-negative duration.\<close>

definition frac_digits :: "nat \<Rightarrow> nat \<Rightarrow> string" where
  "frac_digits n width =
     (let ds = nat_str n; padded = replicate (width - length ds) CHR ''0'' @ ds
      in rev (dropWhile (\<lambda>c. c = CHR ''0'') (rev padded)))"

definition with_frac :: "nat \<Rightarrow> nat \<Rightarrow> nat \<Rightarrow> string" where
  "with_frac whole fr width =
     nat_str whole @ (let ds = frac_digits fr width in if fr = 0 then [] else ''.'' @ ds)"

definition dur_string :: "duration \<Rightarrow> string" where
  "dur_string d =
     (let u = nat d
      in if u = 0 then ''0s''
         else if u < 1000 then nat_str u @ ''ns''
         else if u < 1000000 then with_frac (u div 1000) (u mod 1000) 3 @ [char_of (194 :: nat), char_of (181 :: nat), CHR ''s'']
         else if u < 1000000000 then with_frac (u div 1000000) (u mod 1000000) 6 @ ''ms''
         else let secs = u div 1000000000;
                  s = with_frac (secs mod 60) (u mod 1000000000) 9 @ ''s'';
                  m = secs div 60
              in if m = 0 then s
                 else if m div 60 = 0 then nat_str m @ ''m'' @ s
                 else nat_str (m div 60) @ ''h'' @ nat_str (m mod 60) @ ''m'' @ s)"

definition format_bool :: "bool \<Rightarrow> string" where
  "format_bool b = (if b then ''true'' else ''false'')"

text \<open>\<open>fmt\<close> is \<^verbatim>\<open>strconv.FormatFloat(f, 'g', -1, 64)\<close>, the shortest decimal of a float.\<close>

definition ab_labels :: "(rat \<Rightarrow> string) \<Rightarrow> abConfig \<Rightarrow> label_map" where
  "ab_labels fmt c =
     (let assign = (if ab_Assign c = ''header'' then ''header:'' @ ab_Header c else ab_Assign c);
          groups = sort (map (\<lambda>(n, v). n @ '':'' @ v) (ab_Groups c));
          static = (if ab_Static c = [] then ''none'' else join '','' (ab_Static c));
          stamp = (\<lambda>k n. if n = 0 then [] else [(k, itoa n)])
      in [(labelABVariant, abVariantB), (labelABID, ab_ID c), (labelABAssign, assign), (labelABSplit, itoa (ab_Split c)),
          (labelABGroups, join '','' groups), (labelABUIDCookie, ab_UIDCookie c), (labelABGroupCookie, ab_GroupCookie c),
          (labelABAnon, format_bool (ab_Anon c)), (labelABSessionIdle, dur_string (ab_SessionIdle c)),
          (labelABPinRefresh, dur_string (ab_PinRefresh c)), (labelABMaxSession, dur_string (ab_MaxSession c))] @
         stamp labelABStarted (ab_Started c) @ stamp labelABEpoch (ab_Epoch c) @
         [(labelABPhase, ab_Phase c)] @ stamp labelABPhaseAt (ab_PhaseAt c) @
         [(labelABAbortReason, ab_AbortReason c), (labelABExclude, join '','' (ab_Exclude c)), (labelABStatic, static),
          (labelABCookieJS, format_bool (ab_CookieJS c)), (labelABOverride, format_bool (ab_Override c)),
          (labelABAutoAbort, format_bool (ab_AutoAbort c)), (labelABMinSamples, itoa (ab_MinSamples c)),
          (labelABMinRuntime, dur_string (ab_MinRuntime c)), (labelABWarmup, dur_string (ab_Warmup c)),
          (labelABWindow, dur_string (ab_Window c)), (labelABWindows, itoa (ab_Windows c)),
          (labelABWindowMinSamples, itoa (ab_WindowMinSamples c)), (labelABErrDelta, fmt (ab_ErrDelta c)),
          (labelABErrRatio, fmt (ab_ErrRatio c)), (labelABP95Ratio, fmt (ab_P95Ratio c)),
          (labelABP95Slack, dur_string (ab_P95Slack c))])"

subsection \<open>The scan\<close>

record abScanResult =
  as_configs :: "(string \<times> abConfig) list"
  as_bNames :: "string list"
  as_excluded :: "string list"

text \<open>What one container contributes: nothing, its exclusion, or a candidate for its service.\<close>

datatype ab_class = ABNone | ABExcluded string | ABCand string string string label_map

definition ab_classify :: "dockerContainer \<Rightarrow> ab_class" where
  "ab_classify c =
     (case map_of (dc_Labels c) labelABVariant of
        None \<Rightarrow> ABNone
      | Some v \<Rightarrow>
          if v = abVariantA then ABNone
          else let name = container_name c
               in if v \<noteq> abVariantB then ABExcluded name
                  else let i = label (dc_Labels c) labelABID; svc = label (dc_Labels c) labelService
                       in if \<not> abIDRe i then ABExcluded name
                          else if svc = [] then ABExcluded name
                          else ABCand svc name i (dc_Labels c))"

fun cand_of :: "ab_class \<Rightarrow> (string \<times> string \<times> string \<times> label_map) option" where
  "cand_of (ABCand svc name i ls) = Some (svc, i, name, ls)"
| "cand_of _ = None"

fun excl_of :: "ab_class \<Rightarrow> string option" where
  "excl_of (ABExcluded name) = Some name"
| "excl_of _ = None"

text \<open>
  One service: the candidates ordered by id and then by name; the first one wins, the others of its id are B, the
  rest are excluded, and the winner's labels are the configuration.
\<close>

definition ab_service :: "(string \<times> string) list \<Rightarrow> (string \<times> string) \<times> string list \<times> string list" where
  "ab_service cs =
     (let s = sort cs; win = hd s
      in (win, map snd (filter (\<lambda>(i, n). i = fst win) s), map snd (filter (\<lambda>(i, n). i \<noteq> fst win) s)))"

definition abScan :: "dockerContainer list \<Rightarrow> instant \<Rightarrow> abScanResult" where
  "abScan containers now =
     (let cls = map ab_classify containers;
          cands = List.map_filter cand_of cls;
          svcs = remdups (map fst cands);
          byName = foldl (\<lambda>m (svc, i, name, ls). AList.update name ls m) [] cands;
          bySvc = (\<lambda>s. map (\<lambda>(svc, i, name, ls). (i, name)) (filter (\<lambda>p. fst p = s) cands));
          res = map (\<lambda>s. (s, ab_service (bySvc s))) svcs
      in \<lparr>as_configs = map (\<lambda>(s, (win, _)). (s, fst (parseABConfig (case map_of byName (snd win) of None \<Rightarrow> [] | Some ls \<Rightarrow> ls) now))) res,
          as_bNames = concat (map (\<lambda>(s, (_, bs, _)). bs) res),
          as_excluded = List.map_filter excl_of cls @ concat (map (\<lambda>(s, (_, _, xs)). xs) res)\<rparr>)"

subsection \<open>Properties of the parser\<close>

text \<open>What the rest of the code relies on in a parsed configuration.\<close>

definition config_mid :: "abConfig \<Rightarrow> bool" where
  "config_mid c \<longleftrightarrow>
     (ab_Assign c \<in> {''cookie'', ''random''} \<or> ab_Assign c = ''header'' \<and> ab_Header c \<notin> {''Cookie'', ''Host''}) \<and>
     0 \<le> ab_Split c \<and> ab_Split c \<le> 100 \<and>
     list_all (\<lambda>(n, v). abGroupNameRe n \<and> (v = abVariantA \<or> v = abVariantB)) (ab_Groups c) \<and>
     isToken (ab_UIDCookie c) \<and> isToken (ab_GroupCookie c) \<and>
     5 * minute \<le> ab_SessionIdle c \<and> ab_SessionIdle c \<le> 24 * hour \<and>
     minute \<le> ab_PinRefresh c \<and>
     hour \<le> ab_MaxSession c \<and> ab_MaxSession c \<le> 7 * 24 * hour \<and>
     0 \<le> ab_Warmup c \<and> ab_Warmup c \<le> hour \<and> minute \<le> ab_Window c \<and> ab_Window c \<le> hour \<and>
     0 \<le> ab_MinRuntime c \<and> ab_MinRuntime c \<le> 24 * hour \<and> 0 \<le> ab_P95Slack c \<and> ab_P95Slack c \<le> 60 * second \<and>
     1 \<le> ab_MinSamples c \<and> 1 \<le> ab_Windows c \<and> ab_Windows c \<le> 12 \<and> 1 \<le> ab_WindowMinSamples c \<and>
     1 / 10 \<le> ab_ErrDelta c \<and> 1 \<le> ab_ErrRatio c \<and> 1 \<le> ab_P95Ratio c \<and>
     0 \<le> ab_Started c \<and> 0 \<le> ab_Epoch c \<and> 0 \<le> ab_PhaseAt c \<and>
     ab_Phase c \<in> {abPhaseRunning, abPhaseAborted, abPhasePromoting, abPhaseDiscarding} \<and>
     length (ab_Exclude c) \<le> abMaxPrefixes \<and> length (ab_Static c) \<le> abMaxPrefixes"

definition config_ok :: "abConfig \<Rightarrow> bool" where
  "config_ok c \<longleftrightarrow> config_mid c \<and> 2 * ab_PinRefresh c \<le> ab_SessionIdle c"

lemma ab_field_pres:
  assumes "P (fst st)" and "\<And>v x c. parse v = Some x \<Longrightarrow> P c \<Longrightarrow> P (store x c)"
  shows "P (fst (ab_field ls key parse store st))"
  using assms by (auto simp: ab_field_def Let_def split: option.split)

lemma parse_SomeD:
  "parseABInt lo hi v = Some n \<Longrightarrow> lo \<le> n \<and> n \<le> hi"
  "parseABFloat a b v = Some f \<Longrightarrow> a \<le> f \<and> f \<le> b"
  "parseABDuration l h v = Some d \<Longrightarrow> l \<le> d \<and> d \<le> h"
  "parseUnix v = Some n \<Longrightarrow> 0 < n"
  "parse_stamp now v = Some n \<Longrightarrow> 0 < n"
  "parse_token v = Some s \<Longrightarrow> isToken s"
  "parse_phase v = Some s \<Longrightarrow> s \<in> {abPhaseRunning, abPhaseAborted, abPhasePromoting, abPhaseDiscarding}"
  "parsePrefixes v = Some ps \<Longrightarrow> length ps \<le> abMaxPrefixes"
  "parse_static v = Some ps \<Longrightarrow> length ps \<le> abMaxPrefixes"
  by (auto simp: parseABInt_def parseABFloat_def parseABDuration_def parseUnix_def parse_stamp_def Let_def
      parse_token_def parse_phase_def parsePrefixes_def parse_static_def split: option.splits if_splits)

lemma parseABGroup_ok:
  "parseABGroup p = Some q \<Longrightarrow> abGroupNameRe (fst q) \<and> (snd q = abVariantA \<or> snd q = abVariantB)"
  by (auto simp: parseABGroup_def split: option.splits if_splits)

lemma parseABGroups_ok:
  assumes "parseABGroups v = Some m"
  shows "list_all (\<lambda>(n, v). abGroupNameRe n \<and> (v = abVariantA \<or> v = abVariantB)) m"
proof -
  let ?P = "\<lambda>(n, v). abGroupNameRe n \<and> (v = abVariantA \<or> v = abVariantB)"
  have step: "list_all ?P (AList.update a b m)" if "list_all ?P m" "?P (a, b)" for a b m
    using that set_update_subset [of a b m] by (auto simp: list_all_iff)
  have "list_all ?P (foldl (\<lambda>m p. AList.update (fst (the p)) (snd (the p)) m) m0 ps)"
    if "list_all ?P m0" "\<forall>p\<in>set ps. \<exists>q. p = Some q \<and> ?P q" for ps m0
    using that
  proof (induction ps arbitrary: m0)
    case (Cons p ps)
    then obtain q where "p = Some q" "?P q" by auto
    with Cons step [of m0 "fst q" "snd q"] show ?case by (cases q) simp
  qed simp
  moreover have "\<exists>q. p = Some q \<and> ?P q"
    if "p \<in> set (map parseABGroup (splitTrimmed v))" "None \<notin> set (map parseABGroup (splitTrimmed v))" for p
  proof -
    from that(1) obtain x where x: "p = parseABGroup x" by auto
    have "p \<noteq> None"
    proof
      assume "p = None"
      with that(1) have "None \<in> set (map parseABGroup (splitTrimmed v))" by simp
      with that(2) show False by (rule notE)
    qed
    then obtain q where "p = Some q" by blast
    with x have "p = Some q" "parseABGroup x = Some q" by simp_all
    with parseABGroup_ok [of x q] show ?thesis by (cases q) simp
  qed
  ultimately show ?thesis using assms by (auto simp: parseABGroups_def Let_def split: if_splits)
qed

lemma config_mid_defaults: "config_mid (ab_defaults i)"
proof -
  have "isToken ''ab_uid''" "isToken ''ab_group''" by code_simp+
  then show ?thesis by (simp add: config_mid_def ab_defaults_def time_units abMaxPrefixes_def)
qed

lemma parse_assign_ok:
  "parse_assign v = Some p \<Longrightarrow> snd p = None \<and> fst p \<in> {''cookie'', ''random''} \<or>
     (\<exists>h. p = (''header'', Some h) \<and> h \<notin> {''Cookie'', ''Host''})"
  by (auto simp: parse_assign_def Let_def split: if_splits)

lemma parse_basic_mid:
  assumes "config_mid (fst st)"
  shows "config_mid (fst (parse_basic ls st))"
  unfolding parse_basic_def Let_def
  by (intro ab_field_pres [of config_mid] assms;
      (drule parse_SomeD parseABGroups_ok parse_assign_ok)?; (erule disjE exE)?; clarsimp simp: config_mid_def)

lemma parse_thresholds_mid: "config_mid (fst st) \<Longrightarrow> config_mid (fst (parse_thresholds ls st))"
  unfolding parse_thresholds_def Let_def
  by (intro ab_field_pres [of config_mid]; assumption?; drule parse_SomeD; clarsimp simp: config_mid_def)

lemma parse_thresholds_refresh:
  "2 * ab_PinRefresh (fst st) \<le> ab_SessionIdle (fst st) \<Longrightarrow>
   2 * ab_PinRefresh (fst (parse_thresholds ls st)) \<le> ab_SessionIdle (fst (parse_thresholds ls st))"
  unfolding parse_thresholds_def Let_def
  by (intro ab_field_pres [of "\<lambda>c. 2 * ab_PinRefresh c \<le> ab_SessionIdle c"]; simp)

lemma parse_lifecycle_mid: "config_mid (fst st) \<Longrightarrow> config_mid (fst (parse_lifecycle ls now st))"
  unfolding parse_lifecycle_def Let_def
  by (intro ab_field_pres [of config_mid]; assumption?; (drule parse_SomeD)?; clarsimp simp: config_mid_def)

lemma parse_lifecycle_refresh:
  "2 * ab_PinRefresh (fst st) \<le> ab_SessionIdle (fst st) \<Longrightarrow>
   2 * ab_PinRefresh (fst (parse_lifecycle ls now st)) \<le> ab_SessionIdle (fst (parse_lifecycle ls now st))"
  unfolding parse_lifecycle_def Let_def
  by (intro ab_field_pres [of "\<lambda>c. 2 * ab_PinRefresh c \<le> ab_SessionIdle c"]; simp)

lemma half_le: "0 \<le> (a::int) \<Longrightarrow> d \<le> go_div a 2 \<Longrightarrow> 2 * d \<le> a"
  by (auto simp: go_div_def sgn_if split: if_splits)

lemma ab_clamp_ok: "config_mid (fst st) \<Longrightarrow> config_ok (fst (ab_clampRefresh st))"
proof -
  assume m: "config_mid (fst st)"
  then have idle: "5 * minute \<le> ab_SessionIdle (fst st)" by (simp add: config_mid_def)
  then have half: "minute \<le> go_div (ab_SessionIdle (fst st)) 2" "0 \<le> ab_SessionIdle (fst st)"
    by (simp_all add: go_div_def time_units)
  with m show ?thesis
    by (simp add: ab_clampRefresh_def Let_def config_ok_def half_le) (simp add: config_mid_def)
qed

lemma ab_pinRefresh_ok:
  assumes "config_ok (fst st)"
  shows "config_ok (fst (ab_pinRefresh ls st))"
proof -
  have nn: "0 \<le> ab_SessionIdle (fst st)" using assms by (simp add: config_ok_def config_mid_def time_units)
  have "config_ok (fst st\<lparr>ab_PinRefresh := d\<rparr>)"
    if "parseABDuration minute (go_div (ab_SessionIdle (fst st)) 2) v = Some d" for v d
    using parse_SomeD(3) [OF that] half_le [OF nn, of d] assms by (simp add: config_ok_def config_mid_def)
  then show ?thesis using assms by (auto simp: ab_pinRefresh_def ab_field_def Let_def split: option.split)
qed

lemma parse_durations_ok:
  assumes "config_mid (fst st)"
  shows "config_ok (fst (parse_durations ls st))"
  unfolding parse_durations_def Let_def
  by (intro ab_pinRefresh_ok ab_clamp_ok ab_field_pres [of config_mid] assms; drule parse_SomeD; clarsimp simp: config_mid_def)

text \<open>
  Whatever the labels say, the configuration that comes out of the parser is within the documented bounds:
  a valid assignment mode, a split between 0 and 100, a positive window length (so window
  indices never divide by zero), at least one judged window, and a pin refresh of at most half the
  session idle time.
\<close>

theorem parseABConfig_bounds: "config_ok (fst (parseABConfig ls now))"
proof -
  have d: "config_ok (fst (parse_durations ls (parse_basic ls (ab_defaults (label ls labelABID), []))))"
    by (simp add: parse_durations_ok parse_basic_mid config_mid_defaults)
  then show ?thesis
    unfolding parseABConfig_def config_ok_def
    by (simp add: parse_lifecycle_mid parse_thresholds_mid parse_lifecycle_refresh parse_thresholds_refresh)
qed

subsection \<open>Properties of the scan\<close>

lemma hd_sort_least:
  fixes xs :: "'a :: linorder list"
  assumes "xs \<noteq> []"
  shows "hd (sort xs) \<in> set xs" "x \<in> set xs \<Longrightarrow> hd (sort xs) \<le> x"
proof -
  obtain y ys where s: "sort xs = y # ys" using assms by (metis list.exhaust set_sort set_empty)
  show "hd (sort xs) \<in> set xs" using s by (metis list.sel(1) list.set_intros(1) set_sort)
  show "hd (sort xs) \<le> x" if "x \<in> set xs"
    using that s sorted_sort [of xs] by (metis list.sel(1) set_ConsD set_sort sorted_simps(2) order_refl)
qed

lemma win_least:
  assumes "(i, n) \<in> set cs"
  shows "\<exists>m. (fst (hd (sort cs)), m) \<in> set cs" "fst (hd (sort cs)) \<le> i"
proof -
  have ne: "cs \<noteq> []" using assms by auto
  show "\<exists>m. (fst (hd (sort cs)), m) \<in> set cs"
    using hd_sort_least(1) [OF ne] by (metis prod.collapse)
  show "fst (hd (sort cs)) \<le> i"
    using hd_sort_least(2) [OF ne assms] by (cases "hd (sort cs)") (auto simp: less_eq_prod_def)
qed

lemma win_iff: "(i, n) \<in> set cs \<Longrightarrow> i = fst (hd (sort cs)) \<longleftrightarrow> (\<forall>(j, m)\<in>set cs. i \<le> j)"
proof
  assume m: "(i, n) \<in> set cs"
  show "i = fst (hd (sort cs)) \<Longrightarrow> \<forall>(j, m)\<in>set cs. i \<le> j" using win_least(2) by fast
  assume "\<forall>(j, m)\<in>set cs. i \<le> j"
  moreover obtain k where "(fst (hd (sort cs)), k) \<in> set cs" using win_least(1) [OF m] by blast
  ultimately have "i \<le> fst (hd (sort cs))" by fast
  with win_least(2) [OF m] show "i = fst (hd (sort cs))" by (rule antisym [rotated])
qed

lemma ab_service_B: "n \<in> set (fst (snd (ab_service cs))) \<longleftrightarrow> (\<exists>i. (i, n) \<in> set cs \<and> (\<forall>(j, m)\<in>set cs. i \<le> j))"
proof -
  have "n \<in> set (fst (snd (ab_service cs))) \<longleftrightarrow> (\<exists>i. (i, n) \<in> set cs \<and> i = fst (hd (sort cs)))"
    by (force simp: ab_service_def Let_def)
  then show ?thesis using win_iff by blast
qed

lemma ab_service_X: "n \<in> set (snd (snd (ab_service cs))) \<longleftrightarrow> (\<exists>i. (i, n) \<in> set cs \<and> \<not> (\<forall>(j, m)\<in>set cs. i \<le> j))"
proof -
  have "n \<in> set (snd (snd (ab_service cs))) \<longleftrightarrow> (\<exists>i. (i, n) \<in> set cs \<and> i \<noteq> fst (hd (sort cs)))"
    by (force simp: ab_service_def Let_def)
  then show ?thesis using win_iff by blast
qed

definition cands_of :: "dockerContainer list \<Rightarrow> (string \<times> string \<times> string \<times> label_map) list" where
  "cands_of cs = List.map_filter cand_of (map ab_classify cs)"

lemma cands_of_mem:
  "(svc, i, n, ls) \<in> set (cands_of cs) \<longleftrightarrow> (\<exists>c\<in>set cs. ab_classify c = ABCand svc n i ls)"
proof -
  have "cand_of a = Some (svc, i, n, ls) \<longleftrightarrow> a = ABCand svc n i ls" for a by (cases a) auto
  then show ?thesis by (force simp: cands_of_def List.map_filter_def)
qed

lemma excl_of_mem: "n \<in> set (List.map_filter excl_of (map ab_classify cs)) \<longleftrightarrow> (\<exists>c\<in>set cs. ab_classify c = ABExcluded n)"
proof -
  have "excl_of a = Some n \<longleftrightarrow> a = ABExcluded n" for a by (cases a) auto
  then show ?thesis by (force simp: List.map_filter_def)
qed

definition svc_cands :: "dockerContainer list \<Rightarrow> string \<Rightarrow> (string \<times> string) list" where
  "svc_cands cs s = map (\<lambda>(svc, i, name, ls). (i, name)) (filter (\<lambda>p. fst p = s) (cands_of cs))"

lemma svc_cands_mem: "(i, n) \<in> set (svc_cands cs s) \<longleftrightarrow> (\<exists>c\<in>set cs. \<exists>ls. ab_classify c = ABCand s n i ls)"
proof -
  have "(i, n) \<in> set (svc_cands cs s) \<longleftrightarrow> (\<exists>ls. (s, i, n, ls) \<in> set (cands_of cs))"
    by (auto simp: svc_cands_def image_iff)
  then show ?thesis by (auto simp: cands_of_mem)
qed

lemma svc_cands_svc: "(i, n) \<in> set (svc_cands cs s) \<Longrightarrow> s \<in> fst ` set (cands_of cs)"
  by (force simp: svc_cands_def)

lemma abScan_B:
  "n \<in> set (as_bNames (abScan cs now)) \<longleftrightarrow>
   (\<exists>s i. (i, n) \<in> set (svc_cands cs s) \<and> (\<forall>(j, m)\<in>set (svc_cands cs s). i \<le> j))"
proof -
  have "n \<in> set (as_bNames (abScan cs now)) \<longleftrightarrow>
      (\<exists>s\<in>fst ` set (cands_of cs). n \<in> set (fst (snd (ab_service (svc_cands cs s)))))"
    by (simp add: abScan_def Let_def cands_of_def [symmetric] svc_cands_def case_prod_unfold)
  then show ?thesis unfolding ab_service_B using svc_cands_svc by blast
qed

lemma abScan_X:
  "n \<in> set (as_excluded (abScan cs now)) \<longleftrightarrow>
   (\<exists>c\<in>set cs. ab_classify c = ABExcluded n) \<or>
   (\<exists>s i. (i, n) \<in> set (svc_cands cs s) \<and> \<not> (\<forall>(j, m)\<in>set (svc_cands cs s). i \<le> j))"
proof -
  have "n \<in> set (as_excluded (abScan cs now)) \<longleftrightarrow> n \<in> set (List.map_filter excl_of (map ab_classify cs)) \<or>
      (\<exists>s\<in>fst ` set (cands_of cs). n \<in> set (snd (snd (ab_service (svc_cands cs s)))))"
    by (simp add: abScan_def Let_def cands_of_def [symmetric] svc_cands_def case_prod_unfold)
  then show ?thesis unfolding ab_service_X excl_of_mem using svc_cands_svc by blast
qed

lemma classify_name: "ab_classify c = ABCand s n i ls \<Longrightarrow> n = container_name c" "ab_classify c = ABExcluded n \<Longrightarrow> n = container_name c"
  by (auto simp: ab_classify_def Let_def split: option.splits if_splits)

text \<open>
  (C38) The scan fails closed: with distinct container names, every container that carries a variant label other
  than A is either a B backend or excluded from routing, never both and never treated as A; it is a B backend
  exactly when its label is B, its id is well formed, it names a service, and no candidate of that service
  has a smaller id, so a service never mixes two tests.
\<close>

theorem abScan_fail_closed:
  assumes "distinct (map container_name cs)" and "c \<in> set cs"
    and "map_of (dc_Labels c) labelABVariant = Some v" and "v \<noteq> abVariantA"
  shows "(container_name c \<in> set (as_bNames (abScan cs now)) \<longleftrightarrow> container_name c \<notin> set (as_excluded (abScan cs now))) \<and>
    (container_name c \<in> set (as_bNames (abScan cs now)) \<longleftrightarrow>
       v = abVariantB \<and> abIDRe (label (dc_Labels c) labelABID) \<and> label (dc_Labels c) labelService \<noteq> [] \<and>
       (\<forall>(j, m)\<in>set (svc_cands cs (label (dc_Labels c) labelService)). label (dc_Labels c) labelABID \<le> j))"
proof -
  have uniq: "c' = c" if "c' \<in> set cs" "container_name c' = container_name c" for c'
    using that assms(1,2) by (auto simp: distinct_map dest: inj_onD)
  have cand: "(i, container_name c) \<in> set (svc_cands cs s) \<longleftrightarrow> (\<exists>ls. ab_classify c = ABCand s (container_name c) i ls)" for s i
    unfolding svc_cands_mem using assms(2) uniq classify_name(1) by metis
  have excl: "(\<exists>c'\<in>set cs. ab_classify c' = ABExcluded (container_name c)) \<longleftrightarrow> ab_classify c = ABExcluded (container_name c)"
    using assms(2) uniq classify_name(2) by metis
  show ?thesis
    unfolding abScan_B abScan_X excl cand using assms(3,4) by (auto simp: ab_classify_def Let_def)
qed

definition ex_container :: "string \<Rightarrow> label_map \<Rightarrow> dockerContainer" where
  "ex_container n ls = \<lparr>dc_ID = ''id-'' @ n, dc_Names = [''/'' @ n], dc_State = ''running'', dc_Status = ''Up 2 minutes'',
     dc_Labels = ls, dc_Networks = [(''edge'', ''172.18.0.2'')]\<rparr>"

theorem abScan_fail_closed_witness:
  "let cs = [ex_container ''b1'' [(''proxy.ab.variant'', ''B''), (''proxy.ab.id'', ''test2''), (''proxy.service'', ''web'')],
             ex_container ''b2'' [(''proxy.ab.variant'', ''B''), (''proxy.ab.id'', ''test1''), (''proxy.service'', ''web'')]]
   in ''b2'' \<in> set (as_bNames (abScan cs 0)) \<and> ''b1'' \<notin> set (as_bNames (abScan cs 0)) \<and> ''b1'' \<in> set (as_excluded (abScan cs 0))"
proof -
  let ?b1 = "ex_container ''b1'' [(''proxy.ab.variant'', ''B''), (''proxy.ab.id'', ''test2''), (''proxy.service'', ''web'')]"
  let ?b2 = "ex_container ''b2'' [(''proxy.ab.variant'', ''B''), (''proxy.ab.id'', ''test1''), (''proxy.service'', ''web'')]"
  have d: "distinct (map container_name [?b1, ?b2])" by code_simp
  have v: "map_of (dc_Labels ?b1) labelABVariant = Some ''B''" "map_of (dc_Labels ?b2) labelABVariant = Some ''B''"
    "''B'' \<noteq> abVariantA" "container_name ?b1 = ''b1''" "container_name ?b2 = ''b2''" by code_simp+
  have m: "?b1 \<in> set [?b1, ?b2]" "?b2 \<in> set [?b1, ?b2]" by simp_all
  have s: "set (svc_cands [?b1, ?b2] (label (dc_Labels ?b2) labelService)) = {(''test2'', ''b1''), (''test1'', ''b2'')}"
    "set (svc_cands [?b1, ?b2] (label (dc_Labels ?b1) labelService)) = {(''test2'', ''b1''), (''test1'', ''b2'')}"
    "label (dc_Labels ?b2) labelABID = ''test1''" "label (dc_Labels ?b1) labelABID = ''test2''"
    "label (dc_Labels ?b2) labelService \<noteq> []" "abIDRe ''test1''" "''test1'' \<le> ''test2''" "\<not> ''test2'' \<le> ''test1''"
    "''B'' = abVariantB"
    by code_simp+
  have b1: "''b1'' \<notin> set (as_bNames (abScan [?b1, ?b2] 0)) \<and> ''b1'' \<in> set (as_excluded (abScan [?b1, ?b2] 0))"
    using abScan_fail_closed [OF d m(1) v(1,3), of 0] unfolding v(4) s(2,4) using s(8) by auto
  have "''b2'' \<in> set (as_bNames (abScan [?b1, ?b2] 0))"
    using abScan_fail_closed [OF d m(2) v(2,3), of 0] unfolding v(5) s(1,3) using s(5-7,9) by auto
  with b1 show ?thesis unfolding Let_def by blast
qed

end
