(* ===== verification/ABRun.thy ===== *)
theory ABRun
  imports ABConfig "HOL-Library.Multiset"
begin

section \<open>A/B runtime state and judging (\<^verbatim>\<open>cmd/proxy/abtest.go\<close>, \<^verbatim>\<open>cmd/proxy/abmesh.go\<close>)\<close>

text \<open>
  The counters of a test, the tumbling windows, the judge that aborts a bad test, the
  merge of peers' summaries, the abort latch, and the reconciliation of runs with a new set of route
  groups. Counters are 64-bit words. Rates, percentiles and histogram edges are exact rationals where the
  code has float64. A Go array of two elements, one per variant, is a pair.
\<close>

subsection \<open>Counters\<close>

definition abHistBuckets :: nat where "abHistBuckets = 64"
definition abHistRatio :: rat where "abHistRatio = 6 / 5"
definition abRingSize :: nat where "abRingSize = 3"
definition abPinnedCap :: nat where "abPinnedCap = 50000"

definition abHistBounds :: "rat list" where
  "abHistBounds = map (\<lambda>i. abHistRatio ^ Suc i) [0..<abHistBuckets]"

definition abHistBucket :: "rat \<Rightarrow> nat" where
  "abHistBucket ms =
     (let i = length (takeWhile (\<lambda>b. b < ms) abHistBounds) in if abHistBuckets \<le> i then abHistBuckets - 1 else i)"

record abCounters =
  c_Requests :: "64 word"
  c_Err5xx :: "64 word"
  c_Transport :: "64 word"
  c_Failover :: "64 word"
  c_Hist :: "64 word list"

definition noCounters :: abCounters where
  "noCounters = \<lparr>c_Requests = 0, c_Err5xx = 0, c_Transport = 0, c_Failover = 0, c_Hist = replicate abHistBuckets 0\<rparr>"

definition c_add :: "abCounters \<Rightarrow> abCounters \<Rightarrow> abCounters" where
  "c_add c x =
     \<lparr>c_Requests = c_Requests c + c_Requests x, c_Err5xx = c_Err5xx c + c_Err5xx x,
      c_Transport = c_Transport c + c_Transport x, c_Failover = c_Failover c + c_Failover x,
      c_Hist = map2 (+) (c_Hist c) (c_Hist x)\<rparr>"

definition samples :: "abCounters \<Rightarrow> 64 word" where
  "samples c = c_Requests c + c_Transport c + c_Failover c"

definition errRate :: "abCounters \<Rightarrow> rat" where
  "errRate c =
     (let n = samples c
      in if n = 0 then 0 else of_nat (unat (c_Err5xx c + c_Transport c + c_Failover c)) / of_nat (unat n))"

fun pct_scan :: "rat \<Rightarrow> rat \<Rightarrow> nat \<Rightarrow> nat list \<Rightarrow> rat" where
  "pct_scan target cum i [] = last abHistBounds"
| "pct_scan target cum i (n # ns) =
     (if n = 0 then pct_scan target cum (Suc i) ns
      else if target \<le> cum + of_nat n
      then let lo = (if 0 < i then abHistBounds ! (i - 1) else 0)
           in lo + (target - cum) / of_nat n * (abHistBounds ! i - lo)
      else pct_scan target (cum + of_nat n) (Suc i) ns)"

definition percentile :: "abCounters \<Rightarrow> rat \<Rightarrow> rat" where
  "percentile c q =
     (let total = sum_list (c_Hist c)
      in if total = 0 then 0 else pct_scan (q * of_nat (unat total)) 0 0 (map unat (c_Hist c)))"

subsection \<open>State of a run\<close>

record abWindow =
  w_Index :: int
  w_V :: "abCounters \<times> abCounters"

record abSummary =
  s_Cumulative :: "abCounters \<times> abCounters"
  s_Windows :: "abWindow list"

record abJudgeState =
  j_Seen :: bool
  j_LastIdx :: int
  j_Streak :: int
  j_Reason :: string
  j_Detail :: string

record abVerdict =
  v_Abort :: bool
  v_Reason :: string
  v_Detail :: string
  v_Status :: string

record abAbortInfo =
  ai_Reason :: string
  ai_Detail :: string
  ai_At :: int
  ai_Source :: string

record abPinnedReport =
  pr_ActiveSessions :: int
  pr_LastSeen :: int

record abPeerExp =
  x_service :: string
  x_id :: string
  x_cfg :: abConfig
  x_phase :: string
  x_phaseAt :: int
  x_abort :: "abAbortInfo option"
  x_bBackends :: int
  x_pinned :: "abPinnedReport \<times> abPinnedReport"
  x_sum :: abSummary

record abPeerSnap =
  sn_exp :: abPeerExp
  sn_at :: instant

record abRun =
  r_service :: string
  r_id :: string
  r_firstSeen :: int
  r_latched :: bool
  r_cfg :: "abConfig option"
  r_attached :: bool
  r_bLocal :: int
  r_abort :: abAbortInfo
  r_cum :: "abCounters \<times> abCounters"
  r_warm :: "abCounters \<times> abCounters"
  r_ring :: "abWindow list"
  r_js :: abJudgeState
  r_verdict :: abVerdict
  r_failover :: "64 word \<times> 64 word"
  r_draining :: "64 word \<times> 64 word"
  r_hopErrors :: "64 word"
  r_staticFallbacks :: "64 word"
  r_pinnedLast :: "int \<times> int"
  r_pinnedNonces :: "(string \<times> int) list \<times> (string \<times> int) list"
  r_peers :: "(string \<times> abPeerSnap) list"
  r_syncInterval :: duration

text \<open>The element of a two-element array at an index, and its update.\<close>

definition vget :: "'a \<times> 'a \<Rightarrow> nat \<Rightarrow> 'a" where
  "vget p v = (if v = 0 then fst p else snd p)"

definition vmod :: "('a \<Rightarrow> 'a) \<Rightarrow> 'a \<times> 'a \<Rightarrow> nat \<Rightarrow> 'a \<times> 'a" where
  "vmod f p v = (if v = 0 then (f (fst p), snd p) else (fst p, f (snd p)))"

lemma vget_vmod [simp]: "vget (vmod f p v) v = f (vget p v)"
  by (simp add: vget_def vmod_def)

definition noJudge :: abJudgeState where
  "noJudge = \<lparr>j_Seen = False, j_LastIdx = 0, j_Streak = 0, j_Reason = [], j_Detail = []\<rparr>"

definition emptyWindow :: "int \<Rightarrow> abWindow" where
  "emptyWindow i = \<lparr>w_Index = i, w_V = (noCounters, noCounters)\<rparr>"

definition resetRing :: "abRun \<Rightarrow> abRun" where
  "resetRing run = run\<lparr>r_ring := replicate abRingSize (emptyWindow (- 1)), r_js := noJudge\<rparr>"

definition newABRun :: "string \<Rightarrow> string \<Rightarrow> instant \<Rightarrow> abRun" where
  "newABRun service i now =
     resetRing \<lparr>r_service = service, r_id = i, r_firstSeen = now div second, r_latched = False, r_cfg = None,
       r_attached = False, r_bLocal = 0,
       r_abort = \<lparr>ai_Reason = [], ai_Detail = [], ai_At = 0, ai_Source = []\<rparr>,
       r_cum = (noCounters, noCounters), r_warm = (noCounters, noCounters), r_ring = [], r_js = noJudge,
       r_verdict = \<lparr>v_Abort = False, v_Reason = [], v_Detail = [], v_Status = []\<rparr>,
       r_failover = (0, 0), r_draining = (0, 0), r_hopErrors = 0, r_staticFallbacks = 0,
       r_pinnedLast = (0, 0), r_pinnedNonces = ([], []), r_peers = [], r_syncInterval = 0\<rparr>"

definition run_phase :: "abRun \<Rightarrow> abConfig \<Rightarrow> string" where
  "run_phase run cfg = (if ab_Phase cfg = abPhaseRunning \<and> r_latched run then abPhaseAborted else ab_Phase cfg)"

definition abFrozen :: "string \<Rightarrow> bool" where
  "abFrozen phase \<longleftrightarrow> phase = abPhaseAborted \<or> phase = abPhaseDiscarding"

definition abWindowIndex :: "abConfig \<Rightarrow> instant \<Rightarrow> int" where
  "abWindowIndex cfg now =
     (let anchor = ab_Epoch cfg * second + ab_Warmup cfg
      in if now < anchor then - 1 else go_div (now - anchor) (ab_Window cfg))"

subsection \<open>Recording\<close>

datatype abOutcome = abServed | abTransport | abFailover

definition outcome_counters :: "abOutcome \<Rightarrow> int \<Rightarrow> duration \<Rightarrow> abCounters" where
  "outcome_counters out status latency =
     (case out of
        abServed \<Rightarrow> noCounters\<lparr>c_Requests := 1, c_Err5xx := (if 500 \<le> status then 1 else 0),
          c_Hist := (c_Hist noCounters)[abHistBucket (of_int latency / 1000000) := 1]\<rparr>
      | abTransport \<Rightarrow> noCounters\<lparr>c_Transport := 1\<rparr>
      | abFailover \<Rightarrow> noCounters\<lparr>c_Failover := 1\<rparr>)"

text \<open>
  A run reaches these operations through an attached group, so its configuration is set; without one they do
  nothing here (the code would dereference nil).
\<close>

definition run_record :: "abRun \<Rightarrow> nat \<Rightarrow> abOutcome \<Rightarrow> int \<Rightarrow> duration \<Rightarrow> instant \<Rightarrow> abRun" where
  "run_record run v out status latency now =
     (case r_cfg run of
        None \<Rightarrow> run
      | Some cfg \<Rightarrow>
          if abFrozen (run_phase run cfg) then run
          else let c = outcome_counters out status latency;
                   run1 = (if out = abFailover then run\<lparr>r_failover := vmod (\<lambda>n. n + 1) (r_failover run) v\<rparr> else run);
                   idx = abWindowIndex cfg now
               in if idx < 0 then run1\<lparr>r_warm := vmod (\<lambda>x. c_add x c) (r_warm run1) v\<rparr>
                  else let i = nat (go_rem idx (int abRingSize));
                           old = r_ring run1 ! i;
                           slot = (if w_Index old \<noteq> idx then emptyWindow idx else old);
                           slot1 = slot\<lparr>w_V := vmod (\<lambda>x. c_add x c) (w_V slot) v\<rparr>
                       in run1\<lparr>r_ring := (r_ring run1)[i := slot1],
                               r_cum := vmod (\<lambda>x. c_add x c) (r_cum run1) v\<rparr>)"

definition notePinned :: "abRun \<Rightarrow> nat \<Rightarrow> string \<Rightarrow> instant \<Rightarrow> bool \<Rightarrow> abRun" where
  "notePinned run v nonce now frozen =
     (let t = now div second;
          run1 = run\<lparr>r_pinnedLast := vmod (\<lambda>_. t) (r_pinnedLast run) v\<rparr>;
          m = vget (r_pinnedNonces run1) v;
          run2 = (if nonce \<in> set (keys m) \<or> length m < abPinnedCap
                  then run1\<lparr>r_pinnedNonces := vmod (\<lambda>_. AList.update nonce t m) (r_pinnedNonces run1) v\<rparr> else run1)
      in if frozen then run2\<lparr>r_draining := vmod (\<lambda>n. n + 1) (r_draining run2) v\<rparr> else run2)"

definition addHopError :: "abRun \<Rightarrow> abRun" where
  "addHopError run = run\<lparr>r_hopErrors := r_hopErrors run + 1\<rparr>"

definition addStaticFallback :: "abRun \<Rightarrow> abRun" where
  "addStaticFallback run = run\<lparr>r_staticFallbacks := r_staticFallbacks run + 1\<rparr>"

definition summaryLocked :: "abRun \<Rightarrow> abSummary" where
  "summaryLocked run =
     \<lparr>s_Cumulative = r_cum run, s_Windows = sort_key w_Index (filter (\<lambda>w. 0 \<le> w_Index w) (r_ring run))\<rparr>"

subsection \<open>Merging summaries\<close>

definition abDefaultSyncInterval :: duration where "abDefaultSyncInterval = 5 * second"

definition pair_add :: "abCounters \<times> abCounters \<Rightarrow> abCounters \<times> abCounters \<Rightarrow> abCounters \<times> abCounters" where
  "pair_add p q = (c_add (fst p) (fst q), c_add (snd p) (snd q))"

definition merge_window :: "(int \<times> (abCounters \<times> abCounters)) list \<Rightarrow> abWindow \<Rightarrow> (int \<times> (abCounters \<times> abCounters)) list" where
  "merge_window m w =
     AList.update (w_Index w)
       (pair_add (case map_of m (w_Index w) of None \<Rightarrow> (noCounters, noCounters) | Some x \<Rightarrow> x) (w_V w)) m"

definition abMergeSummaries :: "abSummary list \<Rightarrow> abSummary" where
  "abMergeSummaries ss =
     (let cum = foldl (\<lambda>c s. pair_add c (s_Cumulative s)) (noCounters, noCounters) ss;
          byIdx = foldl merge_window [] (concat (map s_Windows ss))
      in \<lparr>s_Cumulative = cum,
          s_Windows = sort_key w_Index (map (\<lambda>(i, v). \<lparr>w_Index = i, w_V = v\<rparr>) byIdx)\<rparr>)"

definition syncEvery :: "abRun \<Rightarrow> duration" where
  "syncEvery run = (if 0 < r_syncInterval run then r_syncInterval run else abDefaultSyncInterval)"

definition freshPeersLocked :: "abRun \<Rightarrow> instant \<Rightarrow> string list \<times> string list" where
  "freshPeersLocked run now =
     (sort (map fst (filter (\<lambda>(p, s). now - sn_at s \<le> 3 * syncEvery run) (r_peers run))),
      sort (map fst (r_peers run)))"

definition abAligned :: "abRun \<Rightarrow> abPeerExp \<Rightarrow> bool" where
  "abAligned run e \<longleftrightarrow>
     (case r_cfg run of
        None \<Rightarrow> False
      | Some c \<Rightarrow> ab_Epoch (x_cfg e) = ab_Epoch c \<and> ab_Warmup (x_cfg e) = ab_Warmup c \<and> ab_Window (x_cfg e) = ab_Window c)"

definition peerSummariesLocked :: "abRun \<Rightarrow> instant \<Rightarrow> abSummary list" where
  "peerSummariesLocked run now =
     List.map_filter (\<lambda>p. case map_of (r_peers run) p of
         None \<Rightarrow> None
       | Some s \<Rightarrow> if abAligned run (sn_exp s) then Some (x_sum (sn_exp s)) else None)
       (fst (freshPeersLocked run now))"

subsection \<open>The judge\<close>

text \<open>\<^verbatim>\<open>%.kf\<close> of a non-negative number: rounded half to even.\<close>

definition round_even :: "rat \<Rightarrow> nat" where
  "round_even x =
     (let n = nat \<lfloor>x\<rfloor>; f = x - of_nat n
      in if f < 1 / 2 then n else if 1 / 2 < f then Suc n else if even n then n else Suc n)"

definition fmt_fixed :: "nat \<Rightarrow> rat \<Rightarrow> string" where
  "fmt_fixed k x =
     (let n = round_even (x * 10 ^ k); ds = nat_str (n mod 10 ^ k)
      in nat_str (n div 10 ^ k) @ (if k = 0 then [] else ''.'' @ replicate (k - length ds) CHR ''0'' @ ds))"

definition abWindowBad :: "abConfig \<Rightarrow> abCounters \<Rightarrow> abCounters \<Rightarrow> string \<times> string" where
  "abWindowBad cfg a b =
     (let errA = errRate a; errB = errRate b
      in if errA + ab_ErrDelta cfg / 100 < errB \<and> ab_ErrRatio cfg * errA \<le> errB
         then (''errors'', ''error rate B '' @ fmt_fixed 2 (errB * 100) @ ''% vs A '' @ fmt_fixed 2 (errA * 100) @ ''%'')
         else let p95A = percentile a (95 / 100); p95B = percentile b (95 / 100);
                  slack = of_int (ab_P95Slack cfg) / 1000000
              in if ab_P95Ratio cfg * p95A + slack < p95B
                 then (''latency'', ''p95 B '' @ fmt_fixed 0 p95B @ ''ms vs A '' @ fmt_fixed 0 p95A @ ''ms'')
                 else ([], []))"

definition conclusive :: "abConfig \<Rightarrow> abWindow \<Rightarrow> bool" where
  "conclusive cfg w \<longleftrightarrow>
     \<not> (int (unat (samples (fst (w_V w)))) < ab_WindowMinSamples cfg \<or>
        int (unat (samples (snd (w_V w)))) < ab_WindowMinSamples cfg)"

definition judge_window :: "abConfig \<Rightarrow> abJudgeState \<Rightarrow> abWindow \<Rightarrow> abJudgeState" where
  "judge_window cfg st w =
     (let st1 = st\<lparr>j_Seen := True, j_LastIdx := w_Index w\<rparr>
      in if \<not> conclusive cfg w then st1
         else let (r, d) = abWindowBad cfg (fst (w_V w)) (snd (w_V w))
              in if r = [] then st1\<lparr>j_Streak := 0\<rparr>
                 else st1\<lparr>j_Streak := j_Streak st1 + 1, j_Reason := r, j_Detail := d\<rparr>)"

definition verdict_status :: "string \<Rightarrow> abVerdict" where
  "verdict_status s = \<lparr>v_Abort = False, v_Reason = [], v_Detail = [], v_Status = s\<rparr>"

definition unjudged :: "abJudgeState \<Rightarrow> int \<Rightarrow> abWindow list \<Rightarrow> abWindow list" where
  "unjudged st cur ws = filter (\<lambda>w. w_Index w < cur \<and> (\<not> j_Seen st \<or> j_LastIdx st < w_Index w)) ws"

definition judge :: "abConfig \<Rightarrow> abJudgeState \<Rightarrow> abSummary \<Rightarrow> abSummary list \<Rightarrow> instant \<Rightarrow> abJudgeState \<times> abVerdict" where
  "judge cfg st own peers now =
     (let merged = abMergeSummaries (own # peers); cum = s_Cumulative merged; cur = abWindowIndex cfg now
      in if cur < 0 then (st, verdict_status ''warmup'')
         else let st1 = foldl (judge_window cfg) st (unjudged st cur (s_Windows merged))
              in if int (unat (samples (fst cum))) < ab_MinSamples cfg \<or> int (unat (samples (snd cum))) < ab_MinSamples cfg
                 then (st1, verdict_status ''insufficient_samples'')
                 else if now < ab_Started cfg * second + ab_MinRuntime cfg then (st1, verdict_status ''min_runtime'')
                 else if ab_Windows cfg \<le> j_Streak st1
                 then (st1, \<lparr>v_Abort = True, v_Reason = j_Reason st1, v_Detail = j_Detail st1, v_Status = ''abort''\<rparr>)
                 else (st1, verdict_status ''ok''))"

definition prunePins :: "int \<Rightarrow> (string \<times> int) list \<Rightarrow> (string \<times> int) list" where
  "prunePins cutoff m = filter (\<lambda>(k, t). \<not> t < cutoff) m"

definition evaluate :: "abRun \<Rightarrow> instant \<Rightarrow> abRun" where
  "evaluate run now =
     (case r_cfg run of
        None \<Rightarrow> run
      | Some cfg \<Rightarrow>
          (let cutoff = (now - ab_SessionIdle cfg) div second;
               run1 = run\<lparr>r_pinnedNonces := (prunePins cutoff (fst (r_pinnedNonces run)), prunePins cutoff (snd (r_pinnedNonces run)))\<rparr>
           in if run_phase run1 cfg \<noteq> abPhaseRunning \<or> \<not> ab_AutoAbort cfg then run1
              else let judgeNow = (if r_peers run1 \<noteq> [] then now - 2 * syncEvery run1 else now);
                       (st, v) = judge cfg (r_js run1) (summaryLocked run1) (peerSummariesLocked run1 now) judgeNow;
                       run2 = run1\<lparr>r_js := st, r_verdict := v\<rparr>
                   in if v_Abort v
                      then run2\<lparr>r_latched := True,
                             r_abort := \<lparr>ai_Reason = v_Reason v, ai_Detail = v_Detail v, ai_At = now div second, ai_Source = ''auto''\<rparr>\<rparr>
                      else run2))"

subsection \<open>Reconciling runs with route groups\<close>

type_synonym ab_runs = "(string \<times> abRun) list"

definition bLocalOf :: "bheap \<Rightarrow> RouteGroup list \<Rightarrow> string \<Rightarrow> int" where
  "bLocalOf h gs svc =
     int (length (filter (\<lambda>a. b_Variant (h a) = abVariantB \<and> \<not> b_Learned (h a))
       (concat (map g_Backends (filter (\<lambda>g. g_abCfg g \<noteq> None \<and> g_Service g = svc) gs)))))"

definition resolve_cfg :: "abRun \<Rightarrow> abConfig \<Rightarrow> abConfig" where
  "resolve_cfg run c0 =
     (let c1 = (if ab_Started c0 = 0
                then c0\<lparr>ab_Started := (case r_cfg run of None \<Rightarrow> r_firstSeen run | Some rc \<Rightarrow> ab_Started rc)\<rparr> else c0);
          c2 = (if ab_Epoch c1 = 0 then c1\<lparr>ab_Epoch := ab_Started c1\<rparr> else c1)
      in if ab_PhaseAt c2 = 0 then c2\<lparr>ab_PhaseAt := ab_Started c2\<rparr> else c2)"

definition attach_run :: "abRun \<Rightarrow> abConfig \<Rightarrow> int \<Rightarrow> duration \<Rightarrow> abRun" where
  "attach_run run cfg bl interval =
     (let run1 = (case r_cfg run of
                    None \<Rightarrow> run
                  | Some old \<Rightarrow> if ab_Epoch old \<noteq> ab_Epoch cfg
                                then (resetRing run)\<lparr>r_warm := (noCounters, noCounters)\<rparr> else run)
      in run1\<lparr>r_cfg := Some cfg, r_attached := True, r_bLocal := bl, r_syncInterval := interval\<rparr>)"

definition run_for :: "instant \<Rightarrow> ab_runs \<Rightarrow> string \<Rightarrow> string \<Rightarrow> abRun" where
  "run_for now runs svc i =
     (case map_of runs svc of
        None \<Rightarrow> newABRun svc i now
      | Some r \<Rightarrow> if r_id r \<noteq> i then newABRun svc i now else r)"

text \<open>The configuration of a group's service, its run, and the configurations resolved so far.\<close>

definition resolve_run :: "bheap \<Rightarrow> RouteGroup list \<Rightarrow> instant \<Rightarrow> duration \<Rightarrow> ab_runs \<Rightarrow> (string \<times> abConfig) list \<Rightarrow>
    string \<Rightarrow> abConfig \<Rightarrow> abConfig \<times> abRun \<times> (string \<times> abConfig) list" where
  "resolve_run h all now interval runs resolved svc c0 =
     (let run = run_for now runs svc (ab_ID c0)
      in case map_of resolved svc of
           Some cfg \<Rightarrow> (cfg, run, resolved)
         | None \<Rightarrow> (let cfg = resolve_cfg run c0
                    in (cfg, attach_run run cfg (bLocalOf h all svc) interval, AList.update svc cfg resolved)))"

fun reconcile_groups :: "bheap \<Rightarrow> RouteGroup list \<Rightarrow> instant \<Rightarrow> duration \<Rightarrow> ab_runs \<Rightarrow> (string \<times> abConfig) list \<Rightarrow>
    RouteGroup list \<Rightarrow> ab_runs \<times> RouteGroup list" where
  "reconcile_groups h all now interval runs resolved [] = (runs, [])"
| "reconcile_groups h all now interval runs resolved (g # gs) =
     (case g_abCfg g of
        None \<Rightarrow> (let (runs1, out) = reconcile_groups h all now interval runs resolved gs
                 in (runs1, g\<lparr>g_ab := None\<rparr> # out))
      | Some c0 \<Rightarrow>
          (let (cfg, run1, res1) = resolve_run h all now interval runs resolved (g_Service g) c0;
               (runs1, out) = reconcile_groups h all now interval (AList.update (g_Service g) run1 runs) res1 gs
           in (runs1, g\<lparr>g_abCfg := Some cfg, g_ab := Some (g_Service g)\<rparr> # out)))"

definition reconcileAB :: "bheap \<Rightarrow> instant \<Rightarrow> duration \<Rightarrow> ab_runs \<Rightarrow> RouteGroup list \<Rightarrow> ab_runs \<times> RouteGroup list" where
  "reconcileAB h now interval runs gs =
     reconcile_groups h gs now interval (map (\<lambda>(s, r). (s, r\<lparr>r_attached := False\<rparr>)) runs) [] gs"

definition attachedRuns :: "ab_runs \<Rightarrow> abRun list" where
  "attachedRuns runs = sort_key r_service (filter r_attached (map snd runs))"

definition abTick :: "ab_runs \<Rightarrow> instant \<Rightarrow> ab_runs" where
  "abTick runs now = map (\<lambda>(s, r). (s, if r_attached r then evaluate r now else r)) runs"

subsection \<open>What a peer's push changes\<close>

definition x_latched :: "abPeerExp \<Rightarrow> bool" where
  "x_latched e \<longleftrightarrow> (case x_abort e of None \<Rightarrow> False | Some a \<Rightarrow> ai_Source a = ''auto'' \<or> ai_Source a = ''peer'')"

definition peer_abort :: "abPeerExp \<Rightarrow> abAbortInfo" where
  "peer_abort e =
     (case x_abort e of
        None \<Rightarrow> \<lparr>ai_Reason = ''manual'', ai_Detail = [], ai_At = x_phaseAt e, ai_Source = ''peer''\<rparr>
      | Some a \<Rightarrow> \<lparr>ai_Reason = (if ai_Reason a = [] then ''manual'' else ai_Reason a), ai_Detail = ai_Detail a,
                   ai_At = (if 0 < ai_At a then ai_At a else x_phaseAt e), ai_Source = ''peer''\<rparr>)"

definition apply_peer_run :: "instant \<Rightarrow> string \<Rightarrow> (string \<times> abPeerExp) list \<Rightarrow> abRun \<Rightarrow> abRun" where
  "apply_peer_run now peer exps run =
     (case map_of exps (r_service run) of
        None \<Rightarrow> run\<lparr>r_peers := AList.delete peer (r_peers run)\<rparr>
      | Some e \<Rightarrow>
          if x_id e \<noteq> r_id run then run\<lparr>r_peers := AList.delete peer (r_peers run)\<rparr>
          else let run1 = run\<lparr>r_peers := AList.update peer \<lparr>sn_exp = e, sn_at = now\<rparr> (r_peers run)\<rparr>
               in (case r_cfg run1 of
                     None \<Rightarrow> run1
                   | Some cfg \<Rightarrow>
                       if ab_Phase cfg = abPhaseRunning \<and> x_phase e = abPhaseAborted \<and> \<not> r_latched run1
                       then run1\<lparr>r_abort := peer_abort e, r_latched := True\<rparr> else run1))"

definition applyPeerAB :: "instant \<Rightarrow> string \<Rightarrow> (string \<times> abPeerExp) list \<Rightarrow> ab_runs \<Rightarrow> ab_runs" where
  "applyPeerAB now peer exps runs = map (\<lambda>(s, r). (s, apply_peer_run now peer exps r)) runs"

definition abortLocked :: "abRun \<Rightarrow> abConfig \<Rightarrow> abAbortInfo option \<times> int" where
  "abortLocked run cfg =
     (if r_latched run
      then (Some (r_abort run), if ab_Phase cfg = abPhaseRunning then ai_At (r_abort run) else ab_PhaseAt cfg)
      else if ab_Phase cfg = abPhaseAborted
      then (Some \<lparr>ai_Reason = ab_AbortReason cfg, ai_Detail = [], ai_At = ab_PhaseAt cfg, ai_Source = ''label''\<rparr>, ab_PhaseAt cfg)
      else (None, ab_PhaseAt cfg))"

subsection \<open>Properties of the judge\<close>

definition bad_window :: "abConfig \<Rightarrow> abWindow \<Rightarrow> bool" where
  "bad_window cfg w \<longleftrightarrow> fst (abWindowBad cfg (fst (w_V w)) (snd (w_V w))) \<noteq> []"

text \<open>The streak the documentation describes: bad windows since the last good one, inconclusive ones skipped.\<close>

definition trailing_bad :: "abConfig \<Rightarrow> abWindow list \<Rightarrow> abWindow list" where
  "trailing_bad cfg ws = takeWhile (bad_window cfg) (rev (filter (conclusive cfg) ws))"

lemma judge_window_streak:
  "j_Streak (judge_window cfg st w) =
     (if \<not> conclusive cfg w then j_Streak st else if bad_window cfg w then j_Streak st + 1 else 0)"
  by (cases "abWindowBad cfg (fst (w_V w)) (snd (w_V w))") (auto simp: judge_window_def bad_window_def Let_def)

lemma streak_trailing:
  "j_Streak (foldl (judge_window cfg) st ws) =
     (if list_all (bad_window cfg) (filter (conclusive cfg) ws)
      then j_Streak st + int (length (filter (conclusive cfg) ws)) else int (length (trailing_bad cfg ws)))"
proof (induction ws rule: rev_induct)
  case (snoc w ws)
  have *: "takeWhile (bad_window cfg) (rev xs) = rev xs" if "list_all (bad_window cfg) xs" for xs
    using that by (simp add: list_all_iff takeWhile_eq_all_conv)
  show ?case using snoc by (auto simp: judge_window_streak trailing_bad_def)
qed simp

lemma judge_cases:
  assumes "judge cfg st own peers now = (st', v)"
  shows "0 \<le> abWindowIndex cfg now \<and>
      st' = foldl (judge_window cfg) st (unjudged st (abWindowIndex cfg now) (s_Windows (abMergeSummaries (own # peers)))) \<or>
    abWindowIndex cfg now < 0 \<and> st' = st"
  using assms by (auto simp: judge_def Let_def split: if_splits)

lemma judge_abort:
  assumes "judge cfg st own peers now = (st', v)" "v_Abort v"
  shows "0 \<le> abWindowIndex cfg now" "ab_Windows cfg \<le> j_Streak st'"
    "ab_MinSamples cfg \<le> int (unat (samples (fst (s_Cumulative (abMergeSummaries (own # peers))))))"
    "ab_MinSamples cfg \<le> int (unat (samples (snd (s_Cumulative (abMergeSummaries (own # peers))))))"
    "ab_Started cfg * second + ab_MinRuntime cfg \<le> now"
  using assms by (auto simp: judge_def Let_def verdict_status_def split: if_splits)

lemma merge_windows_distinct:
  "distinct (keys m) \<Longrightarrow> distinct (keys (foldl merge_window m ws))"
  by (induction ws arbitrary: m) (simp_all add: merge_window_def distinct_update)

lemma distinct_sort_key: "distinct (map f xs) \<Longrightarrow> distinct (map f (sort_key f xs))"
  by (simp add: distinct_map)

lemma sorted_last_max:
  fixes f :: "'a \<Rightarrow> int"
  shows "sorted_wrt (<) (map f ws) \<Longrightarrow> u \<in> set ws \<Longrightarrow> f u \<le> f (last ws)"
  by (induction ws rule: rev_induct) (auto simp: sorted_wrt_append)

lemma merged_strict: "sorted_wrt (<) (map w_Index (s_Windows (abMergeSummaries ss)))"
proof -
  let ?ws = "map (\<lambda>(i, v). \<lparr>w_Index = i, w_V = v\<rparr>) (foldl merge_window [] (concat (map s_Windows ss)))"
  have k: "map w_Index ?ws = keys (foldl merge_window [] (concat (map s_Windows ss)))"
    by (simp add: case_prod_unfold)
  then have "distinct (map w_Index ?ws)" by (simp only: k merge_windows_distinct distinct.simps list.map)
  then have "distinct (map w_Index (sort_key w_Index ?ws))" by (rule distinct_sort_key)
  then have "sorted_wrt (<) (map w_Index (sort_key w_Index ?ws))" by (simp add: strict_sorted_iff)
  then show ?thesis by (simp add: abMergeSummaries_def Let_def)
qed

text \<open>A sequence of judgements of one test: the state after them, and all windows judged, in order.\<close>

fun judge_hist :: "abConfig \<Rightarrow> (abSummary \<times> abSummary list \<times> instant) list \<Rightarrow> abJudgeState \<times> abWindow list" where
  "judge_hist cfg [] = (noJudge, [])"
| "judge_hist cfg ((own, peers, now) # cs) =
     (let (st, ws) = judge_hist cfg cs
      in (fst (judge cfg st own peers now),
          ws @ (if 0 \<le> abWindowIndex cfg now
                then unjudged st (abWindowIndex cfg now) (s_Windows (abMergeSummaries (own # peers))) else [])))"

definition judged_inv :: "abConfig \<Rightarrow> abJudgeState \<Rightarrow> abWindow list \<Rightarrow> bool" where
  "judged_inv cfg st ws \<longleftrightarrow> st = foldl (judge_window cfg) noJudge ws \<and> sorted_wrt (<) (map w_Index ws)"

lemma judge_window_last: "j_Seen (judge_window cfg st w) \<and> j_LastIdx (judge_window cfg st w) = w_Index w"
  by (cases "abWindowBad cfg (fst (w_V w)) (snd (w_V w))") (simp add: judge_window_def Let_def)

lemma judge_fold_last:
  "ws \<noteq> [] \<Longrightarrow> j_Seen (foldl (judge_window cfg) st ws) \<and> j_LastIdx (foldl (judge_window cfg) st ws) = w_Index (last ws)"
  by (induction ws rule: rev_induct) (simp_all add: judge_window_last)

lemma judged_step:
  assumes "judged_inv cfg st ws" and "0 \<le> abWindowIndex cfg now"
  shows "judged_inv cfg
    (foldl (judge_window cfg) st (unjudged st (abWindowIndex cfg now) (s_Windows (abMergeSummaries ss))))
    (ws @ unjudged st (abWindowIndex cfg now) (s_Windows (abMergeSummaries ss)))"
proof -
  let ?new = "unjudged st (abWindowIndex cfg now) (s_Windows (abMergeSummaries ss))"
  have new: "sorted_wrt (<) (map w_Index ?new)"
    using merged_strict [of ss] by (simp add: unjudged_def sorted_wrt_map sorted_wrt_filter)
  have "w_Index u < w_Index w" if "u \<in> set ws" "w \<in> set ?new" for u w
  proof -
    have ne: "ws \<noteq> []" using that by auto
    have st: "j_Seen st" "j_LastIdx st = w_Index (last ws)"
      using judge_fold_last [OF ne, of cfg noJudge] assms(1) by (simp_all add: judged_inv_def)
    have "w_Index u \<le> w_Index (last ws)" using sorted_last_max [OF _ that(1)] assms(1) by (simp add: judged_inv_def)
    moreover have "j_LastIdx st < w_Index w" using that(2) st(1) by (simp add: unjudged_def)
    ultimately show ?thesis using st(2) by simp
  qed
  with new assms(1) show ?thesis by (auto simp: judged_inv_def sorted_wrt_append)
qed

lemma judge_hist_inv: "judge_hist cfg cs = (st, ws) \<Longrightarrow> judged_inv cfg st ws"
proof (induction cs arbitrary: st ws)
  case (Cons c cs)
  obtain own peers now where c: "c = (own, peers, now)" by (cases c)
  obtain st0 ws0 where h: "judge_hist cfg cs = (st0, ws0)" by (rule prod.exhaust)
  obtain st1 v where j: "judge cfg st0 own peers now = (st1, v)" by (rule prod.exhaust)
  from Cons.IH [OF h] judged_step [OF Cons.IH [OF h], of now "own # peers"] judge_cases [OF j] Cons.prems
  show ?case by (auto simp: c h j split: if_splits)
qed (simp add: judged_inv_def)

lemma fresh_streak: "j_Streak (foldl (judge_window cfg) noJudge ws) = int (length (trailing_bad cfg ws))"
proof (cases "list_all (bad_window cfg) (filter (conclusive cfg) ws)")
  case True
  then have "trailing_bad cfg ws = rev (filter (conclusive cfg) ws)"
    by (simp add: trailing_bad_def list_all_iff takeWhile_eq_all_conv)
  with True show ?thesis by (simp add: streak_trailing noJudge_def)
qed (simp add: streak_trailing)

text \<open>
  (C24) An automatic abort is always justified: in any sequence of evaluations each window is judged at most
  once, in order and only after it closed, and a verdict to abort means that the last conclusive windows,
  at least as many as configured, were all bad, that both variants have the required samples over the
  merged mesh, and that the minimum run time has passed.
\<close>

theorem judge_abort_justified:
  assumes "judge_hist cfg cs = (st, ws)" and "judge cfg st own peers now = (st', v)" and "v_Abort v"
  defines "new \<equiv> unjudged st (abWindowIndex cfg now) (s_Windows (abMergeSummaries (own # peers)))"
  shows "sorted_wrt (<) (map w_Index (ws @ new)) \<and> (\<forall>w\<in>set new. w_Index w < abWindowIndex cfg now) \<and>
    ab_Windows cfg \<le> int (length (trailing_bad cfg (ws @ new))) \<and>
    (\<forall>w\<in>set (trailing_bad cfg (ws @ new)). conclusive cfg w \<and> bad_window cfg w) \<and>
    ab_MinSamples cfg \<le> int (unat (samples (fst (s_Cumulative (abMergeSummaries (own # peers)))))) \<and>
    ab_MinSamples cfg \<le> int (unat (samples (snd (s_Cumulative (abMergeSummaries (own # peers)))))) \<and>
    ab_Started cfg * second + ab_MinRuntime cfg \<le> now"
proof -
  note a = judge_abort [OF assms(2,3)]
  have st': "st' = foldl (judge_window cfg) st new" using judge_cases [OF assms(2)] a(1) by (auto simp: new_def)
  have i: "judged_inv cfg st' (ws @ new)"
    using judged_step [OF judge_hist_inv [OF assms(1)] a(1), of "own # peers"] by (simp add: new_def st')
  then have "j_Streak st' = int (length (trailing_bad cfg (ws @ new)))" 
    using fresh_streak [of cfg "ws @ new"] by (simp only: judged_inv_def)
  moreover have "\<forall>w\<in>set (trailing_bad cfg (ws @ new)). conclusive cfg w \<and> bad_window cfg w"
    by (auto simp: trailing_bad_def dest: set_takeWhileD)
  moreover have "\<forall>w\<in>set new. w_Index w < abWindowIndex cfg now" by (simp add: new_def unjudged_def)
  ultimately show ?thesis using i a by (simp add: judged_inv_def)
qed

text \<open>A test whose B answers every request with an error.\<close>

definition ex_cfg :: abConfig where
  "ex_cfg = (ab_defaults ''test1'')\<lparr>ab_Windows := 1, ab_MinSamples := 1, ab_WindowMinSamples := 1, ab_MinRuntime := 0, ab_Warmup := 0\<rparr>"

definition ex_summary :: abSummary where
  "ex_summary =
     (let a = noCounters\<lparr>c_Requests := 4\<rparr>; b = noCounters\<lparr>c_Requests := 4, c_Err5xx := 4\<rparr>
      in \<lparr>s_Cumulative = (a, b), s_Windows = [\<lparr>w_Index = 0, w_V = (a, b)\<rparr>]\<rparr>)"

theorem judge_abort_justified_witness:
  "v_Abort (snd (judge ex_cfg noJudge ex_summary [] (6 * minute))) \<and>
   1 \<le> length (trailing_bad ex_cfg (unjudged noJudge (abWindowIndex ex_cfg (6 * minute)) (s_Windows (abMergeSummaries [ex_summary]))))"
proof -
  let ?a = "noCounters\<lparr>c_Requests := 4\<rparr>" and ?b = "noCounters\<lparr>c_Requests := 4, c_Err5xx := 4\<rparr>"
  have m: "s_Windows (abMergeSummaries [ex_summary]) = s_Windows ex_summary" by code_simp
  have cum: "samples (fst (s_Cumulative (abMergeSummaries [ex_summary]))) = 4"
    "samples (snd (s_Cumulative (abMergeSummaries [ex_summary]))) = 4" by code_simp+
  have u: "unjudged noJudge 1 (s_Windows ex_summary) = [\<lparr>w_Index = 0, w_V = (?a, ?b)\<rparr>]" by code_simp
  have i: "abWindowIndex ex_cfg (6 * minute) = 1" by code_simp
  have "errRate ?a + ab_ErrDelta ex_cfg / 100 < errRate ?b \<and> ab_ErrRatio ex_cfg * errRate ?a \<le> errRate ?b" by code_simp
  then have "bad_window ex_cfg \<lparr>w_Index = 0, w_V = (?a, ?b)\<rparr>" by (simp add: bad_window_def abWindowBad_def Let_def)
  moreover have "conclusive ex_cfg \<lparr>w_Index = 0, w_V = (?a, ?b)\<rparr>" by code_simp
  ultimately have "j_Streak (foldl (judge_window ex_cfg) noJudge (unjudged noJudge 1 (s_Windows ex_summary))) = 1"
    unfolding u by (simp add: judge_window_streak) (simp add: noJudge_def)
  moreover have "ab_MinSamples ex_cfg = 1" "ab_Windows ex_cfg = 1" "ab_Started ex_cfg * second + ab_MinRuntime ex_cfg = 0"
    "\<not> 6 * minute < (0 :: int)" by code_simp+
  ultimately have a: "v_Abort (snd (judge ex_cfg noJudge ex_summary [] (6 * minute)))"
    by (simp add: judge_def Let_def i m cum)
  obtain st' v where j: "judge ex_cfg noJudge ex_summary [] (6 * minute) = (st', v)" by (rule prod.exhaust)
  have h: "judge_hist ex_cfg [] = (noJudge, [])" by simp
  have w: "ab_Windows ex_cfg = 1" by (simp add: ex_cfg_def)
  from a j have "v_Abort v" by simp
  from judge_abort_justified [OF h j this] a w show ?thesis by simp
qed

subsection \<open>Merging does not depend on the order\<close>

lemma map2_add_commute: "map2 (+) xs ys = map2 (+) ys (xs :: 'a :: ab_semigroup_add list)"
  by (induction xs ys rule: list_induct2') (simp_all add: add.commute)

lemma map2_add_assoc: "map2 (+) (map2 (+) xs ys) zs = map2 (+) xs (map2 (+) ys (zs :: 'a :: ab_semigroup_add list))"
proof (induction xs arbitrary: ys zs)
  case (Cons x xs)
  show ?case
    by (cases ys; cases zs) (simp_all add: Cons add.assoc)
qed simp

lemma c_add_commute: "c_add a b = c_add b a"
  by (simp add: c_add_def add.commute map2_add_commute)

lemma c_add_assoc: "c_add (c_add a b) c = c_add a (c_add b c)"
  by (simp add: c_add_def add.assoc map2_add_assoc)

lemma pair_add_right_commute: "pair_add (pair_add p q) r = pair_add (pair_add p r) q"
  by (simp add: pair_add_def c_add_assoc c_add_commute [of "fst q"] c_add_commute [of "snd q"])

text \<open>The total of the counters of one index over a list of windows, added to a start value.\<close>

definition window_sum :: "int \<Rightarrow> abWindow list \<Rightarrow> abCounters \<times> abCounters \<Rightarrow> abCounters \<times> abCounters" where
  "window_sum i ws z = foldl pair_add z (map w_V (filter (\<lambda>w. w_Index w = i) ws))"

lemma map_of_merge:
  "map_of (foldl merge_window m ws) i =
     (if i \<in> w_Index ` set ws
      then Some (window_sum i ws (case map_of m i of None \<Rightarrow> (noCounters, noCounters) | Some x \<Rightarrow> x)) else map_of m i)"
proof (induction ws arbitrary: m)
  case (Cons w ws)
  have "filter (\<lambda>x. w_Index x = i) ws = []" if "i \<notin> w_Index ` set ws" using that by (auto simp: filter_empty_conv)
  moreover have "map_of (merge_window m w) i =
      (if i = w_Index w then Some (pair_add (case map_of m i of None \<Rightarrow> (noCounters, noCounters) | Some x \<Rightarrow> x) (w_V w))
       else map_of m i)"
    by (simp add: merge_window_def update_conv')
  ultimately show ?case using Cons.IH [of "merge_window m w"] by (auto simp: window_sum_def)
qed simp

lemma merge_set:
  "set (foldl merge_window [] ws) = (\<lambda>i. (i, window_sum i ws (noCounters, noCounters))) ` (w_Index ` set ws)"
proof -
  have d: "distinct (keys (foldl merge_window [] ws))" by (simp add: merge_windows_distinct)
  then have "(i, v) \<in> set (foldl merge_window [] ws) \<longleftrightarrow> map_of (foldl merge_window [] ws) i = Some v" for i v
    by (simp add: map_of_eq_Some_iff)
  then have "(i, v) \<in> set (foldl merge_window [] ws) \<longleftrightarrow>
      i \<in> w_Index ` set ws \<and> v = window_sum i ws (noCounters, noCounters)" for i v
    by (auto simp: map_of_merge)
  then show ?thesis by (auto simp: image_iff)
qed

lemma foldl_perm:
  assumes "\<And>a b c. f (f a b) c = f (f a c) b" and "mset xs = mset ys"
  shows "foldl f z xs = foldl f z ys"
proof -
  have "foldl f z xs = fold (\<lambda>x y. f y x) xs z" for xs by (simp add: foldl_conv_fold)
  moreover have "fold (\<lambda>x y. f y x) xs = fold (\<lambda>x y. f y x) ys"
    using assms by (intro fold_multiset_equiv) auto
  ultimately show ?thesis by simp
qed

lemma strict_windows_eq:
  assumes "sorted_wrt (<) (map w_Index xs)" "sorted_wrt (<) (map w_Index ys)"
    and "set xs = set (ys :: abWindow list)"
  shows "xs = ys"
proof -
  have "sorted (map w_Index xs)" "distinct (map w_Index xs)" "sorted (map w_Index ys)" "distinct (map w_Index ys)"
    using assms by (simp_all add: strict_sorted_iff)
  moreover from this have "inj_on w_Index (set xs \<union> set ys)" using assms(3) by (simp add: distinct_map)
  ultimately show ?thesis using assms(3) by (intro map_sorted_distinct_set_unique [of w_Index])
qed

lemma merged_set:
  "set (s_Windows (abMergeSummaries ss)) =
     (\<lambda>i. \<lparr>w_Index = i, w_V = window_sum i (concat (map s_Windows ss)) (noCounters, noCounters)\<rparr>) `
       (w_Index ` set (concat (map s_Windows ss)))"
proof -
  show ?thesis unfolding abMergeSummaries_def Let_def by (simp add: merge_set image_image del: set_concat)
qed

text \<open>
  All proxies of the mesh judge the same numbers: the merged summary does not depend on the
  order in which the summaries are added, so proxies that hold the same set of summaries compute the same
  cumulative counters and the same windows, with wrap-around included.
\<close>

theorem merge_order_independent:
  assumes "mset ss = mset (ts :: abSummary list)"
  shows "abMergeSummaries ss = abMergeSummaries ts"
proof -
  have mc: "mset (concat (map s_Windows ss)) = mset (concat (map s_Windows ts))"
    using assms by (metis mset_concat mset_map sum_mset_sum_list image_mset.compositionality)
  have "s_Cumulative (abMergeSummaries ss) = s_Cumulative (abMergeSummaries ts)"
    unfolding abMergeSummaries_def Let_def
    using foldl_perm [of "\<lambda>c s. pair_add c (s_Cumulative s)", OF pair_add_right_commute assms] by simp
  moreover have "window_sum i (concat (map s_Windows ss)) z = window_sum i (concat (map s_Windows ts)) z" for i z
    unfolding window_sum_def
    by (rule foldl_perm [of pair_add, OF pair_add_right_commute]) (use mc in \<open>simp add: mset_filter\<close>)
  moreover have "set (concat (map s_Windows ss)) = set (concat (map s_Windows ts))" using mc by (rule mset_eq_setD)
  ultimately have "set (s_Windows (abMergeSummaries ss)) = set (s_Windows (abMergeSummaries ts))"
    unfolding merged_set by simp
  then have "s_Windows (abMergeSummaries ss) = s_Windows (abMergeSummaries ts)"
    by (intro strict_windows_eq merged_strict)
  with \<open>s_Cumulative (abMergeSummaries ss) = s_Cumulative (abMergeSummaries ts)\<close> show ?thesis by simp
qed

theorem merge_order_independent_witness:
  "abMergeSummaries [ex_summary, ex_summary\<lparr>s_Windows := []\<rparr>] = abMergeSummaries [ex_summary\<lparr>s_Windows := []\<rparr>, ex_summary]"
  by (rule merge_order_independent) simp

subsection \<open>The abort latch\<close>

text \<open>Everything that happens to the runs of a proxy, with the arguments of each call.\<close>

datatype runs_op =
    Reconcile bheap instant duration "RouteGroup list"
  | Tick instant
  | Push instant string "(string \<times> abPeerExp) list"
  | Record string nat abOutcome int duration instant
  | Pinned string nat string instant bool
  | HopError string
  | StaticFallback string

definition on_run :: "string \<Rightarrow> (abRun \<Rightarrow> abRun) \<Rightarrow> ab_runs \<Rightarrow> ab_runs" where
  "on_run svc f runs = map (\<lambda>(s, r). (s, if s = svc then f r else r)) runs"

fun runs_step :: "ab_runs \<Rightarrow> runs_op \<Rightarrow> ab_runs" where
  "runs_step runs (Reconcile h now interval gs) = fst (reconcileAB h now interval runs gs)"
| "runs_step runs (Tick now) = abTick runs now"
| "runs_step runs (Push now peer exps) = applyPeerAB now peer exps runs"
| "runs_step runs (Record svc v out st lat now) = on_run svc (\<lambda>r. run_record r v out st lat now) runs"
| "runs_step runs (Pinned svc v nonce now frozen) = on_run svc (\<lambda>r. notePinned r v nonce now frozen) runs"
| "runs_step runs (HopError svc) = on_run svc addHopError runs"
| "runs_step runs (StaticFallback svc) = on_run svc addStaticFallback runs"

text \<open>The test of a service keeps its id in an operation: no group of the service carries another one.\<close>

fun keeps_test :: "string \<Rightarrow> string \<Rightarrow> runs_op \<Rightarrow> bool" where
  "keeps_test svc i (Reconcile h now interval gs) \<longleftrightarrow>
     list_all (\<lambda>g. g_Service g = svc \<longrightarrow> (case g_abCfg g of None \<Rightarrow> True | Some c \<Rightarrow> ab_ID c = i)) gs"
| "keeps_test svc i _ \<longleftrightarrow> True"

definition latched_as :: "string \<Rightarrow> abAbortInfo \<Rightarrow> abRun \<Rightarrow> bool" where
  "latched_as i a r \<longleftrightarrow> r_latched r \<and> r_id r = i \<and> r_abort r = a"

lemma map_of_map_snd: "map_of (map (\<lambda>(s, r). (s, f s r)) xs) k = map_option (f k) (map_of xs k)"
  by (induction xs) auto

lemma latched_ops:
  assumes "latched_as i a r"
  shows "latched_as i a (r\<lparr>r_attached := b\<rparr>)" "latched_as i a (evaluate r now)" "latched_as i a (apply_peer_run now peer exps r)"
    "latched_as i a (run_record r v out st lat now)" "latched_as i a (notePinned r v nonce now fz)"
    "latched_as i a (addHopError r)" "latched_as i a (addStaticFallback r)" "latched_as i a (attach_run r cfg bl interval)"
proof -
  show "latched_as i a (evaluate r now)"
    using assms by (auto simp: latched_as_def evaluate_def run_phase_def Let_def phase_defs split: option.split)
qed (use assms in \<open>auto simp: latched_as_def apply_peer_run_def run_record_def notePinned_def addHopError_def
  addStaticFallback_def attach_run_def resetRing_def Let_def split: option.split\<close>)

lemma reconcile_latched:
  assumes "map_of runs svc = Some r" "latched_as i a r"
    and "list_all (\<lambda>g. g_Service g = svc \<longrightarrow> (case g_abCfg g of None \<Rightarrow> True | Some c \<Rightarrow> ab_ID c = i)) gs"
  shows "\<exists>r'. map_of (fst (reconcile_groups h all now interval runs resolved gs)) svc = Some r' \<and> latched_as i a r'"
  using assms
proof (induction gs arbitrary: runs resolved r)
  case (Cons g gs)
  show ?case
  proof (cases "g_abCfg g")
    case None
    with Cons show ?thesis by (auto simp: case_prod_unfold Let_def)
  next
    case (Some c0)
    let ?s = "g_Service g"
    obtain cfg run1 res1 where step: "resolve_run h all now interval runs resolved ?s c0 = (cfg, run1, res1)"
      by (rule prod_cases3)
    have keep: "latched_as i a run1" if "?s = svc"
    proof -
      have "run_for now runs ?s (ab_ID c0) = r" using Cons.prems that Some by (auto simp: run_for_def latched_as_def)
      then show ?thesis
        using step Cons.prems(2) latched_ops(8) by (auto simp: resolve_run_def Let_def split: option.splits)
    qed
    have "\<exists>r'. map_of (AList.update ?s run1 runs) svc = Some r' \<and> latched_as i a r'"
      using Cons.prems keep by (cases "?s = svc") (auto simp: update_conv')
    then obtain r' where "map_of (AList.update ?s run1 runs) svc = Some r'" "latched_as i a r'" by blast
    from Cons.IH [OF this, of res1] Cons.prems(3) Some step show ?thesis
      by (simp add: case_prod_unfold Let_def)
  qed
qed auto

lemma runs_step_latched:
  assumes "map_of runs svc = Some r" "latched_as i a r" "keeps_test svc i op"
  shows "\<exists>r'. map_of (runs_step runs op) svc = Some r' \<and> latched_as i a r'"
proof (cases op)
  case (Reconcile h now interval gs)
  have "map_of (map (\<lambda>(s, r). (s, r\<lparr>r_attached := False\<rparr>)) runs) svc = Some (r\<lparr>r_attached := False\<rparr>)"
    using assms(1) by (simp add: map_of_map_snd)
  from reconcile_latched [OF this latched_ops(1) [OF assms(2)]] assms(3) Reconcile
  show ?thesis by (simp add: reconcileAB_def)
qed (use assms latched_ops in \<open>auto simp: abTick_def applyPeerAB_def on_run_def map_of_map_snd\<close>)

text \<open>
  (C39) The abort latch is sticky: once a test is latched, nothing that happens to the proxy's runs clears the latch
  or its recorded reason, not a detach and re-attach of B, a change of the configuration, a judgement, a peer's push
  or any request, as long as the service keeps the same test id; and a latched test whose label still says running
  is in the aborted phase.
\<close>

theorem abort_latch_sticky:
  assumes "map_of runs svc = Some r" "r_latched r" "list_all (keeps_test svc (r_id r)) ops"
  shows "\<exists>r'. map_of (foldl runs_step runs ops) svc = Some r' \<and> r_latched r' \<and> r_id r' = r_id r \<and> r_abort r' = r_abort r \<and>
    (\<forall>cfg. ab_Phase cfg = abPhaseRunning \<longrightarrow> run_phase r' cfg = abPhaseAborted)"
proof -
  have "\<exists>r'. map_of (foldl runs_step runs ops) svc = Some r' \<and> latched_as (r_id r) (r_abort r) r'"
    if "latched_as (r_id r) (r_abort r) r0" "map_of runs svc = Some r0" "list_all (keeps_test svc (r_id r)) ops" for r0 runs ops
    using that
  proof (induction ops arbitrary: runs r0)
    case (Cons op ops)
    from runs_step_latched [OF Cons.prems(2,1), of op] Cons.prems(3)
    obtain r1 where "map_of (runs_step runs op) svc = Some r1" "latched_as (r_id r) (r_abort r) r1" by auto
    with Cons.IH [of r1 "runs_step runs op"] Cons.prems(3) show ?case by simp
  qed auto
  from this [of r runs ops] assms show ?thesis by (auto simp: latched_as_def run_phase_def)
qed

theorem abort_latch_sticky_witness:
  "\<exists>r'. map_of (foldl runs_step [(''web'', (newABRun ''web'' ''test1'' 0)\<lparr>r_latched := True\<rparr>)]
          [Reconcile ex_heap 5 0 [], Tick 9, HopError ''web'']) ''web'' = Some r' \<and> r_latched r'"
proof -
  let ?r = "(newABRun ''web'' ''test1'' 0)\<lparr>r_latched := True\<rparr>"
  have "map_of [(''web'', ?r)] ''web'' = Some ?r" "r_latched ?r"
    "list_all (keeps_test ''web'' (r_id ?r)) [Reconcile ex_heap 5 0 [], Tick 9, HopError ''web'']" by simp_all
  from abort_latch_sticky [OF this] show ?thesis by blast
qed

subsection \<open>Each request is counted once\<close>

definition counters_wf :: "abCounters \<Rightarrow> bool" where
  "counters_wf c \<longleftrightarrow> length (c_Hist c) = abHistBuckets"

definition pair_wf :: "abCounters \<times> abCounters \<Rightarrow> bool" where
  "pair_wf p \<longleftrightarrow> counters_wf (fst p) \<and> counters_wf (snd p)"

text \<open>Well-formed runs: histograms have all buckets, and a used ring slot holds a window of its own residue.\<close>

definition run_wf :: "abRun \<Rightarrow> bool" where
  "run_wf run \<longleftrightarrow> pair_wf (r_cum run) \<and> pair_wf (r_warm run) \<and> length (r_ring run) = abRingSize \<and>
     (\<forall>i<abRingSize. pair_wf (w_V (r_ring run ! i)) \<and>
        (0 \<le> w_Index (r_ring run ! i) \<longrightarrow> w_Index (r_ring run ! i) mod int abRingSize = int i))"

lemma counters_wf_simps: "counters_wf noCounters" "counters_wf a \<Longrightarrow> counters_wf b \<Longrightarrow> counters_wf (c_add a b)"
  "counters_wf (outcome_counters out st lat)"
  by (auto simp: counters_wf_def noCounters_def c_add_def outcome_counters_def split: abOutcome.split)

lemma pair_wf_vmod: "pair_wf p \<Longrightarrow> counters_wf c \<Longrightarrow> pair_wf (vmod (\<lambda>x. c_add x c) p v)"
  by (auto simp: pair_wf_def vmod_def counters_wf_simps)

lemma samples_add: "samples (c_add a b) = samples a + samples b"
  by (simp add: samples_def c_add_def)

lemma samples_outcome: "samples (outcome_counters out st lat) = 1"
  by (cases out) (simp_all add: outcome_counters_def samples_def noCounters_def)

lemma vget_vmod_other: "v \<le> Suc 0 \<Longrightarrow> vget (vmod f p v) (Suc 0 - v) = vget p (Suc 0 - v)"
  by (auto simp: vget_def vmod_def)

lemma slot_index: "0 \<le> idx \<Longrightarrow> nat (go_rem idx (int abRingSize)) < abRingSize \<and> int (nat (go_rem idx (int abRingSize))) = idx mod int abRingSize"
  by (simp add: go_rem_def abRingSize_def sgn_if abs_if nat_less_iff)

definition total_samples :: "abRun \<Rightarrow> nat \<Rightarrow> 64 word" where
  "total_samples r w = samples (vget (r_cum r) w) + samples (vget (r_warm r) w)"

text \<open>
  A recorded request is counted exactly once and only for its own variant: while the test is not
  frozen the sum of warm-up and cumulative samples of that variant grows by one, after warm-up the window of
  its time holds it and sits in its own ring slot, the other variant's counters do not change, and in a
  frozen phase nothing is counted.
\<close>

theorem record_counts_once:
  fixes out :: abOutcome and st :: int and lat :: duration and now :: instant
  assumes "run_wf run" "r_cfg run = Some cfg" "v \<le> 1"
  defines "run' \<equiv> run_record run v out st lat now"
  shows "run_wf run' \<and>
    total_samples run' v = total_samples run v + (if abFrozen (run_phase run cfg) then 0 else 1) \<and>
    total_samples run' (1 - v) = total_samples run (1 - v) \<and>
    (\<not> abFrozen (run_phase run cfg) \<and> 0 \<le> abWindowIndex cfg now \<longrightarrow>
       (\<exists>w\<in>set (r_ring run'). w_Index w = abWindowIndex cfg now))"
proof (cases "abFrozen (run_phase run cfg)")
  case True
  with assms(1,2) show ?thesis by (simp add: run'_def run_record_def)
next
  case F: False
  let ?c = "outcome_counters out st lat" and ?idx = "abWindowIndex cfg now"
  define run1 where "run1 = (if out = abFailover then run\<lparr>r_failover := vmod (\<lambda>n. n + 1) (r_failover run) v\<rparr> else run)"
  have r1: "r_cum run1 = r_cum run" "r_warm run1 = r_warm run" "r_ring run1 = r_ring run" by (simp_all add: run1_def)
  show ?thesis
  proof (cases "?idx < 0")
    case True
    then have "run' = run1\<lparr>r_warm := vmod (\<lambda>x. c_add x ?c) (r_warm run1) v\<rparr>"
      using F assms(2) by (simp add: run'_def run_record_def run1_def Let_def)
    with True F assms(1,3) r1 show ?thesis
      by (simp add: total_samples_def samples_add samples_outcome vget_vmod_other run_wf_def pair_wf_vmod counters_wf_simps)
  next
    case False
    define i where "i = nat (go_rem ?idx (int abRingSize))"
    define slot where "slot = (if w_Index (r_ring run1 ! i) \<noteq> ?idx then emptyWindow ?idx else r_ring run1 ! i)"
    have i: "i < abRingSize" "int i = ?idx mod int abRingSize" using slot_index [of ?idx] False by (simp_all add: i_def)
    have run': "run' = run1\<lparr>r_ring := (r_ring run1)[i := slot\<lparr>w_V := vmod (\<lambda>x. c_add x ?c) (w_V slot) v\<rparr>],
        r_cum := vmod (\<lambda>x. c_add x ?c) (r_cum run1) v\<rparr>"
      using F False assms(2) unfolding run'_def run_record_def run1_def [symmetric] slot_def i_def Let_def by simp
    have slot: "w_Index slot = ?idx" "pair_wf (w_V slot)"
      using assms(1) i(1) by (auto simp: slot_def emptyWindow_def pair_wf_def counters_wf_simps run_wf_def r1)
    have "run_wf run'"
      using assms(1) i slot unfolding run_wf_def run'
      by (auto simp: r1 nth_list_update pair_wf_vmod counters_wf_simps)
    moreover have "slot\<lparr>w_V := vmod (\<lambda>x. c_add x ?c) (w_V slot) v\<rparr> \<in> set (r_ring run')"
      using i(1) assms(1) by (auto simp: run' r1 run_wf_def intro: set_update_memI)
    then have "\<exists>w\<in>set (r_ring run'). w_Index w = ?idx" by (rule rev_bexI) (simp add: slot(1))
    moreover have "total_samples run' v = total_samples run v + 1" "total_samples run' (1 - v) = total_samples run (1 - v)"
      using assms(3) by (simp_all add: total_samples_def run' r1 samples_add samples_outcome vget_vmod_other)
    ultimately show ?thesis using F by simp
  qed
qed

theorem record_counts_once_witness:
  "let r = (newABRun ''web'' ''test1'' 0)\<lparr>r_cfg := Some ex_cfg\<rparr> in
   run_wf r \<and> total_samples (run_record r 1 abServed 200 0 (6 * minute)) 1 = total_samples r 1 + 1"
proof -
  let ?r = "(newABRun ''web'' ''test1'' 0)\<lparr>r_cfg := Some ex_cfg\<rparr>"
  have w: "run_wf ?r"
    by (simp add: newABRun_def resetRing_def run_wf_def pair_wf_def emptyWindow_def counters_wf_simps)
  have "r_cfg ?r = Some ex_cfg" "(1::nat) \<le> 1" "\<not> abFrozen (run_phase ?r ex_cfg)"
    by (simp_all add: abFrozen_def run_phase_def newABRun_def resetRing_def ex_cfg_def ab_defaults_def phase_defs)
  with record_counts_once [OF w, of ex_cfg 1 abServed 200 0 "6 * minute"] w show ?thesis by (simp add: Let_def)
qed

end
