(* ===== verification/ABRoute.thy ===== *)
theory ABRoute
  imports ABRun
begin

section \<open>A/B assignment of requests (\<^verbatim>\<open>cmd/proxy/abtest.go\<close>)\<close>

text \<open>
  The pin cookie, the deterministic split, and the precedence that gives each request its variant. SHA-256
  and the random values a request may draw are the arguments \<open>sha\<close> and \<open>rnd\<close>.
\<close>

subsection \<open>Hashing and pins\<close>

definition abVariantHeader :: string where "abVariantHeader = ''X-Variant''"
definition abFailoverHeader :: string where "abFailoverHeader = ''X-Pmgr-AB-Failover''"
definition abPinMaxLen :: nat where "abPinMaxLen = 96"
definition abPinSkew :: duration where "abPinSkew = 2 * minute"
definition abAnonCookie :: string where "abAnonCookie = ''ab_anon''"
definition abAnonMaxAge :: duration where "abAnonMaxAge = 30 * 24 * hour"
definition abQueryOverride :: string where "abQueryOverride = ''pm_variant''"

definition is_hex_lower :: "char \<Rightarrow> bool" where
  "is_hex_lower c \<longleftrightarrow> (let n = (of_char c :: nat) in (48 \<le> n \<and> n \<le> 57) \<or> (97 \<le> n \<and> n \<le> 102))"

definition abUIDRe :: "string \<Rightarrow> bool" where
  "abUIDRe s \<longleftrightarrow> 1 \<le> length s \<and> length s \<le> 64 \<and> list_all (\<lambda>c. is_alnum c \<or> c = CHR ''_'' \<or> c = CHR ''-'') s"

definition abAnonRe :: "string \<Rightarrow> bool" where
  "abAnonRe s \<longleftrightarrow> length s = 16 \<and> list_all is_hex_lower s"

text \<open>\<open>rv_hex4\<close> and \<open>rv_hex8\<close> are the hex renderings of four and eight random bytes, \<open>rv_int\<close> is below 10000.\<close>

record random_values =
  rv_hex4 :: string
  rv_hex8 :: string
  rv_int :: int

definition abHash :: "(string \<Rightarrow> string) \<Rightarrow> string \<Rightarrow> string \<Rightarrow> 64 word" where
  "abHash sha i v = foldl (\<lambda>acc c. acc * 256 + of_nat (of_char c)) 0 (take 8 (sha (i @ [char_of (0 :: nat)] @ v)))"

definition abSplitVariant :: "(string \<Rightarrow> string) \<Rightarrow> abConfig \<Rightarrow> string \<Rightarrow> string" where
  "abSplitVariant sha cfg v =
     (if abHash sha (ab_ID cfg) v mod 10000 < of_int (ab_Split cfg) * 100 then abVariantB else abVariantA)"

definition abRandomVariant :: "int \<Rightarrow> abConfig \<Rightarrow> string" where
  "abRandomVariant n cfg = (if n < ab_Split cfg * 100 then abVariantB else abVariantA)"

definition abCookieSuffix :: "(string \<Rightarrow> string) \<Rightarrow> string \<Rightarrow> string" where
  "abCookieSuffix sha service = take 8 (hex_encode (sha service))"

definition abPinCookieName :: "(string \<Rightarrow> string) \<Rightarrow> string \<Rightarrow> string" where
  "abPinCookieName sha service = ''ab_v_'' @ abCookieSuffix sha service"

definition abJSCookieName :: "(string \<Rightarrow> string) \<Rightarrow> string \<Rightarrow> string" where
  "abJSCookieName sha service = ''ab_vjs_'' @ abCookieSuffix sha service"

record abPin =
  pin_id :: string
  pin_variant :: string
  pin_src :: string
  pin_nonce :: string
  pin_issued :: int
  pin_lastSeen :: int

definition pin_string :: "abPin \<Rightarrow> string" where
  "pin_string p =
     join ''.'' [pin_id p, pin_variant p, pin_src p, pin_nonce p, itoa (pin_issued p), itoa (pin_lastSeen p)]"

definition stamp_digits :: "string \<Rightarrow> bool" where
  "stamp_digits s \<longleftrightarrow> 1 \<le> length s \<and> length s \<le> 12 \<and> all_digits s"

text \<open>The pattern of a pin: six fields between dots.\<close>

definition abPinRe :: "string \<Rightarrow> (string \<times> string \<times> string \<times> string \<times> string \<times> string) option" where
  "abPinRe v =
     (case split_on CHR ''.'' v of
        [i, var, src, nonce, a, b] \<Rightarrow>
          if abIDRe i \<and> var \<in> {''A'', ''B''} \<and> src \<in> {''g'', ''u'', ''n'', ''q''} \<and>
             length nonce = 8 \<and> list_all is_hex_lower nonce \<and> stamp_digits a \<and> stamp_digits b
          then Some (i, var, src, nonce, a, b) else None
      | _ \<Rightarrow> None)"

definition parseABPin :: "string \<Rightarrow> abConfig \<Rightarrow> instant \<Rightarrow> abPin option" where
  "parseABPin v cfg now =
     (if abPinMaxLen < length v then None
      else case abPinRe v of
        None \<Rightarrow> None
      | Some (i, var, src, nonce, a, b) \<Rightarrow>
          (case (atoi a, atoi b) of
             (Some issued, Some seen) \<Rightarrow>
               (let n = now div second
                in if i \<noteq> ab_ID cfg \<or> seen < issued \<or> n + go_div abPinSkew second < seen \<or>
                      go_div (ab_SessionIdle cfg) second \<le> n - seen \<or> go_div (ab_MaxSession cfg) second \<le> n - issued
                   then None
                   else Some \<lparr>pin_id = i, pin_variant = var, pin_src = src, pin_nonce = nonce, pin_issued = issued, pin_lastSeen = seen\<rparr>)
           | _ \<Rightarrow> None))"

subsection \<open>Cookies of the proxy\<close>

definition set_cookie_values :: "header \<Rightarrow> string list \<Rightarrow> header" where
  "set_cookie_values h vs = (if vs = [] then AList.delete ''Set-Cookie'' h else AList.update ''Set-Cookie'' vs h)"

text \<open>\<open>attrs\<close> are the rendered attributes that follow the value.\<close>

definition setABCookie :: "header \<Rightarrow> string \<Rightarrow> string \<Rightarrow> string \<Rightarrow> header" where
  "setABCookie h name val attrs =
     set_cookie_values h
       (filter (\<lambda>v. \<not> has_prefix v (name @ ''='')) (h_index h ''Set-Cookie'') @ [name @ ''='' @ val @ attrs])"

definition setPin :: "(string \<Rightarrow> string) \<Rightarrow> string \<Rightarrow> abConfig \<Rightarrow> header \<Rightarrow> abPin \<Rightarrow> header" where
  "setPin sha service cfg h p =
     (let h1 = setABCookie h (abPinCookieName sha service) (pin_string p) ''; Path=/; HttpOnly; Secure; SameSite=Lax''
      in if ab_CookieJS cfg
         then setABCookie h1 (abJSCookieName sha service) (pin_variant p) ''; Path=/; Secure; SameSite=Lax'' else h1)"

definition hasPrefixAny :: "string \<Rightarrow> string list \<Rightarrow> bool" where
  "hasPrefixAny path prefixes \<longleftrightarrow> list_ex (has_prefix path) prefixes"

definition is_override :: "string \<Rightarrow> bool" where
  "is_override s \<longleftrightarrow> (case cut s CHR ''='' of None \<Rightarrow> s | Some (k, _) \<Rightarrow> k) = abQueryOverride"

definition cutQueryOverride :: "string \<Rightarrow> string \<times> string \<times> bool" where
  "cutQueryOverride raw =
     (if raw = [] then ([], raw, False)
      else let segs = split_on CHR ''&'' raw;
               hits = filter is_override segs;
               val = (case hits of [] \<Rightarrow> [] | s # _ \<Rightarrow> (case cut s CHR ''='' of None \<Rightarrow> [] | Some (_, v) \<Rightarrow> v))
           in (val, join ''&'' (filter (\<lambda>s. \<not> is_override s) segs), hits \<noteq> []))"

definition abValidVariant :: "string \<Rightarrow> string option" where
  "abValidVariant v = (if v = abVariantA then Some abVariantA else if v = abVariantB then Some abVariantB else None)"

subsection \<open>Assignment\<close>

record abDecision =
  d_service :: string
  d_testID :: string
  d_cfg :: abConfig
  d_variant :: string
  d_failover :: string
  d_failoverFrom :: string
  d_excluded :: bool
  d_static :: bool
  d_record :: bool

text \<open>What an assignment may change: the run, the response header so far, and the request.\<close>

record ab_ctx =
  cx_run :: abRun
  cx_header :: header
  cx_request :: request

definition ab_finish :: "string \<Rightarrow> ab_ctx \<Rightarrow> abDecision \<Rightarrow> string \<Rightarrow> ab_ctx \<times> abDecision" where
  "ab_finish phase cx d v =
     (let d1 = d\<lparr>d_variant := v\<rparr>;
          d2 = (if v = abVariantB then d1\<lparr>d_failover := abVariantA\<rparr>
                else if phase = abPhasePromoting then d1\<lparr>d_failover := abVariantB\<rparr> else d1);
          cfg = d_cfg d;
          cx1 = (if \<not> d_static d2 \<and> \<not> d_excluded d2
                 then if ab_Assign cfg = ''cookie'' then cx\<lparr>cx_header := h_add (cx_header cx) ''Vary'' ''Cookie''\<rparr>
                      else if ab_Assign cfg = ''header'' then cx\<lparr>cx_header := h_add (cx_header cx) ''Vary'' (ab_Header cfg)\<rparr>
                      else cx
                 else cx)
      in (cx1, d2))"

definition ab_newPin :: "(string \<Rightarrow> string) \<Rightarrow> random_values \<Rightarrow> instant \<Rightarrow> string \<Rightarrow> bool \<Rightarrow> ab_ctx \<Rightarrow> abDecision \<Rightarrow>
    string \<Rightarrow> string \<Rightarrow> ab_ctx \<times> abDecision" where
  "ab_newPin sha rnd now phase canSetCookie cx d v src =
     (let cfg = d_cfg d; n = now div second;
          cx1 = (if ab_Assign cfg = ''cookie'' \<and> canSetCookie
                 then cx\<lparr>cx_header := setPin sha (d_service d) cfg (cx_header cx)
                        \<lparr>pin_id = ab_ID cfg, pin_variant = v, pin_src = src, pin_nonce = rv_hex4 rnd, pin_issued = n, pin_lastSeen = n\<rparr>\<rparr>
                 else cx)
      in ab_finish phase cx1 d v)"

text \<open>Steps 5 to 9: a new session while the test is running.\<close>

definition ab_newSession :: "(string \<Rightarrow> string) \<Rightarrow> random_values \<Rightarrow> instant \<Rightarrow> string \<Rightarrow> bool \<Rightarrow> ab_ctx \<Rightarrow> abDecision \<Rightarrow>
    ab_ctx \<times> abDecision" where
  "ab_newSession sha rnd now phase canSetCookie cx d =
     (let cfg = d_cfg d; rq = cx_request cx;
          newPin = ab_newPin sha rnd now phase canSetCookie;
          uidStep =
            (case req_cookie rq (ab_UIDCookie cfg) of
               Some u \<Rightarrow> if abUIDRe u then Some (newPin cx d (abSplitVariant sha cfg u) ''u'') else None
             | None \<Rightarrow> None);
          groupStep =
            (case req_cookie rq (ab_GroupCookie cfg) of
               Some gname \<Rightarrow> if abGroupNameRe gname
                 then (case map_of (ab_Groups cfg) gname of Some v \<Rightarrow> Some (newPin cx d v ''g'') | None \<Rightarrow> None) else None
             | None \<Rightarrow> None);
          anonCookie =
            (case req_cookie rq abAnonCookie of Some a \<Rightarrow> if abAnonRe a then Some a else None | None \<Rightarrow> None)
      in if ab_Assign cfg = ''header''
         then (let v = h_get (rq_Header rq) (ab_Header cfg)
               in if v \<noteq> [] then ab_finish phase cx d (abSplitVariant sha cfg v) else ab_finish phase cx d abVariantA)
         else if ab_Assign cfg = ''random'' then ab_finish phase cx d (abRandomVariant (rv_int rnd) cfg)
         else (case groupStep of
                 Some r \<Rightarrow> r
               | None \<Rightarrow>
                   (case uidStep of
                      Some r \<Rightarrow> r
                    | None \<Rightarrow>
                        if \<not> ab_Anon cfg then newPin cx d (abRandomVariant (rv_int rnd) cfg) ''n''
                        else (case anonCookie of
                                Some a \<Rightarrow> newPin cx d (abSplitVariant sha cfg a) ''n''
                              | None \<Rightarrow>
                                  if canSetCookie
                                  then (let cx1 = cx\<lparr>cx_header := setABCookie (cx_header cx) abAnonCookie (rv_hex8 rnd)
                                              (''; Path=/; Max-Age='' @ itoa (go_div abAnonMaxAge second) @ ''; HttpOnly; Secure; SameSite=Lax'')\<rparr>
                                        in if rv_hex8 rnd = [] then newPin cx1 d (abRandomVariant (rv_int rnd) cfg) ''n''
                                           else newPin cx1 d (abSplitVariant sha cfg (rv_hex8 rnd)) ''n'')
                                  else newPin cx d (abRandomVariant (rv_int rnd) cfg) ''n''))))"

definition ab_unpinned :: "(string \<Rightarrow> string) \<Rightarrow> random_values \<Rightarrow> instant \<Rightarrow> string \<Rightarrow> bool \<Rightarrow> bool \<Rightarrow> ab_ctx \<Rightarrow> abDecision \<Rightarrow>
    ab_ctx \<times> abDecision" where
  "ab_unpinned sha rnd now phase canSetCookie hopped cx d =
     (let cfg = d_cfg d;
          newPin = ab_newPin sha rnd now phase canSetCookie;
          (val, rest, found) = cutQueryOverride (rq_RawQuery (cx_request cx));
          ov = ab_Override cfg \<and> found;
          cx1 = (if ov then cx\<lparr>cx_request := (cx_request cx)\<lparr>rq_RawQuery := rest\<rparr>\<rparr> else cx)
      in case (if ov then abValidVariant val else None) of
           Some v \<Rightarrow> newPin cx1 d v ''q''
         | None \<Rightarrow>
             (let d1 = d\<lparr>d_record := \<not> abFrozen phase \<and> \<not> hopped\<rparr>
              in if phase = abPhaseAborted \<or> phase = abPhaseDiscarding then newPin cx1 d1 abVariantA ''n''
                 else if phase = abPhasePromoting then newPin cx1 d1 abVariantB ''n''
                 else ab_newSession sha rnd now phase canSetCookie cx1 d1))"

definition ab_pinned :: "(string \<Rightarrow> string) \<Rightarrow> instant \<Rightarrow> string \<Rightarrow> bool \<Rightarrow> bool \<Rightarrow> ab_ctx \<Rightarrow> abDecision \<Rightarrow> abPin \<Rightarrow> ab_ctx \<times> abDecision" where
  "ab_pinned sha now phase canSetCookie hopped cx d p =
     (let cfg = d_cfg d; frozen = abFrozen phase; n = now div second;
          d1 = d\<lparr>d_record := \<not> frozen \<and> \<not> hopped \<and> pin_src p \<noteq> ''q''\<rparr>;
          cx1 = (if \<not> hopped then cx\<lparr>cx_run := notePinned (cx_run cx) (abIdx (pin_variant p)) (pin_nonce p) now frozen\<rparr> else cx);
          cx2 = (if canSetCookie \<and> go_div (ab_PinRefresh cfg) second \<le> n - pin_lastSeen p
                 then cx1\<lparr>cx_header := setPin sha (d_service d) cfg (cx_header cx1) (p\<lparr>pin_lastSeen := n\<rparr>)\<rparr> else cx1)
      in ab_finish phase cx2 d1 (pin_variant p))"

definition abAssign :: "(string \<Rightarrow> string) \<Rightarrow> random_values \<Rightarrow> instant \<Rightarrow> abRun \<Rightarrow> abConfig \<Rightarrow> header \<Rightarrow> request \<Rightarrow> string \<Rightarrow>
    bool \<Rightarrow> bool \<Rightarrow> bool \<Rightarrow> ab_ctx \<times> abDecision" where
  "abAssign sha rnd now run cfg h rq origPath hopped authHop failoverHop =
     (let phase = run_phase run cfg; frozen = abFrozen phase;
          incoming = h_get (rq_Header rq) abVariantHeader;
          cx = \<lparr>cx_run = run, cx_header = h, cx_request = rq\<lparr>rq_Header := h_del (rq_Header rq) abVariantHeader\<rparr>\<rparr>;
          static = hasPrefixAny origPath (ab_Static cfg);
          d = \<lparr>d_service = r_service run, d_testID = r_id run, d_cfg = cfg, d_variant = [], d_failover = [], d_failoverFrom = [],
               d_excluded = False, d_static = static, d_record = False\<rparr>;
          canSetCookie = (\<not> hopped \<and> \<not> static);
          unpinned = ab_unpinned sha rnd now phase canSetCookie hopped cx d;
          pinOrNew = (case req_cookie (cx_request cx) (abPinCookieName sha (r_service run)) of
                        None \<Rightarrow> unpinned
                      | Some c \<Rightarrow> (case parseABPin c cfg now of
                                    None \<Rightarrow> unpinned
                                  | Some p \<Rightarrow> ab_pinned sha now phase canSetCookie hopped cx d p))
      in if hasPrefixAny origPath (ab_Exclude cfg) then ab_finish phase cx (d\<lparr>d_excluded := True\<rparr>) abVariantA
         else case (if authHop then abValidVariant incoming else None) of
           None \<Rightarrow> pinOrNew
         | Some v \<Rightarrow>
             (let d1 = d\<lparr>d_record := \<not> frozen\<rparr>
              in if failoverHop
                 then (let (cx1, d2) = ab_finish phase cx d1 (abOther v)
                       in (cx1, d2\<lparr>d_failover := [], d_failoverFrom := v\<rparr>))
                 else ab_finish phase cx d1 v))"

subsection \<open>Properties of assignment\<close>

lemma ab_finish_request [simp]: "cx_request (fst (ab_finish phase cx d v)) = cx_request cx"
  "cx_run (fst (ab_finish phase cx d v)) = cx_run cx" "d_variant (snd (ab_finish phase cx d v)) = v"
  by (auto simp: ab_finish_def Let_def)

lemma ab_newPin_simps [simp]: "cx_request (fst (ab_newPin sha rnd now phase c cx d v src)) = cx_request cx"
  "cx_run (fst (ab_newPin sha rnd now phase c cx d v src)) = cx_run cx"
  "d_variant (snd (ab_newPin sha rnd now phase c cx d v src)) = v"
  by (auto simp: ab_newPin_def Let_def)

lemma ab_pinned_simps [simp]: "cx_request (fst (ab_pinned sha now phase c hopped cx d p)) = cx_request cx"
  "d_variant (snd (ab_pinned sha now phase c hopped cx d p)) = pin_variant p"
  by (auto simp: ab_pinned_def Let_def)

lemma canonical_variant: "canonicalKey abVariantHeader = abVariantHeader" by code_simp

text \<open>
  (C40) A session keeps its variant: a request with a valid pin gets exactly the pinned variant, in every phase of
  the test and whatever else it carries, unless its path is excluded or a peer already decided; and
  the variant header the client sent never reaches the backend.
\<close>

theorem pinned_session_keeps_variant:
  assumes "req_cookie (rq\<lparr>rq_Header := h_del (rq_Header rq) abVariantHeader\<rparr>) (abPinCookieName sha (r_service run)) = Some c"
    and "parseABPin c cfg now = Some p" and "\<not> hasPrefixAny origPath (ab_Exclude cfg)" and "\<not> authHop"
    and "abAssign sha rnd now run cfg h rq origPath hopped authHop fo = (cx, d)"
  shows "d_variant d = pin_variant p \<and> h_get (rq_Header (cx_request cx)) abVariantHeader = [] \<and>
    d_record d = (\<not> abFrozen (run_phase run cfg) \<and> \<not> hopped \<and> pin_src p \<noteq> ''q'')"
proof -
  let ?cx = "\<lparr>cx_run = run, cx_header = h, cx_request = rq\<lparr>rq_Header := h_del (rq_Header rq) abVariantHeader\<rparr>\<rparr>"
  let ?d = "\<lparr>d_service = r_service run, d_testID = r_id run, d_cfg = cfg, d_variant = [], d_failover = [], d_failoverFrom = [],
     d_excluded = False, d_static = hasPrefixAny origPath (ab_Static cfg), d_record = False\<rparr>"
  have r: "(cx, d) = ab_pinned sha now (run_phase run cfg) (\<not> hopped \<and> \<not> hasPrefixAny origPath (ab_Static cfg)) hopped ?cx ?d p"
    using assms by (simp add: abAssign_def Let_def)
  have "d_record (snd (ab_pinned sha now ph c hopped cx0 d0 p)) = (\<not> abFrozen ph \<and> \<not> hopped \<and> pin_src p \<noteq> ''q'')" for ph c cx0 d0
    by (auto simp: ab_pinned_def ab_finish_def Let_def)
  then have "d_record d = (\<not> abFrozen (run_phase run cfg) \<and> \<not> hopped \<and> pin_src p \<noteq> ''q'')"
    by (metis r snd_conv)
  moreover have "d_variant d = pin_variant p" using r by (metis ab_pinned_simps(2) snd_conv)
  moreover have "cx_request cx = cx_request ?cx" using r by (metis ab_pinned_simps(1) fst_conv)
  ultimately show ?thesis by (simp add: h_get_del)
qed

text \<open>
  After an abort no new session reaches B: while a test is latched or its label says aborted or discarding, every
  request without a valid pin and without a peer's or tester's explicit choice is assigned A and is not recorded.
\<close>

theorem aborted_new_sessions_to_A:
  assumes "abFrozen (run_phase run cfg)"
    and "case req_cookie (rq\<lparr>rq_Header := h_del (rq_Header rq) abVariantHeader\<rparr>) (abPinCookieName sha (r_service run)) of
           None \<Rightarrow> True | Some c \<Rightarrow> parseABPin c cfg now = None"
    and "\<not> authHop" and "\<not> ab_Override cfg"
    and "abAssign sha rnd now run cfg h rq origPath hopped authHop fo = (cx, d)"
  shows "d_variant d = abVariantA \<and> \<not> d_record d"
proof -
  let ?ph = "run_phase run cfg"
  have ph: "?ph = abPhaseAborted \<or> ?ph = abPhaseDiscarding" using assms(1) by (simp add: abFrozen_def)
  have u: "d_variant (snd (ab_unpinned sha rnd now ?ph c hopped cx0 d0)) = abVariantA \<and>
      \<not> d_record (snd (ab_unpinned sha rnd now ?ph c hopped cx0 d0))" if "d_cfg d0 = cfg" for c cx0 d0
    using ph assms(4) that
    by (auto simp: ab_unpinned_def Let_def ab_newPin_def ab_finish_def abFrozen_def split: prod.split)
  have e: "d_variant (snd (ab_finish ?ph cx0 d0 abVariantA)) = abVariantA \<and>
      d_record (snd (ab_finish ?ph cx0 d0 abVariantA)) = d_record d0" for cx0 d0
    by (auto simp: ab_finish_def Let_def)
  show ?thesis
  proof (cases "hasPrefixAny origPath (ab_Exclude cfg)")
    case True
    let ?d = "\<lparr>d_service = r_service run, d_testID = r_id run, d_cfg = cfg, d_variant = [], d_failover = [], d_failoverFrom = [],
       d_excluded = True, d_static = hasPrefixAny origPath (ab_Static cfg), d_record = False\<rparr>"
    let ?cx = "\<lparr>cx_run = run, cx_header = h, cx_request = rq\<lparr>rq_Header := h_del (rq_Header rq) abVariantHeader\<rparr>\<rparr>"
    have "(cx, d) = ab_finish ?ph ?cx ?d abVariantA" using True assms(5) by (simp add: abAssign_def Let_def)
    then show ?thesis using e [of ?cx ?d] by (metis snd_conv abDecision.select_convs(9))
  next
    case False
    let ?d = "\<lparr>d_service = r_service run, d_testID = r_id run, d_cfg = cfg, d_variant = [], d_failover = [], d_failoverFrom = [],
       d_excluded = False, d_static = hasPrefixAny origPath (ab_Static cfg), d_record = False\<rparr>"
    from False assms(2-5) have "(cx, d) = ab_unpinned sha rnd now ?ph (\<not> hopped \<and> \<not> hasPrefixAny origPath (ab_Static cfg)) hopped
        \<lparr>cx_run = run, cx_header = h, cx_request = rq\<lparr>rq_Header := h_del (rq_Header rq) abVariantHeader\<rparr>\<rparr> ?d"
      by (auto simp: abAssign_def Let_def split: option.splits)
    then show ?thesis using u [of ?d] by (metis abDecision.select_convs(3) snd_conv)
  qed
qed

definition ex_pinned_request :: request where
  "ex_pinned_request = \<lparr>rq_Method = ''GET'', rq_Host = ''web.example'', rq_Path = ''/'', rq_RawQuery = [],
     rq_Header = [(''Cookie'', [''ab_v_776562=test1.B.u.0123abcd.100.200'']), (''X-Variant'', [''A''])], rq_RemoteAddr = ''10.0.0.9:1''\<rparr>"

definition ex_rnd :: random_values where "ex_rnd = \<lparr>rv_hex4 = ''0011aabb'', rv_hex8 = ''0011aabb0011aabb'', rv_int = 42\<rparr>"

theorem pinned_session_keeps_variant_witness:
  "d_variant (snd (abAssign (\<lambda>s. s) ex_rnd (300 * second) (newABRun ''web'' ''test1'' 0) ex_cfg [] ex_pinned_request ''/'' False False False)) = abVariantB"
proof -
  let ?run = "newABRun ''web'' ''test1'' 0"
  obtain cx d where a: "abAssign (\<lambda>s. s) ex_rnd (300 * second) ?run ex_cfg [] ex_pinned_request ''/'' False False False = (cx, d)"
    by (rule prod.exhaust)
  have c: "req_cookie (ex_pinned_request\<lparr>rq_Header := h_del (rq_Header ex_pinned_request) abVariantHeader\<rparr>)
      (abPinCookieName (\<lambda>s. s) (r_service ?run)) = Some ''test1.B.u.0123abcd.100.200''" by code_simp
  have p: "parseABPin ''test1.B.u.0123abcd.100.200'' ex_cfg (300 * second) =
      Some \<lparr>pin_id = ''test1'', pin_variant = ''B'', pin_src = ''u'', pin_nonce = ''0123abcd'', pin_issued = 100, pin_lastSeen = 200\<rparr>"
    by code_simp
  have x: "\<not> hasPrefixAny ''/'' (ab_Exclude ex_cfg)" by code_simp
  from pinned_session_keeps_variant [OF c p x _ a] a show ?thesis by (simp add: abVariantB_def)
qed

theorem aborted_new_sessions_to_A_witness:
  "d_variant (snd (abAssign (\<lambda>s. s) ex_rnd (300 * second) ((newABRun ''web'' ''test1'' 0)\<lparr>r_latched := True\<rparr>) ex_cfg []
      (ex_pinned_request\<lparr>rq_Header := []\<rparr>) ''/'' False False False)) = abVariantA"
proof -
  let ?run = "(newABRun ''web'' ''test1'' 0)\<lparr>r_latched := True\<rparr>" and ?rq = "ex_pinned_request\<lparr>rq_Header := []\<rparr>"
  obtain cx d where a: "abAssign (\<lambda>s. s) ex_rnd (300 * second) ?run ex_cfg [] ?rq ''/'' False False False = (cx, d)"
    by (rule prod.exhaust)
  have "abFrozen (run_phase ?run ex_cfg)" by code_simp
  moreover have "case req_cookie (?rq\<lparr>rq_Header := h_del (rq_Header ?rq) abVariantHeader\<rparr>) (abPinCookieName (\<lambda>s. s) (r_service ?run)) of
      None \<Rightarrow> True | Some c \<Rightarrow> parseABPin c ex_cfg (300 * second) = None" by code_simp
  moreover have "\<not> ab_Override ex_cfg" by code_simp
  ultimately show ?thesis using aborted_new_sessions_to_A [OF _ _ _ _ a] a by simp
qed

text \<open>Pins the proxy issues.\<close>

definition pin_wf :: "abPin \<Rightarrow> bool" where
  "pin_wf p \<longleftrightarrow> abIDRe (pin_id p) \<and> pin_variant p \<in> {''A'', ''B''} \<and> pin_src p \<in> {''g'', ''u'', ''n'', ''q''} \<and>
     length (pin_nonce p) = 8 \<and> list_all is_hex_lower (pin_nonce p) \<and>
     0 \<le> pin_issued p \<and> pin_issued p < 10 ^ 12 \<and> 0 \<le> pin_lastSeen p \<and> pin_lastSeen p < 10 ^ 12"

lemma nat_str_length: "n < 10 ^ Suc k \<Longrightarrow> length (nat_str n) \<le> Suc k"
proof (induction k arbitrary: n)
  case 0
  then show ?case by (simp add: nat_str.simps)
next
  case (Suc k)
  then have "n div 10 < 10 ^ Suc k" by (simp add: less_mult_imp_div_less)
  from Suc.IH [OF this] show ?case by (subst nat_str.simps) simp
qed

lemma digit_not_dot: "digit_val c \<noteq> None \<Longrightarrow> c \<noteq> CHR ''.''" by (auto simp: digit_val_def)

lemma lower_alnum_not_dot: "is_lower_alnum c \<Longrightarrow> c \<noteq> CHR ''.''" "is_hex_lower c \<Longrightarrow> c \<noteq> CHR ''.''"
  by (auto simp: is_lower_alnum_def is_hex_lower_def Let_def)

lemma digit_digit_val: "n < 10 \<Longrightarrow> digit_val (digit n) = Some n"
proof -
  assume "n < 10"
  then have "n \<in> set [0..<10]" by simp
  moreover have "list_all (\<lambda>n. digit_val (digit n) = Some n) [0..<10]" by code_simp
  ultimately show ?thesis by (simp add: list_all_iff)
qed

lemma stamp_digits_itoa:
  assumes "0 \<le> i" "i < 10 ^ 12"
  shows "stamp_digits (itoa i)" "CHR ''.'' \<notin> set (itoa i)"
proof -
  have i: "itoa i = nat_str (nat i)" using assms by (simp add: itoa_def)
  have "nat i < 10 ^ Suc 11" using assms(2) by simp
  then have "length (nat_str (nat i)) \<le> Suc 11" by (rule nat_str_length)
  moreover have d: "digit_val c \<noteq> None" if "c \<in> set (nat_str (nat i))" for c
    using that nat_str_digits [of "nat i"] digit_digit_val by fastforce
  moreover have "1 \<le> length (nat_str (nat i))" by (simp add: Suc_le_eq)
  ultimately show "stamp_digits (itoa i)" by (simp add: i stamp_digits_def all_digits_def list_all_iff)
  show "CHR ''.'' \<notin> set (itoa i)" using d digit_not_dot by (auto simp: i)
qed

lemma pin_split:
  assumes "pin_wf p"
  shows "split_on CHR ''.'' (pin_string p) =
    [pin_id p, pin_variant p, pin_src p, pin_nonce p, itoa (pin_issued p), itoa (pin_lastSeen p)]"
proof -
  have "CHR ''.'' \<notin> set (pin_id p)" "CHR ''.'' \<notin> set (pin_nonce p)"
    using assms lower_alnum_not_dot by (auto simp: pin_wf_def abIDRe_def list_all_iff)
  moreover have "CHR ''.'' \<notin> set (pin_variant p)" "CHR ''.'' \<notin> set (pin_src p)" using assms by (auto simp: pin_wf_def)
  moreover have "CHR ''.'' \<notin> set (itoa (pin_issued p))" "CHR ''.'' \<notin> set (itoa (pin_lastSeen p))"
    using assms stamp_digits_itoa by (auto simp: pin_wf_def)
  ultimately show ?thesis by (simp add: pin_string_def split_on_append split_on_notin)
qed

lemma pin_length: "pin_wf p \<Longrightarrow> length (pin_string p) \<le> abPinMaxLen"
  using stamp_digits_itoa(1) [of "pin_issued p"] stamp_digits_itoa(1) [of "pin_lastSeen p"]
  by (auto simp: pin_wf_def pin_string_def abIDRe_def abPinMaxLen_def stamp_digits_def)

text \<open>
  Pins survive the round trip through the browser: a well-formed pin of the current test, printed and read back,
  is accepted unchanged exactly while it is within the idle time and the maximum session (and not from the future
  beyond the allowed skew).
\<close>

theorem pin_round_trip:
  assumes "pin_wf p" "pin_id p = ab_ID cfg" "pin_issued p \<le> pin_lastSeen p"
  shows "parseABPin (pin_string p) cfg now =
    (if now div second + 120 < pin_lastSeen p \<or> go_div (ab_SessionIdle cfg) second \<le> now div second - pin_lastSeen p \<or>
        go_div (ab_MaxSession cfg) second \<le> now div second - pin_issued p then None else Some p)"
proof -
  have ints: "atoi (itoa (pin_issued p)) = Some (pin_issued p)" "atoi (itoa (pin_lastSeen p)) = Some (pin_lastSeen p)"
    using assms(1) by (auto intro!: atoi_itoa simp: pin_wf_def int64_ok_def)
  have "stamp_digits (itoa (pin_issued p))" "stamp_digits (itoa (pin_lastSeen p))"
    using assms(1) stamp_digits_itoa by (auto simp: pin_wf_def)
  then have re: "abPinRe (pin_string p) =
      Some (pin_id p, pin_variant p, pin_src p, pin_nonce p, itoa (pin_issued p), itoa (pin_lastSeen p))"
    using assms(1) by (simp add: abPinRe_def pin_split pin_wf_def)
  have skew: "go_div abPinSkew second = 120" by code_simp
  show ?thesis
    using pin_length [OF assms(1)] assms(2,3) by (simp add: parseABPin_def re ints skew Let_def)
qed

theorem pin_round_trip_witness:
  "parseABPin (pin_string \<lparr>pin_id = ''test1'', pin_variant = ''B'', pin_src = ''u'', pin_nonce = ''0123abcd'', pin_issued = 100, pin_lastSeen = 200\<rparr>)
     ex_cfg (300 * second) \<noteq> None"
proof -
  let ?p = "\<lparr>pin_id = ''test1'', pin_variant = ''B'', pin_src = ''u'', pin_nonce = ''0123abcd'', pin_issued = 100, pin_lastSeen = 200\<rparr>"
  have "pin_wf ?p" "pin_id ?p = ab_ID ex_cfg" "pin_issued ?p \<le> pin_lastSeen ?p" by code_simp+
  moreover have "go_div (ab_SessionIdle ex_cfg) second = 1800" "go_div (ab_MaxSession ex_cfg) second = 86400"
    "300 * second div second = 300" by code_simp+
  ultimately show ?thesis using pin_round_trip [of ?p ex_cfg "300 * second"] by simp
qed

text \<open>
  Widening a test never moves anyone out of it: with a larger split every id that was in B stays in B, at
  split 0 nobody is in B and at split 100 everybody is.
\<close>

theorem split_monotone:
  assumes "0 \<le> s" "s \<le> s'" "s' \<le> 100"
  shows "(abSplitVariant sha (cfg\<lparr>ab_Split := s\<rparr>) v = abVariantB \<longrightarrow> abSplitVariant sha (cfg\<lparr>ab_Split := s'\<rparr>) v = abVariantB) \<and>
    abSplitVariant sha (cfg\<lparr>ab_Split := 0\<rparr>) v = abVariantA \<and> abSplitVariant sha (cfg\<lparr>ab_Split := 100\<rparr>) v = abVariantB"
proof -
  let ?h = "abHash sha (ab_ID cfg) v"
  have lt: "?h mod 10000 < of_int t * 100 \<longleftrightarrow> uint (?h mod 10000) < t * 100" if "0 \<le> t" "t \<le> 100" for t
  proof -
    have "uint (of_int t * 100 :: 64 word) = t * 100" using that by (simp add: uint_word_ariths uint_word_of_int)
    then show ?thesis by (simp add: word_less_def)
  qed
  have "uint (?h mod 10000) < 10000" by (simp add: uint_mod)
  moreover have "abVariantA \<noteq> abVariantB" by (simp add: abVariantA_def abVariantB_def)
  ultimately show ?thesis
    using assms lt [of s] lt [of s'] lt [of 0] lt [of 100] by (auto simp: abSplitVariant_def)
qed

theorem split_monotone_witness:
  "abSplitVariant (\<lambda>s. s) (ex_cfg\<lparr>ab_Split := 0\<rparr>) ''user7'' = abVariantA \<and>
   abSplitVariant (\<lambda>s. s) (ex_cfg\<lparr>ab_Split := 100\<rparr>) ''user7'' = abVariantB"
  using split_monotone [of 50 60 "\<lambda>s. s" ex_cfg "''user7''"] by simp

end
