(* ===== verification/RouterState.thy ===== *)
theory RouterState
  imports RedisLimit Cache AuthGate ABRoute
begin

section \<open>The router's state and its refresh (\<^verbatim>\<open>cmd/proxy/router.go\<close>)\<close>

text \<open>
  The routes, what persists across refreshes (limiters, caches, A/B runs, transports, draining containers,
  tombstones), and the operations that replace or change them: \<^verbatim>\<open>Set\<close> with its parts, \<^verbatim>\<open>markDraining\<close> and
  \<^verbatim>\<open>clearDraining\<close>. The \<^verbatim>\<open>limiter\<close> interface is a record of operations on a type of limiters; limiters
  and caches are objects at addresses, shared between the router's maps and the groups.
\<close>

subsection \<open>State\<close>

record 'l limiter_ops =
  lo_new :: "string \<Rightarrow> int \<Rightarrow> 'l"
  lo_allow :: "'l \<Rightarrow> string \<Rightarrow> instant \<Rightarrow> 'l \<times> bool"
  lo_setRate :: "'l \<Rightarrow> int \<Rightarrow> 'l"
  lo_stop :: "'l \<Rightarrow> 'l option"

definition mem_ops :: "rateLimiter limiter_ops" where
  "mem_ops = \<lparr>lo_new = (\<lambda>key rpm. newRateLimiter rpm), lo_allow = Allow, lo_setRate = SetRate, lo_stop = Stop\<rparr>"

record routeTombstone =
  tb_host :: string
  tb_path :: string
  tb_until :: instant

record 'l Router =
  rt_groups :: "RouteGroup list"
  rt_heap :: bheap
  rt_limiters :: "(string \<times> nat) list"
  rt_limObjs :: "(nat \<times> 'l) list"
  rt_caches :: "(string \<times> nat) list"
  rt_cacheObjs :: "(nat \<times> responseCache) list"
  rt_next :: nat
  rt_xffTrusted :: "ipnet list"
  rt_unrouted :: "rateLimiter option"
  rt_auth :: "authGate option"
  rt_peerHopAuth :: string
  rt_abRuns :: ab_runs
  rt_peerSyncInterval :: duration
  rt_drainSet :: "(string \<times> instant) list"
  rt_tombstones :: "routeTombstone list"
  rt_transports :: "(string \<times> nat) list"

definition drainTTL :: duration where "drainTTL = 10 * minute"
definition routeTombstoneTTL :: duration where "routeTombstoneTTL = 5 * minute"
definition transientRetryAfter :: int where "transientRetryAfter = 5"

definition routeKey :: "RouteGroup \<Rightarrow> string" where
  "routeKey g = g_Host g @ ''|'' @ g_PathPrefix g"

definition defaultRateRPM :: int where "defaultRateRPM = 60"

subsection \<open>Draining\<close>

definition drain_backend :: "(Backend \<Rightarrow> bool) \<Rightarrow> bheap \<Rightarrow> baddr \<Rightarrow> bheap" where
  "drain_backend P h a = (if P (h a) then h(a := (h a)\<lparr>b_draining := True\<rparr>) else h)"

definition all_backends :: "RouteGroup list \<Rightarrow> baddr list" where
  "all_backends gs = concat (map g_Backends gs)"

text \<open>The second result is the transports whose idle connections are closed.\<close>

definition markDraining :: "'l Router \<Rightarrow> instant \<Rightarrow> string \<Rightarrow> 'l Router \<times> nat list" where
  "markDraining r now i =
     (if i = [] then (r, [])
      else let hit = (\<lambda>b. b_ContainerID b = i);
               as = filter (\<lambda>a. hit (rt_heap r a)) (all_backends (rt_groups r))
           in (r\<lparr>rt_drainSet := AList.update i now (rt_drainSet r),
                 rt_heap := foldl (drain_backend hit) (rt_heap r) (all_backends (rt_groups r))\<rparr>,
               remdups (List.map_filter (\<lambda>a. b_transport (rt_heap r a)) as)))"

definition clearDraining :: "'l Router \<Rightarrow> string \<Rightarrow> 'l Router" where
  "clearDraining r i = r\<lparr>rt_drainSet := AList.delete i (rt_drainSet r)\<rparr>"

definition applyDrainingLocked :: "'l Router \<Rightarrow> instant \<Rightarrow> RouteGroup list \<Rightarrow> 'l Router" where
  "applyDrainingLocked r now gs =
     (if rt_drainSet r = [] then r
      else let ds = filter (\<lambda>(i, since). \<not> drainTTL < now - since) (rt_drainSet r)
           in r\<lparr>rt_drainSet := ds,
                rt_heap := foldl (drain_backend (\<lambda>b. b_ContainerID b \<noteq> [] \<and> b_ContainerID b \<in> set (keys ds)))
                  (rt_heap r) (all_backends gs)\<rparr>)"

subsection \<open>Limiters and caches\<close>

definition wire_limiter :: "'l limiter_ops \<Rightarrow> 'l Router \<times> string list \<Rightarrow> RouteGroup \<Rightarrow> ('l Router \<times> string list) \<times> RouteGroup" where
  "wire_limiter ops st g =
     (let (r, live) = st; key = routeKey g
      in if \<not> g_RateLimit g then (st, g)
         else case map_of (rt_limiters r) key of
           Some a \<Rightarrow>
             ((r\<lparr>rt_limObjs := AList.map_entry a (\<lambda>l. lo_setRate ops l (g_RateRPM g)) (rt_limObjs r)\<rparr>, key # live), g\<lparr>g_limiter := Some a\<rparr>)
         | None \<Rightarrow>
             ((r\<lparr>rt_limiters := AList.update key (rt_next r) (rt_limiters r),
                 rt_limObjs := (rt_next r, lo_new ops key (g_RateRPM g)) # rt_limObjs r,
                 rt_next := Suc (rt_next r)\<rparr>, key # live), g\<lparr>g_limiter := Some (rt_next r)\<rparr>))"

definition stop_limiter :: "'l limiter_ops \<Rightarrow> (nat \<times> 'l) list \<Rightarrow> nat \<Rightarrow> (nat \<times> 'l) list option" where
  "stop_limiter ops objs a =
     (case map_of objs a of
        None \<Rightarrow> None
      | Some l \<Rightarrow> (case lo_stop ops l of None \<Rightarrow> None | Some l1 \<Rightarrow> Some (AList.update a l1 objs)))"

fun stop_all :: "'l limiter_ops \<Rightarrow> (nat \<times> 'l) list \<Rightarrow> nat list \<Rightarrow> (nat \<times> 'l) list option" where
  "stop_all ops objs [] = Some objs"
| "stop_all ops objs (a # as) = (case stop_limiter ops objs a of None \<Rightarrow> None | Some objs1 \<Rightarrow> stop_all ops objs1 as)"

text \<open>\<open>None\<close> is the panic of stopping a limiter twice.\<close>

definition reconcileLimiters :: "'l limiter_ops \<Rightarrow> 'l Router \<Rightarrow> RouteGroup list \<Rightarrow> ('l Router \<times> RouteGroup list) option" where
  "reconcileLimiters ops r gs =
     (let ((r1, live), gs1) = thread (wire_limiter ops) (r, []) gs;
          dead = filter (\<lambda>(k, a). k \<notin> set live) (rt_limiters r1)
      in case stop_all ops (rt_limObjs r1) (map snd dead) of
           None \<Rightarrow> None
         | Some objs \<Rightarrow> Some (r1\<lparr>rt_limiters := filter (\<lambda>(k, a). k \<in> set live) (rt_limiters r1), rt_limObjs := objs\<rparr>, gs1))"

definition wire_cache :: "'l Router \<times> string list \<Rightarrow> RouteGroup \<Rightarrow> ('l Router \<times> string list) \<times> RouteGroup" where
  "wire_cache st g =
     (let (r, live) = st; key = routeKey g
      in if g_CacheTTL g \<le> 0 then (st, g)
         else case map_of (rt_caches r) key of
           Some a \<Rightarrow>
             ((r\<lparr>rt_cacheObjs := AList.map_entry a (\<lambda>c. setTTL c (g_CacheTTL g)) (rt_cacheObjs r)\<rparr>, key # live), g\<lparr>g_cache := Some a\<rparr>)
         | None \<Rightarrow>
             ((r\<lparr>rt_caches := AList.update key (rt_next r) (rt_caches r),
                 rt_cacheObjs := (rt_next r, newResponseCache (g_CacheTTL g)) # rt_cacheObjs r,
                 rt_next := Suc (rt_next r)\<rparr>, key # live), g\<lparr>g_cache := Some (rt_next r)\<rparr>))"

definition reconcileCaches :: "'l Router \<Rightarrow> RouteGroup list \<Rightarrow> 'l Router \<times> RouteGroup list" where
  "reconcileCaches r gs =
     (let ((r1, live), gs1) = thread wire_cache (r, []) gs
      in (r1\<lparr>rt_caches := filter (\<lambda>(k, a). k \<in> set live) (rt_caches r1)\<rparr>, gs1))"

subsection \<open>Transports\<close>

definition wire_transport :: "'l Router \<times> string list \<Rightarrow> baddr \<Rightarrow> ('l Router \<times> string list) \<times> unit" where
  "wire_transport st a =
     (let (r, live) = st; b = rt_heap r a; u = b_URL b
      in if b_proxy b = None then (st, ())
         else case b_transport b of
           Some t \<Rightarrow>
             ((if map_of (rt_transports r) u = None then r\<lparr>rt_transports := AList.update u t (rt_transports r)\<rparr> else r, u # live), ())
         | None \<Rightarrow>
             if b_proxyTransport b \<noteq> None then (st, ())
             else let (r1, t) = (case map_of (rt_transports r) u of
                                   Some t \<Rightarrow> (r, t)
                                 | None \<Rightarrow> (r\<lparr>rt_transports := AList.update u (rt_next r) (rt_transports r), rt_next := Suc (rt_next r)\<rparr>, rt_next r))
                  in ((r1\<lparr>rt_heap := (rt_heap r1)(a := b\<lparr>b_proxyTransport := Some t, b_transport := Some t\<rparr>)\<rparr>, u # live), ()))"

definition reconcileTransportsLocked :: "'l Router \<Rightarrow> RouteGroup list \<Rightarrow> 'l Router \<times> nat list" where
  "reconcileTransportsLocked r gs =
     (let (r1, live) = fst (thread wire_transport (r, []) (all_backends gs))
      in (r1\<lparr>rt_transports := filter (\<lambda>(u, t). u \<in> set live) (rt_transports r1)\<rparr>,
          map snd (filter (\<lambda>(u, t). u \<notin> set live) (rt_transports r1))))"

subsection \<open>Tombstones\<close>

definition tombKey :: "RouteGroup \<Rightarrow> string" where
  "tombKey g = to_lower (g_Host g) @ ''|'' @ g_PathPrefix g"

fun keep_tombs :: "instant \<Rightarrow> string list \<Rightarrow> string list \<Rightarrow> routeTombstone list \<Rightarrow> routeTombstone list \<times> string list" where
  "keep_tombs now newKeys seen [] = ([], seen)"
| "keep_tombs now newKeys seen (t # ts) =
     (let key = tb_host t @ ''|'' @ tb_path t
      in if tb_until t < now \<or> key \<in> set newKeys \<or> key \<in> set seen then keep_tombs now newKeys seen ts
         else let (ts1, seen1) = keep_tombs now newKeys (key # seen) ts in (t # ts1, seen1))"

fun new_tombs :: "instant \<Rightarrow> string list \<Rightarrow> string list \<Rightarrow> RouteGroup list \<Rightarrow> routeTombstone list" where
  "new_tombs now newKeys seen [] = []"
| "new_tombs now newKeys seen (g # gs) =
     (let key = tombKey g
      in if key \<in> set newKeys \<or> key \<in> set seen then new_tombs now newKeys seen gs
         else \<lparr>tb_host = to_lower (g_Host g), tb_path = g_PathPrefix g, tb_until = now + routeTombstoneTTL\<rparr>
              # new_tombs now newKeys (key # seen) gs)"

definition reconcileTombstonesLocked :: "'l Router \<Rightarrow> instant \<Rightarrow> RouteGroup list \<Rightarrow> RouteGroup list \<Rightarrow> 'l Router" where
  "reconcileTombstonesLocked r now prev gs =
     (let newKeys = map tombKey gs;
          (kept, seen) = keep_tombs now newKeys [] (rt_tombstones r)
      in r\<lparr>rt_tombstones := sort_longest tb_path (kept @ new_tombs now newKeys seen prev)\<rparr>)"

subsection \<open>The refresh\<close>

definition healthKey :: "RouteGroup \<Rightarrow> Backend \<Rightarrow> string" where
  "healthKey g b = g_Host g @ ''|'' @ g_PathPrefix g @ ''|'' @ b_URL b @ ''|'' @ b_Variant b"

definition prevHealth :: "bheap \<Rightarrow> RouteGroup list \<Rightarrow> (string \<times> bool) list" where
  "prevHealth h prev =
     foldl (\<lambda>m (g, a). AList.update (healthKey g (h a)) (b_healthyFlag (h a)) m) []
       (concat (map (\<lambda>g. map (Pair g) (g_Backends g)) prev))"

definition carryHealth :: "(string \<times> bool) list \<Rightarrow> bheap \<Rightarrow> RouteGroup list \<Rightarrow> bheap" where
  "carryHealth m h gs =
     foldl (\<lambda>h (g, a). h(a := (h a)\<lparr>b_healthyFlag :=
              (case map_of m (healthKey g (h a)) of None \<Rightarrow> True | Some ok \<Rightarrow> ok)\<rparr>)) h
       (concat (map (\<lambda>g. map (Pair g) (g_Backends g)) gs))"

text \<open>The groups handed in have their backends in the heap; the second result is the transports to close.\<close>

definition Set :: "'l limiter_ops \<Rightarrow> 'l Router \<Rightarrow> instant \<Rightarrow> RouteGroup list \<Rightarrow> ('l Router \<times> nat list) option" where
  "Set ops r now groups =
     (let gs0 = sort_longest g_PathPrefix groups; prev = rt_groups r
      in case reconcileLimiters ops r gs0 of
           None \<Rightarrow> None
         | Some (r1, gs1) \<Rightarrow>
             (let (r2, gs2) = reconcileCaches r1 gs1;
                  (runs, gs3) = reconcileAB (rt_heap r2) now (rt_peerSyncInterval r2) (rt_abRuns r2) gs2;
                  r3 = applyDrainingLocked (r2\<lparr>rt_abRuns := runs\<rparr>) now gs3;
                  (r4, stale) = reconcileTransportsLocked r3 gs3;
                  r5 = reconcileTombstonesLocked r4 now prev gs3;
                  m = prevHealth (rt_heap r5) prev
              in Some (r5\<lparr>rt_groups := gs3, rt_heap := carryHealth m (rt_heap r5) gs3\<rparr>, stale)))"

subsection \<open>Container events (\<^verbatim>\<open>cmd/proxy/main.go\<close>)\<close>

definition drainSignals :: "string list" where
  "drainSignals = [''15'', ''2'', ''3'', ''9'', ''SIGTERM'', ''SIGINT'', ''SIGQUIT'', ''SIGKILL'']"

definition to_upper :: "string \<Rightarrow> string" where "to_upper s = map upper_char s"

record dockerEvent =
  ev_Action :: string
  ev_ID :: string
  ev_ActorID :: string
  ev_Signal :: string

text \<open>\<open>refresh\<close> rebuilds the groups; the second result is whether it ran.\<close>

definition handleContainerEvent :: "('l Router \<Rightarrow> 'l Router) \<Rightarrow> 'l Router \<Rightarrow> instant \<Rightarrow> dockerEvent \<Rightarrow> 'l Router \<times> bool" where
  "handleContainerEvent refresh r now ev =
     (let i = (if ev_ActorID ev = [] then ev_ID ev else ev_ActorID ev)
      in if ev_Action ev = ''kill''
         then (refresh (if to_upper (ev_Signal ev) \<in> set drainSignals then fst (markDraining r now i) else r), True)
         else if ev_Action ev \<in> {''start'', ''die'', ''destroy''} then (refresh (clearDraining r i), True)
         else if ev_Action ev = ''stop'' then (refresh r, True)
         else if has_prefix (ev_Action ev) ''health_status'' then (refresh r, True)
         else (r, False))"

subsection \<open>Limiters across refreshes\<close>

text \<open>
  What the router relies on in a limiter: a limiter that has not been stopped can be stopped, and changing the rate
  keeps what the limiter remembers of its clients.
\<close>

locale limiter_objects =
  fixes ops :: "'l limiter_ops" and live :: "'l \<Rightarrow> bool" and content :: "'l \<Rightarrow> 'c"
  assumes live_new: "live (lo_new ops key rpm)"
    and live_setRate: "live l \<Longrightarrow> live (lo_setRate ops l rpm)"
    and live_allow: "live l \<Longrightarrow> live (fst (lo_allow ops l key now))"
    and live_stop: "live l \<Longrightarrow> \<exists>l1. lo_stop ops l = Some l1"
    and content_setRate: "content (lo_setRate ops l rpm) = content l"
begin

definition obj_live :: "(nat \<times> 'l) list \<Rightarrow> nat \<Rightarrow> bool" where
  "obj_live objs a \<longleftrightarrow> (\<exists>l. map_of objs a = Some l \<and> live l)"

definition lim_inv :: "'l Router \<Rightarrow> bool" where
  "lim_inv r \<longleftrightarrow> distinct (keys (rt_limiters r)) \<and> distinct (map snd (rt_limiters r)) \<and>
     (\<forall>a\<in>snd ` set (rt_limiters r). a < rt_next r \<and> obj_live (rt_limObjs r) a)"

lemma map_of_filter_keys: "P k \<Longrightarrow> map_of (filter (\<lambda>(k, a). P k) xs) k = map_of xs k"
  by (induction xs) auto

lemma map_of_map_entry: "map_of (AList.map_entry a f xs) k = (if k = a then map_option f (map_of xs k) else map_of xs k)"
  by (induction xs) auto

lemma wire_limiter_inv:
  assumes "lim_inv r"
  shows "lim_inv (fst (fst (wire_limiter ops (r, lv) g)))"
proof (cases "g_RateLimit g")
  case True
  show ?thesis
  proof (cases "map_of (rt_limiters r) (routeKey g)")
    case None
    then have k: "routeKey g \<notin> set (keys (rt_limiters r))" by (simp add: map_of_eq_None_iff)
    have u: "AList.update (routeKey g) (rt_next r) (rt_limiters r) = rt_limiters r @ [(routeKey g, rt_next r)]"
      using k by (simp add: update_nonkey)
    have "rt_next r \<notin> snd ` set (rt_limiters r)" using assms by (auto simp: lim_inv_def)
    with k assms True None u show ?thesis
      by (auto simp: wire_limiter_def Let_def lim_inv_def obj_live_def live_new)
  next
    case (Some a)
    then show ?thesis
      using assms True by (auto simp: wire_limiter_def Let_def lim_inv_def obj_live_def map_of_map_entry live_setRate)
  qed
qed (use assms in \<open>simp add: wire_limiter_def Let_def\<close>)

lemma stop_limiter_ok:
  assumes "obj_live objs a"
  shows "\<exists>objs1. stop_limiter ops objs a = Some objs1 \<and> (\<forall>b. b \<noteq> a \<longrightarrow> map_of objs1 b = map_of objs b)"
proof -
  obtain l l1 where "map_of objs a = Some l" "lo_stop ops l = Some l1"
    using assms live_stop unfolding obj_live_def by blast
  then show ?thesis by (auto simp: stop_limiter_def update_conv')
qed

lemma stop_all_ok:
  "distinct as \<Longrightarrow> \<forall>a\<in>set as. obj_live objs a \<Longrightarrow>
   \<exists>objs1. stop_all ops objs as = Some objs1 \<and> (\<forall>b. b \<notin> set as \<longrightarrow> map_of objs1 b = map_of objs b)"
proof (induction as arbitrary: objs)
  case (Cons a as)
  then obtain objs1 where 1: "stop_limiter ops objs a = Some objs1" "\<forall>b. b \<noteq> a \<longrightarrow> map_of objs1 b = map_of objs b"
    using stop_limiter_ok [of objs a] by auto
  with Cons.prems have "\<forall>a\<in>set as. obj_live objs1 a" by (auto simp: obj_live_def)
  with Cons.IH [of objs1] Cons.prems 1 show ?case by auto
qed auto

lemma wire_all_inv: "lim_inv r \<Longrightarrow> lim_inv (fst (fst (thread (wire_limiter ops) (r, lv) gs)))"
proof (rule thread_invariant [of "\<lambda>s. lim_inv (fst s)"])
  show "lim_inv (fst (fst (wire_limiter ops s x)))" if "lim_inv (fst s)" for s x
    using wire_limiter_inv [OF that, of "snd s" x] by simp
qed simp

lemma wire_all_live:
  "g \<in> set gs \<Longrightarrow> g_RateLimit g \<Longrightarrow> routeKey g \<in> set (snd (fst (thread (wire_limiter ops) (r, lv) gs)))"
  "k \<in> set lv \<Longrightarrow> k \<in> set (snd (fst (thread (wire_limiter ops) (r, lv) gs)))"
proof -
  have mono: "k \<in> set lv \<Longrightarrow> k \<in> set (snd (fst (thread (wire_limiter ops) (r, lv) gs)))" for k lv r gs
    by (rule thread_invariant [of "\<lambda>s. k \<in> set (snd s)"]) (auto simp: wire_limiter_def Let_def split: option.split)
  then show "k \<in> set lv \<Longrightarrow> k \<in> set (snd (fst (thread (wire_limiter ops) (r, lv) gs)))" .
  show "g \<in> set gs \<Longrightarrow> g_RateLimit g \<Longrightarrow> routeKey g \<in> set (snd (fst (thread (wire_limiter ops) (r, lv) gs)))"
  proof (induction gs arbitrary: r lv)
    case (Cons x gs)
    let ?w = "wire_limiter ops (r, lv) x"
    have st: "snd (fst (thread (wire_limiter ops) (r, lv) (x # gs))) =
        snd (fst (thread (wire_limiter ops) (fst (fst ?w), snd (fst ?w)) gs))" by (simp add: Let_def case_prod_unfold)
    show ?case
    proof (cases "g = x")
      case True
      then have "routeKey g \<in> set (snd (fst ?w))" using Cons.prems by (auto simp: wire_limiter_def Let_def split: option.split)
      from mono [OF this] show ?thesis unfolding st .
    next
      case False
      with Cons.prems show ?thesis unfolding st by (intro Cons.IH) auto
    qed
  qed simp
qed

definition holds_content :: "'l Router \<Rightarrow> string \<Rightarrow> nat \<Rightarrow> 'c \<Rightarrow> bool" where
  "holds_content r k a c \<longleftrightarrow> map_of (rt_limiters r) k = Some a \<and> map_option content (map_of (rt_limObjs r) a) = Some c"

lemma wire_limiter_content:
  assumes "lim_inv r" and "holds_content r k a c"
  shows "holds_content (fst (fst (wire_limiter ops (r, lv) g))) k a c"
proof -
  have "(k, a) \<in> set (rt_limiters r)" using assms(2) by (auto simp: holds_content_def dest: map_of_SomeD)
  then have "a < rt_next r" using assms(1) by (force simp: lim_inv_def)
  with assms(2) show ?thesis
    by (auto simp: wire_limiter_def Let_def holds_content_def map_of_map_entry update_conv' content_setRate split: option.split)
qed

lemma wire_all_content:
  assumes "lim_inv r" and "holds_content r k a c"
  shows "holds_content (fst (fst (thread (wire_limiter ops) (r, lv) gs))) k a c"
proof -
  let ?I = "\<lambda>s. lim_inv (fst s) \<and> holds_content (fst s) k a c"
  have "?I (fst (thread (wire_limiter ops) (r, lv) gs))"
  proof (rule thread_invariant [of ?I])
    show "?I (fst (wire_limiter ops s x))" if "?I s" for s x
      using that wire_limiter_inv [of "fst s" "snd s" x] wire_limiter_content [of "fst s" k a c "snd s" x] by simp
  qed (use assms in simp)
  then show ?thesis by simp
qed

lemma reconcileLimiters_parts:
  assumes "lim_inv r" and t: "thread (wire_limiter ops) (r, []) gs = ((r1, lv), gs1)"
  obtains objs where
    "reconcileLimiters ops r gs = Some (r1\<lparr>rt_limiters := filter (\<lambda>(k, a). k \<in> set lv) (rt_limiters r1), rt_limObjs := objs\<rparr>, gs1)"
    "\<And>k a. (k, a) \<in> set (rt_limiters r1) \<Longrightarrow> k \<in> set lv \<Longrightarrow> map_of objs a = map_of (rt_limObjs r1) a"
proof -
  have i: "lim_inv r1" using wire_all_inv [OF assms(1), of "[]" gs] t by simp
  let ?dead = "map snd (filter (\<lambda>(k, a). k \<notin> set lv) (rt_limiters r1))"
  have d: "distinct ?dead" "\<forall>a\<in>set ?dead. obj_live (rt_limObjs r1) a"
    using i by (auto simp: lim_inv_def distinct_map_filter)
  obtain objs where s: "stop_all ops (rt_limObjs r1) ?dead = Some objs"
    "\<forall>b. b \<notin> set ?dead \<longrightarrow> map_of objs b = map_of (rt_limObjs r1) b" using stop_all_ok [OF d] by blast
  show ?thesis
  proof (rule that [of objs])
    show "reconcileLimiters ops r gs = Some (r1\<lparr>rt_limiters := filter (\<lambda>(k, a). k \<in> set lv) (rt_limiters r1), rt_limObjs := objs\<rparr>, gs1)"
      using t s(1) by (simp add: reconcileLimiters_def)
    show "map_of objs a = map_of (rt_limObjs r1) a" if ka: "(k, a) \<in> set (rt_limiters r1)" "k \<in> set lv" for k a
    proof -
      have "a \<notin> set ?dead"
      proof
        assume "a \<in> set ?dead"
        then obtain k' where "(k', a) \<in> set (rt_limiters r1)" "k' \<notin> set lv" by auto
        moreover have "inj_on snd (set (rt_limiters r1))" using i by (simp add: lim_inv_def distinct_map)
        ultimately have "(k', a) = (k, a)" using ka by (intro inj_onD [of snd]) auto
        with ka \<open>k' \<notin> set lv\<close> show False by simp
      qed
      with s(2) show ?thesis by blast
    qed
  qed
qed

lemma reconcileLimiters_inv:
  assumes "lim_inv r"
  shows "\<exists>r1 gs1. reconcileLimiters ops r gs = Some (r1, gs1) \<and> lim_inv r1"
proof -
  obtain r1 lv gs1 where t: "thread (wire_limiter ops) (r, []) gs = ((r1, lv), gs1)" by (metis prod.exhaust)
  have i: "lim_inv r1" using wire_all_inv [OF assms(1), of "[]" gs] t by simp
  obtain objs where
    "reconcileLimiters ops r gs = Some (r1\<lparr>rt_limiters := filter (\<lambda>(k, a). k \<in> set lv) (rt_limiters r1), rt_limObjs := objs\<rparr>, gs1)"
    "\<And>k a. (k, a) \<in> set (rt_limiters r1) \<Longrightarrow> k \<in> set lv \<Longrightarrow> map_of objs a = map_of (rt_limObjs r1) a"
    using assms t by (rule reconcileLimiters_parts) blast
  with i show ?thesis by (fastforce simp: lim_inv_def distinct_map_filter obj_live_def)
qed

lemma reconcileLimiters_content:
  assumes "lim_inv r" and "holds_content r (routeKey g) a c" and "g \<in> set gs" and "g_RateLimit g"
    and "reconcileLimiters ops r gs = Some (r1, gs1)"
  shows "holds_content r1 (routeKey g) a c"
proof -
  obtain r0 lv gs0 where t: "thread (wire_limiter ops) (r, []) gs = ((r0, lv), gs0)" by (metis prod.exhaust)
  have lv: "routeKey g \<in> set lv" using wire_all_live(1) [OF assms(3,4), of r "[]"] t by simp
  have c: "holds_content r0 (routeKey g) a c" using wire_all_content [OF assms(1,2), of "[]" gs] t by simp
  then have "(routeKey g, a) \<in> set (rt_limiters r0)" by (auto simp: holds_content_def dest: map_of_SomeD)
  moreover obtain objs where
    "reconcileLimiters ops r gs = Some (r0\<lparr>rt_limiters := filter (\<lambda>(k, a). k \<in> set lv) (rt_limiters r0), rt_limObjs := objs\<rparr>, gs0)"
    "\<And>k a. (k, a) \<in> set (rt_limiters r0) \<Longrightarrow> k \<in> set lv \<Longrightarrow> map_of objs a = map_of (rt_limObjs r0) a"
    using assms(1) t by (rule reconcileLimiters_parts) blast
  ultimately show ?thesis using c lv assms(5) by (auto simp: holds_content_def map_of_filter_keys)
qed

end

lemma Allow_stopped: "stopped (fst (Allow l key now)) = stopped l"
  by (auto simp: Allow_def getOrCreate_def Let_def split: option.split prod.split)

interpretation mem: limiter_objects mem_ops "\<lambda>l. \<not> stopped l" buckets
  by unfold_locales (auto simp: mem_ops_def newRateLimiter_def SetRate_def Stop_def Allow_stopped)

subsection \<open>What each part of a refresh leaves alone\<close>

text \<open>A group without the pointers that a refresh wires.\<close>

definition core :: "RouteGroup \<Rightarrow> RouteGroup" where
  "core g = g\<lparr>g_limiter := None, g_cache := None, g_ab := None, g_abCfg := None\<rparr>"

lemma core_eqD:
  assumes "core g = core g'"
  shows "g_Host g = g_Host g'" "g_PathPrefix g = g_PathPrefix g'" "g_Backends g = g_Backends g'"
    "routeKey g = routeKey g'" "tombKey g = tombKey g'"
proof -
  have "g_Host (core g) = g_Host (core g')" "g_PathPrefix (core g) = g_PathPrefix (core g')" "g_Backends (core g) = g_Backends (core g')"
    using assms by simp_all
  then show "g_Host g = g_Host g'" "g_PathPrefix g = g_PathPrefix g'" "g_Backends g = g_Backends g'"
    "routeKey g = routeKey g'" "tombKey g = tombKey g'" by (simp_all add: core_def routeKey_def tombKey_def)
qed

lemma map_core_eqD:
  assumes "map core gs = map core gs'" and "\<And>g g'. core g = core g' \<Longrightarrow> f g = f g'"
  shows "map f gs = map f gs'"
proof (rule nth_equalityI)
  show len: "length (map f gs) = length (map f gs')" using map_eq_imp_length_eq [OF assms(1)] by simp
  show "map f gs ! i = map f gs' ! i" if "i < length (map f gs)" for i
  proof -
    have "map core gs ! i = map core gs' ! i" by (simp only: assms(1))
    then have "core (gs ! i) = core (gs' ! i)" using that len by simp
    from assms(2) [OF this] show ?thesis using that len by simp
  qed
qed

lemma core_backends: "map core gs = map core gs' \<Longrightarrow> all_backends gs = all_backends gs'"
  unfolding all_backends_def by (drule map_core_eqD [of gs gs' g_Backends, OF _ core_eqD(3)]) simp_all

text \<open>The part of the router that the limiter and cache wiring does not touch.\<close>

definition frame :: "'l Router \<Rightarrow> RouteGroup list \<times> bheap \<times> (string \<times> instant) list \<times> routeTombstone list \<times> ab_runs" where
  "frame r = (rt_groups r, rt_heap r, rt_drainSet r, rt_tombstones r, rt_abRuns r)"

lemma wire_limiter_frame: "frame (fst (fst (wire_limiter ops s g))) = frame (fst s)" "core (snd (wire_limiter ops s g)) = core g"
  by (cases s; auto simp: wire_limiter_def Let_def frame_def core_def split: option.split)+

lemma wire_cache_frame: "frame (fst (fst (wire_cache s g))) = frame (fst s)" "core (snd (wire_cache s g)) = core g"
  by (cases s; auto simp: wire_cache_def Let_def frame_def core_def split: option.split)+

lemma reconcileLimiters_frame:
  assumes "reconcileLimiters ops r gs = Some (r1, gs1)"
  shows "frame r1 = frame r" "map core gs1 = map core gs"
proof -
  have "frame (fst (fst (thread (wire_limiter ops) (r, []) gs))) = frame r"
    by (rule thread_invariant [of "\<lambda>s. frame (fst s) = frame r"]) (simp_all add: wire_limiter_frame)
  then show "frame r1 = frame r" using assms
    by (auto simp: reconcileLimiters_def frame_def Let_def case_prod_unfold split: option.splits)
  have "map core (snd (thread (wire_limiter ops) (r, []) gs)) = map core gs"
    by (rule thread_map) (simp add: wire_limiter_frame)
  then show "map core gs1 = map core gs" using assms
    by (auto simp: reconcileLimiters_def Let_def case_prod_unfold split: option.splits)
qed

lemma reconcileCaches_frame:
  assumes "reconcileCaches r gs = (r1, gs1)"
  shows "frame r1 = frame r" "map core gs1 = map core gs" "rt_limiters r1 = rt_limiters r" "rt_limObjs r1 = rt_limObjs r"
    "rt_next r \<le> rt_next r1"
proof -
  let ?t = "thread wire_cache (r, []) gs"
  have "frame (fst (fst ?t)) = frame r"
    by (rule thread_invariant [of "\<lambda>s. frame (fst s) = frame r"]) (simp_all add: wire_cache_frame)
  then show "frame r1 = frame r" using assms
    by (auto simp: reconcileCaches_def frame_def Let_def case_prod_unfold)
  have "map core (snd ?t) = map core gs" by (rule thread_map) (simp add: wire_cache_frame)
  then show "map core gs1 = map core gs" using assms
    by (auto simp: reconcileCaches_def Let_def case_prod_unfold)
  have "rt_limiters (fst (fst ?t)) = rt_limiters r \<and> rt_limObjs (fst (fst ?t)) = rt_limObjs r \<and> rt_next r \<le> rt_next (fst (fst ?t))"
    by (rule thread_invariant [of "\<lambda>s. rt_limiters (fst s) = rt_limiters r \<and> rt_limObjs (fst s) = rt_limObjs r \<and> rt_next r \<le> rt_next (fst s)"])
      (auto simp: wire_cache_def Let_def split: option.split prod.split)
  then show "rt_limiters r1 = rt_limiters r" "rt_limObjs r1 = rt_limObjs r" "rt_next r \<le> rt_next r1" using assms
    by (auto simp: reconcileCaches_def Let_def case_prod_unfold)
qed

lemma reconcile_groups_core: "map core (snd (reconcile_groups h all now iv runs res gs)) = map core gs"
  by (induction gs arbitrary: runs res) (auto simp: core_def Let_def case_prod_unfold split: option.split)

lemma wire_transport_frame:
  "rt_groups (fst (fst (wire_transport s a))) = rt_groups (fst s)"
  "rt_limiters (fst (fst (wire_transport s a))) = rt_limiters (fst s)"
  "rt_limObjs (fst (fst (wire_transport s a))) = rt_limObjs (fst s)"
  "rt_drainSet (fst (fst (wire_transport s a))) = rt_drainSet (fst s)"
  "rt_tombstones (fst (fst (wire_transport s a))) = rt_tombstones (fst s)"
  "rt_next (fst s) \<le> rt_next (fst (fst (wire_transport s a)))"
  "(rt_heap (fst (fst (wire_transport s a))) b)\<lparr>b_transport := None, b_proxyTransport := None\<rparr> =
   (rt_heap (fst s) b)\<lparr>b_transport := None, b_proxyTransport := None\<rparr>"
  by (cases s; auto simp: wire_transport_def Let_def split: option.split)+

text \<open>Two heaps agree up to the wired transports.\<close>

definition same_but_transport :: "bheap \<Rightarrow> bheap \<Rightarrow> bool" where
  "same_but_transport h h' \<longleftrightarrow> (\<forall>a. (h a)\<lparr>b_transport := None, b_proxyTransport := None\<rparr> = (h' a)\<lparr>b_transport := None, b_proxyTransport := None\<rparr>)"

lemma same_but_transportD:
  assumes "same_but_transport h h'"
  shows "b_URL (h a) = b_URL (h' a)" "b_Variant (h a) = b_Variant (h' a)" "b_healthyFlag (h a) = b_healthyFlag (h' a)"
    "b_draining (h a) = b_draining (h' a)" "b_ContainerID (h a) = b_ContainerID (h' a)"
proof -
  have e: "(h a)\<lparr>b_transport := None, b_proxyTransport := None\<rparr> = (h' a)\<lparr>b_transport := None, b_proxyTransport := None\<rparr>"
    using assms by (simp add: same_but_transport_def)
  show "b_URL (h a) = b_URL (h' a)" using arg_cong [OF e, of b_URL] by simp
  show "b_Variant (h a) = b_Variant (h' a)" using arg_cong [OF e, of b_Variant] by simp
  show "b_healthyFlag (h a) = b_healthyFlag (h' a)" using arg_cong [OF e, of b_healthyFlag] by simp
  show "b_draining (h a) = b_draining (h' a)" using arg_cong [OF e, of b_draining] by simp
  show "b_ContainerID (h a) = b_ContainerID (h' a)" using arg_cong [OF e, of b_ContainerID] by simp
qed

lemma reconcileTransports_frame:
  assumes "reconcileTransportsLocked r gs = (r1, stale)"
  shows "rt_groups r1 = rt_groups r" "rt_limiters r1 = rt_limiters r" "rt_limObjs r1 = rt_limObjs r"
    "rt_drainSet r1 = rt_drainSet r" "rt_tombstones r1 = rt_tombstones r" "rt_next r \<le> rt_next r1"
    "same_but_transport (rt_heap r1) (rt_heap r)"
proof -
  let ?t = "thread wire_transport (r, []) (all_backends gs)"
  let ?I = "\<lambda>s. rt_groups (fst s) = rt_groups r \<and> rt_limiters (fst s) = rt_limiters r \<and> rt_limObjs (fst s) = rt_limObjs r \<and>
    rt_drainSet (fst s) = rt_drainSet r \<and> rt_tombstones (fst s) = rt_tombstones r \<and> rt_next r \<le> rt_next (fst s) \<and>
    same_but_transport (rt_heap (fst s)) (rt_heap r)"
  have "?I (fst ?t)"
  proof (rule thread_invariant [of ?I])
    show "?I (r, [])" by (simp add: same_but_transport_def)
    show "?I (fst (wire_transport s x))" if "?I s" for s x
      using that wire_transport_frame [of s x] order_trans [OF _ wire_transport_frame(6)]
      by (simp add: same_but_transport_def)
  qed
  with assms show "rt_groups r1 = rt_groups r" "rt_limiters r1 = rt_limiters r" "rt_limObjs r1 = rt_limObjs r"
    "rt_drainSet r1 = rt_drainSet r" "rt_tombstones r1 = rt_tombstones r" "rt_next r \<le> rt_next r1"
    "same_but_transport (rt_heap r1) (rt_heap r)"
    by (auto simp: reconcileTransportsLocked_def Let_def case_prod_unfold)
qed

subsection \<open>A refresh as a whole\<close>

definition drain_live :: "instant \<Rightarrow> (string \<times> instant) list \<Rightarrow> (string \<times> instant) list" where
  "drain_live now ds = filter (\<lambda>(i, since). \<not> drainTTL < now - since) ds"

definition drain_heap :: "bheap \<Rightarrow> (string \<times> instant) list \<Rightarrow> baddr list \<Rightarrow> bheap" where
  "drain_heap h ds as = foldl (drain_backend (\<lambda>b. b_ContainerID b \<noteq> [] \<and> b_ContainerID b \<in> set (keys ds))) h as"

lemma drain_heap_fields:
  "b_ContainerID (drain_heap h ds as a) = b_ContainerID (h a)" "b_healthyFlag (drain_heap h ds as a) = b_healthyFlag (h a)"
  "b_URL (drain_heap h ds as a) = b_URL (h a)" "b_Variant (drain_heap h ds as a) = b_Variant (h a)"
  "b_draining (drain_heap h ds as a) \<longleftrightarrow>
     b_draining (h a) \<or> a \<in> set as \<and> b_ContainerID (h a) \<noteq> [] \<and> b_ContainerID (h a) \<in> set (keys ds)"
  unfolding drain_heap_def by (induction as arbitrary: h) (auto simp: drain_backend_def)

lemma drain_heap_none: "drain_heap h [] as = h"
  unfolding drain_heap_def by (induction as) (simp_all add: drain_backend_def)

lemma Set_parts:
  assumes "Set ops r now groups = Some (r', stale)"
  obtains r1 gs1 h5 where
    "reconcileLimiters ops r (sort_longest g_PathPrefix groups) = Some (r1, gs1)"
    "map core (rt_groups r') = map core (sort_longest g_PathPrefix groups)"
    "rt_limiters r' = rt_limiters r1" "rt_limObjs r' = rt_limObjs r1" "rt_next r1 \<le> rt_next r'"
    "same_but_transport h5 (drain_heap (rt_heap r) (drain_live now (rt_drainSet r)) (all_backends (rt_groups r')))"
    "rt_heap r' = carryHealth (prevHealth h5 (rt_groups r)) h5 (rt_groups r')"
    "rt_tombstones r' = rt_tombstones (reconcileTombstonesLocked r now (rt_groups r) (rt_groups r'))"
proof -
  let ?gs = "sort_longest g_PathPrefix groups"
  obtain r1 gs1 where 1: "reconcileLimiters ops r ?gs = Some (r1, gs1)"
    using assms by (auto simp: Set_def Let_def split: option.splits)
  obtain r2 gs2 where 2: "reconcileCaches r1 gs1 = (r2, gs2)" by (rule prod.exhaust)
  obtain runs gs3 where 3: "reconcileAB (rt_heap r2) now (rt_peerSyncInterval r2) (rt_abRuns r2) gs2 = (runs, gs3)" by (rule prod.exhaust)
  define r3 where "r3 = applyDrainingLocked (r2\<lparr>rt_abRuns := runs\<rparr>) now gs3"
  obtain r4 st where 4: "reconcileTransportsLocked r3 gs3 = (r4, st)" by (rule prod.exhaust)
  define r5 where "r5 = reconcileTombstonesLocked r4 now (rt_groups r) gs3"
  have r': "r' = r5\<lparr>rt_groups := gs3, rt_heap := carryHealth (prevHealth (rt_heap r5) (rt_groups r)) (rt_heap r5) gs3\<rparr>"
    using assms by (simp add: Set_def Let_def 1 2 3 r3_def [symmetric] 4 r5_def [symmetric])
  note f1 = reconcileLimiters_frame [OF 1] and f2 = reconcileCaches_frame [OF 2] and f4 = reconcileTransports_frame [OF 4]
  have core3: "map core gs3 = map core ?gs"
    using f1(2) f2(2) 3 reconcile_groups_core unfolding reconcileAB_def by (metis snd_conv)
  have fr: "rt_groups r2 = rt_groups r" "rt_heap r2 = rt_heap r" "rt_drainSet r2 = rt_drainSet r" "rt_tombstones r2 = rt_tombstones r"
    using f1(1) f2(1) by (simp_all add: frame_def)
  have h3: "rt_heap r3 = drain_heap (rt_heap r) (drain_live now (rt_drainSet r)) (all_backends gs3)"
  proof (cases "rt_drainSet r = []")
    case True
    then show ?thesis by (simp add: r3_def applyDrainingLocked_def fr drain_live_def drain_heap_none)
  next
    case False
    then show ?thesis by (simp add: r3_def applyDrainingLocked_def fr drain_live_def drain_heap_def Let_def)
  qed
  have r3: "rt_limiters r3 = rt_limiters r1" "rt_limObjs r3 = rt_limObjs r1" "rt_next r1 \<le> rt_next r3" "rt_tombstones r3 = rt_tombstones r"
    using f2 fr by (simp_all add: r3_def applyDrainingLocked_def Let_def)
  have r5: "rt_limiters r5 = rt_limiters r4" "rt_limObjs r5 = rt_limObjs r4" "rt_next r5 = rt_next r4" "rt_heap r5 = rt_heap r4"
    by (simp_all add: r5_def reconcileTombstonesLocked_def Let_def case_prod_unfold)
  show ?thesis
  proof (rule that [OF 1, of "rt_heap r5"])
    show "same_but_transport (rt_heap r5) (drain_heap (rt_heap r) (drain_live now (rt_drainSet r)) (all_backends (rt_groups r')))"
      using f4(7) by (simp add: r' r5 h3)
    show "rt_tombstones r' = rt_tombstones (reconcileTombstonesLocked r now (rt_groups r) (rt_groups r'))"
      using f4(5) r3(4) by (simp add: r' r5_def reconcileTombstonesLocked_def Let_def case_prod_unfold)
  qed (use core3 f4 r3 r5 in \<open>simp_all add: r'\<close>)
qed

lemma foldl_keeps:
  assumes "\<And>h x. f (F h x a) = f (h a)"
  shows "f (foldl F h xs a) = f (h a)"
  by (induction xs arbitrary: h) (simp_all add: assms)

lemma carryHealth_fields:
  "b_draining (carryHealth m h gs a) = b_draining (h a)" "b_ContainerID (carryHealth m h gs a) = b_ContainerID (h a)"
  "b_URL (carryHealth m h gs a) = b_URL (h a)" "b_Variant (carryHealth m h gs a) = b_Variant (h a)"
  unfolding carryHealth_def by (rule foldl_keeps; simp add: case_prod_unfold)+

text \<open>
  (C26) A stop signal outlives the refresh that follows it: a freshly built backend of a container that received a
  stop signal less than ten minutes ago is draining as soon as the routes are replaced, so neither the normal
  choice of a backend nor the panic-mode choice can select it, whatever its health data say.
\<close>

theorem drained_after_refresh:
  assumes "Set ops r now groups = Some (r', stale)" and "g \<in> set (rt_groups r')" and "a \<in> set (g_Backends g)"
    and "b_ContainerID (rt_heap r a) \<noteq> []" and "(b_ContainerID (rt_heap r a), since) \<in> set (rt_drainSet r)" and "now - since \<le> drainTTL"
  shows "b_draining (rt_heap r' a) \<and>
    snd (pickHealthy (rt_heap r') g skip ap v) \<noteq> Returned (Some a) \<and> snd (pickAny (rt_heap r') g skip ap v) \<noteq> Returned (Some a)"
proof -
  obtain h5 where h: "same_but_transport h5 (drain_heap (rt_heap r) (drain_live now (rt_drainSet r)) (all_backends (rt_groups r')))"
    "rt_heap r' = carryHealth (prevHealth h5 (rt_groups r)) h5 (rt_groups r')" using assms(1) by (rule Set_parts)
  have "a \<in> set (all_backends (rt_groups r'))" using assms(2,3) by (auto simp: all_backends_def)
  moreover have "b_ContainerID (rt_heap r a) \<in> set (keys (drain_live now (rt_drainSet r)))"
    using assms(5,6) by (force simp: drain_live_def)
  ultimately have d: "b_draining (rt_heap r' a)"
    using assms(4) same_but_transportD(4) [OF h(1), of a] by (simp add: h(2) carryHealth_fields drain_heap_fields)
  then have "\<not> pickable (rt_heap r') g skip ig ap v a" for ig by (simp add: pickable_def excludedFrom_def)
  then have "snd (pickWith ig (rt_heap r') g skip ap v) \<noteq> Returned (Some a)" for ig
    using pickWith_sound [of ig "rt_heap r'" g skip ap v _ a] by (metis prod.collapse)
  from this [of False] this [of True] d show ?thesis by (simp add: pickWith_def)
qed

text \<open>The zero value of the router, as the program starts with it.\<close>

definition newRouter :: "bheap \<Rightarrow> 'l Router" where
  "newRouter h = \<lparr>rt_groups = [], rt_heap = h, rt_limiters = [], rt_limObjs = [], rt_caches = [], rt_cacheObjs = [], rt_next = 0,
     rt_xffTrusted = [], rt_unrouted = None, rt_auth = None, rt_peerHopAuth = [], rt_abRuns = [], rt_peerSyncInterval = 0,
     rt_drainSet = [], rt_tombstones = [], rt_transports = []\<rparr>"

definition zeroBackend :: Backend where
  "zeroBackend = \<lparr>b_URL = [], b_Weight = 0, b_Container = [], b_HealthPath = [], b_proxy = None, b_proxyTransport = None,
     b_healthyFlag = False, b_stickyID = [], b_consecFails = 0, b_DockerUnhealthy = False, b_Learned = False, b_PeerID = [],
     b_Variant = [], b_peerTestID = [], b_ContainerID = [], b_draining = False, b_transport = None\<rparr>"

definition zeroGroup :: RouteGroup where
  "zeroGroup = \<lparr>g_Host = [], g_PathPrefix = [], g_StripPrefix = False, g_Name = [], g_Service = [], g_Backends = [],
     g_DropHeaders = [], g_Sticky = False, g_CacheTTL = 0, g_CachePaths = [], g_cache = None, g_AuthRequired = False,
     g_AuthUsers = [], g_AuthMode = [], g_RateLimit = False, g_RateRPM = 0, g_limiter = None, g_Spread = False,
     g_SpreadLocal = False, g_cursor = 0, g_panicLogAt = 0, g_static = False, g_abCfg = None, g_ab = None, g_abLocal = None\<rparr>"

theorem drained_after_refresh_witness:
  "\<exists>r' stale. Set mem_ops ((newRouter (\<lambda>a. zeroBackend\<lparr>b_ContainerID := ''c1''\<rparr>))\<lparr>rt_drainSet := [(''c1'', 0)]\<rparr>)
      minute [zeroGroup\<lparr>g_Backends := [7]\<rparr>] = Some (r', stale) \<and>
    b_draining (rt_heap r' 7)"
proof -
  let ?r = "(newRouter (\<lambda>a. zeroBackend\<lparr>b_ContainerID := ''c1''\<rparr>) :: rateLimiter Router)\<lparr>rt_drainSet := [(''c1'', 0)]\<rparr>"
  let ?g = "zeroGroup\<lparr>g_Backends := [7]\<rparr>"
  obtain r' stale where s: "Set mem_ops ?r minute [?g] = Some (r', stale)" and g: "?g \<in> set (rt_groups r')"
    by (simp add: Set_def reconcileLimiters_def newRouter_def zeroGroup_def wire_limiter_def reconcileCaches_def wire_cache_def
        Let_def sort_longest_def case_prod_unfold reconcileAB_def applyDrainingLocked_def)
  show ?thesis using s drained_after_refresh [OF s g, of 7 0]
    by (simp add: newRouter_def zeroBackend_def drainTTL_def time_units)
qed

subsection \<open>Limiters survive a refresh\<close>

definition limiters_ok :: "rateLimiter Router \<Rightarrow> bool" where
  "limiters_ok r \<longleftrightarrow> distinct (keys (rt_limiters r)) \<and> distinct (map snd (rt_limiters r)) \<and>
     (\<forall>(k, a)\<in>set (rt_limiters r). a < rt_next r \<and> (case map_of (rt_limObjs r) a of None \<Rightarrow> False | Some l \<Rightarrow> \<not> stopped l))"

lemma limiters_ok_iff: "limiters_ok r \<longleftrightarrow> mem.lim_inv r"
  unfolding limiters_ok_def mem.lim_inv_def mem.obj_live_def by (force split: option.splits)

lemma lim_inv_next:
  assumes "mem.lim_inv r1" "rt_limiters r' = rt_limiters r1" "rt_limObjs r' = rt_limObjs r1" "rt_next r1 \<le> rt_next r'"
  shows "mem.lim_inv r'"
  using assms unfolding mem.lim_inv_def mem.obj_live_def by fastforce

lemma Set_total: "reconcileLimiters ops r (sort_longest g_PathPrefix groups) = Some p \<Longrightarrow> \<exists>r' stale. Set ops r now groups = Some (r', stale)"
  by (simp add: Set_def Let_def case_prod_unfold split: option.split prod.split)



subsection \<open>Tombstones\<close>

definition tombstoneKey :: "routeTombstone \<Rightarrow> string" where
  "tombstoneKey t = tb_host t @ ''|'' @ tb_path t"

lemma keep_tombs_sound:
  "t \<in> set (fst (keep_tombs now ks seen ts)) \<Longrightarrow>
   t \<in> set ts \<and> now \<le> tb_until t \<and> tombstoneKey t \<notin> set ks"
  by (induction now ks seen ts rule: keep_tombs.induct) (auto simp: Let_def tombstoneKey_def case_prod_unfold split: if_splits)

lemma keep_tombs_seen:
  "set (snd (keep_tombs now ks seen ts)) = set seen \<union> tombstoneKey ` set (fst (keep_tombs now ks seen ts))"
  by (induction now ks seen ts rule: keep_tombs.induct) (auto simp: Let_def tombstoneKey_def case_prod_unfold)

lemma new_tombs_sound:
  "t \<in> set (new_tombs now ks seen gs) \<Longrightarrow>
   tb_until t = now + routeTombstoneTTL \<and> tombstoneKey t \<notin> set ks \<and> (\<exists>g\<in>set gs. tombstoneKey t = tombKey g)"
  by (induction now ks seen gs rule: new_tombs.induct) (auto simp: Let_def tombstoneKey_def tombKey_def split: if_splits)

lemma new_tombs_complete:
  "g \<in> set gs \<Longrightarrow> tombKey g \<notin> set ks \<Longrightarrow> tombKey g \<notin> set seen \<Longrightarrow> tombKey g \<in> tombstoneKey ` set (new_tombs now ks seen gs)"
  by (induction now ks seen gs rule: new_tombs.induct) (force simp: Let_def tombstoneKey_def tombKey_def)+

lemma reconcileTombstones_set:
  "set (rt_tombstones (reconcileTombstonesLocked r now prev gs)) =
   set (fst (keep_tombs now (map tombKey gs) [] (rt_tombstones r))) \<union>
   set (new_tombs now (map tombKey gs) (snd (keep_tombs now (map tombKey gs) [] (rt_tombstones r))) prev)"
  by (simp add: reconcileTombstonesLocked_def Let_def case_prod_unfold)

text \<open>
  After a refresh, exactly the routes that vanished leave a tombstone: every route of the previous table that
  is not in the new one has a tombstone that has not expired, no route of the new table has one, and a tombstone
  comes from a vanished route of this refresh, with five minutes to live, or from an earlier refresh, unexpired.
\<close>

theorem tombstones_after_refresh:
  assumes "Set ops r now groups = Some (r', stale)"
  shows "(\<forall>g\<in>set (rt_groups r). tombKey g \<notin> tombKey ` set groups \<longrightarrow>
        (\<exists>t\<in>set (rt_tombstones r'). tombstoneKey t = tombKey g \<and> now \<le> tb_until t)) \<and>
    (\<forall>t\<in>set (rt_tombstones r'). tombstoneKey t \<notin> tombKey ` set groups \<and>
        (t \<in> set (rt_tombstones r) \<and> now \<le> tb_until t \<or>
         tb_until t = now + routeTombstoneTTL \<and> (\<exists>g\<in>set (rt_groups r). tombstoneKey t = tombKey g)))"
proof -
  let ?gs = "rt_groups r'"
  let ?k = "keep_tombs now (map tombKey ?gs) [] (rt_tombstones r)"
  have ts: "set (rt_tombstones r') = set (fst ?k) \<union> set (new_tombs now (map tombKey ?gs) (snd ?k) (rt_groups r))"
    using assms by (rule Set_parts) (simp add: reconcileTombstones_set)
  have "map tombKey ?gs = map tombKey (sort_longest g_PathPrefix groups)"
    using assms by (rule Set_parts) (rule map_core_eqD [OF _ core_eqD(5)])
  then have ks: "set (map tombKey ?gs) = tombKey ` set groups" by simp
  have "\<exists>t\<in>set (rt_tombstones r'). tombstoneKey t = tombKey g \<and> now \<le> tb_until t"
    if "g \<in> set (rt_groups r)" "tombKey g \<notin> tombKey ` set groups" for g
  proof (cases "tombKey g \<in> set (snd ?k)")
    case True
    then obtain t where "t \<in> set (fst ?k)" "tombstoneKey t = tombKey g" by (auto simp: keep_tombs_seen)
    with keep_tombs_sound [of t] show ?thesis by (auto simp: ts)
  next
    case False
    from new_tombs_complete [OF that(1) that(2) [folded ks] False, of now] obtain t
      where "t \<in> set (new_tombs now (map tombKey ?gs) (snd ?k) (rt_groups r))" "tombstoneKey t = tombKey g" by force
    moreover from new_tombs_sound [OF this(1)] have "now \<le> tb_until t" by (simp add: routeTombstoneTTL_def time_units)
    ultimately show ?thesis by (auto simp: ts)
  qed
  moreover have "tombstoneKey t \<notin> tombKey ` set groups \<and> (t \<in> set (rt_tombstones r) \<and> now \<le> tb_until t \<or>
         tb_until t = now + routeTombstoneTTL \<and> (\<exists>g\<in>set (rt_groups r). tombstoneKey t = tombKey g))"
    if "t \<in> set (rt_tombstones r')" for t
    using that keep_tombs_sound [of t] new_tombs_sound [of t] unfolding ts ks [symmetric] by blast
  ultimately show ?thesis by blast
qed

theorem tombstones_after_refresh_witness:
  "\<exists>r' stale. Set mem_ops ((newRouter (\<lambda>a. zeroBackend))\<lparr>rt_groups := [zeroGroup\<lparr>g_Host := ''Old''\<rparr>]\<rparr>) 0 [zeroGroup\<lparr>g_Host := ''new''\<rparr>] = Some (r', stale) \<and>
     (\<exists>t\<in>set (rt_tombstones r'). tombstoneKey t = ''old|'')"
proof -
  let ?r = "(newRouter (\<lambda>a. zeroBackend) :: rateLimiter Router)\<lparr>rt_groups := [zeroGroup\<lparr>g_Host := ''Old''\<rparr>]\<rparr>"
  let ?gs = "[zeroGroup\<lparr>g_Host := ''new''\<rparr>]"
  have "limiters_ok ?r" by (simp add: limiters_ok_def newRouter_def)
  then obtain p where "reconcileLimiters mem_ops ?r (sort_longest g_PathPrefix ?gs) = Some p"
    using mem.reconcileLimiters_inv by (metis limiters_ok_iff)
  from Set_total [OF this] obtain r' stale where s: "Set mem_ops ?r 0 ?gs = Some (r', stale)" by blast
  have "tombKey (zeroGroup\<lparr>g_Host := ''Old''\<rparr>) = ''old|''" "tombKey (zeroGroup\<lparr>g_Host := ''new''\<rparr>) = ''new|''" by code_simp+
  with s tombstones_after_refresh [OF s] show ?thesis by auto
qed

subsection \<open>Health carried over\<close>

definition placed :: "RouteGroup list \<Rightarrow> (RouteGroup \<times> baddr) list" where
  "placed gs = concat (map (\<lambda>g. map (Pair g) (g_Backends g)) gs)"

lemma set_placed: "set (placed gs) = {(g, a). g \<in> set gs \<and> a \<in> set (g_Backends g)}"
  by (auto simp: placed_def)

lemma prevHealth_lookup:
  assumes "\<And>g a. g \<in> set prev \<Longrightarrow> a \<in> set (g_Backends g) \<Longrightarrow> healthKey g (h a) = k \<Longrightarrow> b_healthyFlag (h a) = f"
  shows "map_of (prevHealth h prev) k =
    (if \<exists>g\<in>set prev. \<exists>a\<in>set (g_Backends g). healthKey g (h a) = k then Some f else None)"
proof -
  let ?F = "\<lambda>m (g, a). AList.update (healthKey g (h a)) (b_healthyFlag (h a)) m"
  have "map_of (foldl ?F m ps) k = (if \<exists>(g, a)\<in>set ps. healthKey g (h a) = k then Some f else map_of m k)"
    if "\<forall>(g, a)\<in>set ps. healthKey g (h a) = k \<longrightarrow> b_healthyFlag (h a) = f" for m ps
    using that by (induction ps arbitrary: m) auto
  moreover have "\<forall>(g, a)\<in>set (placed prev). healthKey g (h a) = k \<longrightarrow> b_healthyFlag (h a) = f"
    using assms by (auto simp: set_placed)
  ultimately have "map_of (prevHealth h prev) k = (if \<exists>(g, a)\<in>set (placed prev). healthKey g (h a) = k then Some f else None)"
    by (simp add: prevHealth_def placed_def [symmetric])
  then show ?thesis by (simp add: set_placed Bex_def)
qed

lemma carryHealth_lookup:
  assumes "distinct (all_backends gs)" and "g \<in> set gs" and "a \<in> set (g_Backends g)"
  shows "b_healthyFlag (carryHealth m h gs a) = (case map_of m (healthKey g (h a)) of None \<Rightarrow> True | Some ok \<Rightarrow> ok)"
proof -
  define F where "F = (\<lambda>(h :: bheap) (g, a). h(a := (h a)\<lparr>b_healthyFlag := (case map_of m (healthKey g (h a)) of None \<Rightarrow> True | Some ok \<Rightarrow> ok)\<rparr>))"
  have F: "F h (g', a') b = (if b = a' then (h a')\<lparr>b_healthyFlag := (case map_of m (healthKey g' (h a')) of None \<Rightarrow> True | Some ok \<Rightarrow> ok)\<rparr> else h b)"
    for h g' a' b by (simp add: F_def)
  have skip: "foldl F h ps a = h a" if "a \<notin> snd ` set ps" for h ps
    using that by (induction ps arbitrary: h) (auto simp: F)
  have "b_healthyFlag (foldl F h ps a) = (case map_of m (healthKey g (h a)) of None \<Rightarrow> True | Some ok \<Rightarrow> ok)"
    if "distinct (map snd ps)" "(g, a) \<in> set ps" for ps
    using that
  proof (induction ps arbitrary: h)
    case (Cons p ps)
    obtain g' a' where p: "p = (g', a')" by (cases p)
    show ?case
    proof (cases "a' = a")
      case True
      then have "a \<notin> snd ` set ps" "g' = g" using Cons.prems p by (auto simp: image_iff)
      then show ?thesis by (simp add: p skip True F)
    next
      case False
      then show ?thesis using Cons p by (simp add: F)
    qed
  qed simp
  moreover have "map snd (placed gs) = all_backends gs" by (simp add: placed_def all_backends_def map_concat comp_def)
  ultimately show ?thesis using assms by (simp add: carryHealth_def placed_def [symmetric] F_def [symmetric] set_placed)
qed

lemma healthKey_cong: "b_URL b = b_URL b' \<Longrightarrow> b_Variant b = b_Variant b' \<Longrightarrow> healthKey g b = healthKey g b'"
  by (simp add: healthKey_def)

text \<open>
  A refresh rebuilds every backend object, but it neither resurrects a failed backend nor condemns a healthy
  one: a backend whose route, address and variant were in the previous table gets the health flag it had there, and
  a backend that is new starts healthy. Routes that point at the same address do not share the flag.
\<close>

theorem health_carried_over:
  assumes "Set ops r now groups = Some (r', stale)" and "distinct (all_backends (rt_groups r'))"
    and "g \<in> set (rt_groups r')" and "a \<in> set (g_Backends g)"
    and same: "\<And>g0 a0. g0 \<in> set (rt_groups r) \<Longrightarrow> a0 \<in> set (g_Backends g0) \<Longrightarrow>
      healthKey g0 (rt_heap r a0) = healthKey g (rt_heap r a) \<Longrightarrow> b_healthyFlag (rt_heap r a0) = f"
  shows "b_healthyFlag (rt_heap r' a) =
    (if \<exists>g0\<in>set (rt_groups r). \<exists>a0\<in>set (g_Backends g0). healthKey g0 (rt_heap r a0) = healthKey g (rt_heap r a) then f else True)"
proof -
  obtain h5 where h: "same_but_transport h5 (drain_heap (rt_heap r) (drain_live now (rt_drainSet r)) (all_backends (rt_groups r')))"
    "rt_heap r' = carryHealth (prevHealth h5 (rt_groups r)) h5 (rt_groups r')" using assms(1) by (rule Set_parts)
  have k: "healthKey g' (h5 b) = healthKey g' (rt_heap r b)" "b_healthyFlag (h5 b) = b_healthyFlag (rt_heap r b)" for g' b
    using same_but_transportD [OF h(1), of b] by (simp_all add: drain_heap_fields healthKey_def)
  have "map_of (prevHealth h5 (rt_groups r)) (healthKey g (rt_heap r a)) =
    (if \<exists>g0\<in>set (rt_groups r). \<exists>a0\<in>set (g_Backends g0). healthKey g0 (h5 a0) = healthKey g (rt_heap r a) then Some f else None)"
    by (rule prevHealth_lookup) (simp add: k same)
  then show ?thesis by (simp add: h(2) carryHealth_lookup [OF assms(2-4)] k)
qed

theorem health_carried_over_witness:
  "\<exists>r' stale. Set mem_ops ((newRouter (\<lambda>a. zeroBackend\<lparr>b_URL := ''u''\<rparr>))\<lparr>rt_groups := [zeroGroup\<lparr>g_Host := ''h'', g_Backends := [1]\<rparr>]\<rparr>)
      0 [zeroGroup\<lparr>g_Host := ''h'', g_Backends := [2]\<rparr>] = Some (r', stale) \<and> \<not> b_healthyFlag (rt_heap r' 2)"
proof -
  let ?r = "(newRouter (\<lambda>a. zeroBackend\<lparr>b_URL := ''u''\<rparr>) :: rateLimiter Router)\<lparr>rt_groups := [zeroGroup\<lparr>g_Host := ''h'', g_Backends := [1]\<rparr>]\<rparr>"
  let ?g = "zeroGroup\<lparr>g_Host := ''h'', g_Backends := [2]\<rparr>"
  obtain r' stale where s: "Set mem_ops ?r 0 [?g] = Some (r', stale)" and g: "rt_groups r' = [?g]"
    by (simp add: Set_def reconcileLimiters_def newRouter_def zeroGroup_def wire_limiter_def reconcileCaches_def wire_cache_def
        Let_def sort_longest_def case_prod_unfold reconcileAB_def applyDrainingLocked_def)
  have "b_healthyFlag (rt_heap r' 2) = False"
    using health_carried_over [OF s, of ?g 2 False]
    by (simp add: g all_backends_def newRouter_def zeroBackend_def healthKey_def)
  with s show ?thesis by auto
qed

end
