(* ===== verification/Forward.thy ===== *)
theory Forward
  imports RouterState
begin

section \<open>Forwarding a request (\<^verbatim>\<open>cmd/proxy/router.go\<close>, \<^verbatim>\<open>cmd/proxy/abtest.go\<close>)\<close>

text \<open>
  One attempt at a backend through Go's \<^verbatim>\<open>httputil.ReverseProxy\<close> (the director, the removal of hop-by-hop
  headers, informational responses, the error handler), the replay of request bodies, the retry loop of
  \<^verbatim>\<open>proxyToGroup\<close> and the one of \<^verbatim>\<open>abProxyToGroup\<close> with the static fallback and the recording.

  What a backend answers to the \<open>n\<close>-th attempt, and what other goroutines do to the backends between attempts
  (probes, drains, picks of other requests), are fields of the environment. Trailers are not modelled.
\<close>

subsection \<open>Headers of a hop\<close>

definition PeerHopHeader :: string where "PeerHopHeader = ''X-Pmgr-Peer-Hop''"
definition PeerAuthHeader :: string where "PeerAuthHeader = ''X-Pmgr-Peer-Auth''"

definition connection_tokens :: "header \<Rightarrow> string list" where
  "connection_tokens h =
     filter (\<lambda>t. t \<noteq> []) (map trim_sp_tab (concat (map (split_on CHR '','') (h_index h ''Connection''))))"

definition proxyHopHeaders :: "string list" where
  "proxyHopHeaders = [''Connection'', ''Proxy-Connection'', ''Keep-Alive'', ''Proxy-Authenticate'', ''Proxy-Authorization'',
     ''Te'', ''Trailer'', ''Transfer-Encoding'', ''Upgrade'']"

definition removeHopByHop :: "header \<Rightarrow> header" where
  "removeHopByHop h = foldl h_del h (connection_tokens h @ proxyHopHeaders)"

definition values_contain_token :: "string list \<Rightarrow> string \<Rightarrow> bool" where
  "values_contain_token vs t \<longleftrightarrow> list_ex (\<lambda>v. list_ex (\<lambda>x. equal_fold (trim_sp_tab x) t) (split_on CHR '','' v)) vs"

definition upgradeType :: "header \<Rightarrow> string" where
  "upgradeType h = (if values_contain_token (h_index h ''Connection'') ''Upgrade'' then h_get h ''Upgrade'' else [])"

definition is_print :: "string \<Rightarrow> bool" where
  "is_print s \<longleftrightarrow> list_all (\<lambda>c. 32 \<le> (of_char c :: nat) \<and> (of_char c :: nat) \<le> 126) s"

subsection \<open>Directors\<close>

definition singleJoiningSlash :: "string \<Rightarrow> string \<Rightarrow> string" where
  "singleJoiningSlash a b =
     (let aslash = has_suffix a ''/''; bslash = has_prefix b ''/''
      in if aslash \<and> bslash then a @ tl b else if \<not> aslash \<and> \<not> bslash then a @ ''/'' @ b else a @ b)"

text \<open>Path and query of an absolute URL \<^verbatim>\<open>scheme://authority/path?query\<close>.\<close>

definition url_tail :: "string \<Rightarrow> string" where
  "url_tail u = takeWhile (\<lambda>c. c \<noteq> CHR ''#'') (dropWhile (\<lambda>c. c \<notin> set ''/?#'') (drop 2 (dropWhile (\<lambda>c. c \<noteq> CHR ''/'') u)))"

definition url_path :: "string \<Rightarrow> string" where
  "url_path u = takeWhile (\<lambda>c. c \<noteq> CHR ''?'') (url_tail u)"

definition url_query :: "string \<Rightarrow> string" where
  "url_query u = tl (dropWhile (\<lambda>c. c \<noteq> CHR ''?'') (url_tail u))"

definition rewriteRequestURL :: "string \<Rightarrow> request \<Rightarrow> request" where
  "rewriteRequestURL u rq =
     (let tq = url_query u; q = rq_RawQuery rq
      in rq\<lparr>rq_Path := singleJoiningSlash (url_path u) (rq_Path rq),
            rq_RawQuery := (if tq = [] \<or> q = [] then tq @ q else tq @ ''&'' @ q)\<rparr>)"

text \<open>\<open>stamped\<close> is the context value that \<^verbatim>\<open>abProxyToGroup\<close> sets.\<close>

definition apply_director :: "Backend \<Rightarrow> bool \<Rightarrow> request \<Rightarrow> request" where
  "apply_director b stamped rq =
     (let rq1 = rewriteRequestURL (b_URL b) rq
      in case b_proxy b of
           None \<Rightarrow> rq
         | Some (LocalDirector host) \<Rightarrow> rq1\<lparr>rq_Host := host\<rparr>
         | Some (PeerDirector host prefix strip hopAuth) \<Rightarrow>
             (let h1 = h_set (rq_Header rq1) PeerHopHeader ''1''
              in rq1\<lparr>rq_Host := host,
                     rq_Path := (if strip \<and> prefix \<noteq> [] then prefix @ rq_Path rq1 else rq_Path rq1),
                     rq_Header := (if hopAuth \<noteq> [] \<and> stamped then h_set h1 PeerAuthHeader hopAuth else h1)\<rparr>))"

definition makeBackend :: "(string \<Rightarrow> string) \<Rightarrow> string \<Rightarrow> int \<Rightarrow> string \<Rightarrow> string \<Rightarrow> string \<Rightarrow> Backend" where
  "makeBackend sha rawURL weight container healthPath hostHeader =
     zeroBackend\<lparr>b_URL := rawURL, b_Weight := weight, b_Container := container, b_HealthPath := healthPath,
       b_proxy := Some (LocalDirector hostHeader), b_stickyID := backendStickyID sha rawURL\<rparr>"

text \<open>\<open>parses\<close> is whether \<^verbatim>\<open>url.Parse\<close> accepts the peer's address.\<close>

definition makePeerBackendAuth :: "(string \<Rightarrow> string) \<Rightarrow> (string \<Rightarrow> bool) \<Rightarrow> string \<Rightarrow> string \<Rightarrow> string \<Rightarrow> bool \<Rightarrow> string \<Rightarrow> int \<Rightarrow> string \<Rightarrow>
    Backend option" where
  "makePeerBackendAuth sha parses peerBaseURL routeHost pathPrefix stripPrefix peerID weight hopAuth =
     (if \<not> parses peerBaseURL then None
      else Some (zeroBackend\<lparr>b_URL := peerBaseURL, b_Weight := (if weight < 1 then 1 else weight),
        b_Container := ''peer:'' @ peerID, b_proxy := Some (PeerDirector routeHost pathPrefix stripPrefix hopAuth),
        b_Learned := True, b_PeerID := peerID, b_stickyID := backendStickyID sha peerBaseURL\<rparr>))"

definition makePeerBackend :: "(string \<Rightarrow> string) \<Rightarrow> (string \<Rightarrow> bool) \<Rightarrow> string \<Rightarrow> string \<Rightarrow> string \<Rightarrow> bool \<Rightarrow> string \<Rightarrow> int \<Rightarrow> Backend option" where
  "makePeerBackend sha parses peerBaseURL routeHost pathPrefix stripPrefix peerID weight =
     makePeerBackendAuth sha parses peerBaseURL routeHost pathPrefix stripPrefix peerID weight []"

text \<open>
  The request as the reverse proxy sends it: the director runs first, then the hop-by-hop headers go, among them
  whatever the client names in \<^verbatim>\<open>Connection\<close>.
\<close>

definition outgoing :: "Backend \<Rightarrow> bool \<Rightarrow> request \<Rightarrow> request" where
  "outgoing b stamped rq =
     (let rq1 = apply_director b stamped rq; h1 = rq_Header rq1; up = upgradeType h1;
          h2 = removeHopByHop h1;
          h3 = (if values_contain_token (h_index (rq_Header rq) ''Te'') ''trailers'' then h_set h2 ''Te'' ''trailers'' else h2);
          h4 = (if up \<noteq> [] then h_set (h_set h3 ''Connection'' ''Upgrade'') ''Upgrade'' up else h3);
          h5 = (case splitHostPort (rq_RemoteAddr rq) of
                  None \<Rightarrow> h4
                | Some (ip, _) \<Rightarrow> h_set h4 ''X-Forwarded-For'' (join '', '' (h_index h4 ''X-Forwarded-For'' @ [ip])));
          h6 = (if ''User-Agent'' \<in> set (keys h5) then h5 else h_set h5 ''User-Agent'' [])
      in rq1\<lparr>rq_Header := h6\<rparr>)"

definition upgrade_ok :: "Backend \<Rightarrow> bool \<Rightarrow> request \<Rightarrow> bool" where
  "upgrade_ok b stamped rq \<longleftrightarrow> is_print (upgradeType (rq_Header (apply_director b stamped rq)))"

subsection \<open>Response writers\<close>

text \<open>
  The stack of writers above the client's connection: the header map, what was written, the cache recorder if the
  route has one, the status that \<^verbatim>\<open>abStatusWriter\<close> keeps, and the backend told to the access log.
\<close>

record wr =
  wr_header :: header
  wr_events :: "write_event list"
  wr_rec :: "cacheRecorder option"
  wr_status :: int
  wr_backend :: string

definition new_wr :: "header \<Rightarrow> cacheRecorder option \<Rightarrow> wr" where
  "new_wr h rec = \<lparr>wr_header = h, wr_events = [], wr_rec = rec, wr_status = 0, wr_backend = []\<rparr>"

definition wr_writeHeader :: "wr \<Rightarrow> int \<Rightarrow> wr" where
  "wr_writeHeader w code =
     (let w1 = (if 200 \<le> code \<and> wr_status w = 0 then w\<lparr>wr_status := code\<rparr> else w)
      in case wr_rec w1 of
           None \<Rightarrow> w1\<lparr>wr_events := wr_events w1 @ [WriteHeader (wr_header w1) code]\<rparr>
         | Some r \<Rightarrow>
             (let (r1, h1) = recWriteHeader r (wr_header w1) code
              in w1\<lparr>wr_rec := Some r1, wr_header := h1, wr_events := wr_events w1 @ [WriteHeader h1 code]\<rparr>))"

definition wr_write :: "wr \<Rightarrow> string \<Rightarrow> wr" where
  "wr_write w p =
     (let w0 = (if wr_status w = 0 then w\<lparr>wr_status := 200\<rparr> else w)
      in case wr_rec w0 of
           None \<Rightarrow> w0\<lparr>wr_events := wr_events w0 @ [WriteBody (wr_header w0) p]\<rparr>
         | Some r \<Rightarrow>
             (let (r1, h1) = recWrite r (wr_header w0) p;
                  es = (if cr_wroteHeader r then [] else [WriteHeader h1 200])
              in w0\<lparr>wr_rec := Some r1, wr_header := h1, wr_events := wr_events w0 @ es @ [WriteBody h1 p]\<rparr>))"

definition wr_respond :: "wr \<Rightarrow> response \<Rightarrow> wr" where
  "wr_respond w rs =
     (let w1 = wr_writeHeader (w\<lparr>wr_header := rs_header rs\<rparr>) (rs_status rs)
      in if rs_body rs = [] then w1 else wr_write w1 (rs_body rs))"

text \<open>\<^verbatim>\<open>abStaticWriter\<close> has its own header map and holds back a 404.\<close>

record abStaticWriter =
  st_under :: wr
  st_h :: header
  st_forwarded :: bool
  st_swallowed :: bool

definition copy_header :: "header \<Rightarrow> header \<Rightarrow> header" where
  "copy_header dst src = foldl (\<lambda>d (k, vs). foldl (\<lambda>d v. h_add d k v) d vs) dst src"

definition st_writeHeader :: "abStaticWriter \<Rightarrow> int \<Rightarrow> abStaticWriter" where
  "st_writeHeader w code =
     (if st_forwarded w \<or> st_swallowed w then w
      else if code < 200 then w\<lparr>st_under := wr_writeHeader (st_under w) code\<rparr>
      else if code = 404 then w\<lparr>st_swallowed := True\<rparr>
      else let u = st_under w; u1 = u\<lparr>wr_header := copy_header (wr_header u) (st_h w)\<rparr>
           in w\<lparr>st_forwarded := True, st_under := wr_writeHeader u1 code\<rparr>)"

definition st_write :: "abStaticWriter \<Rightarrow> string \<Rightarrow> abStaticWriter" where
  "st_write w p =
     (let w1 = (if \<not> st_forwarded w \<and> \<not> st_swallowed w then st_writeHeader w 200 else w)
      in if st_swallowed w1 then w1 else w1\<lparr>st_under := wr_write (st_under w1) p\<rparr>)"

text \<open>The interface \<^verbatim>\<open>http.ResponseWriter\<close> as the reverse proxy uses it.\<close>

record 'w writer_ops =
  wo_header :: "'w \<Rightarrow> header"
  wo_setHeader :: "'w \<Rightarrow> header \<Rightarrow> 'w"
  wo_writeHeader :: "'w \<Rightarrow> int \<Rightarrow> 'w"
  wo_write :: "'w \<Rightarrow> string \<Rightarrow> 'w"

definition plain_ops :: "wr writer_ops" where
  "plain_ops = \<lparr>wo_header = wr_header, wo_setHeader = (\<lambda>w h. w\<lparr>wr_header := h\<rparr>), wo_writeHeader = wr_writeHeader, wo_write = wr_write\<rparr>"

definition static_ops :: "abStaticWriter writer_ops" where
  "static_ops = \<lparr>wo_header = st_h, wo_setHeader = (\<lambda>w h. w\<lparr>st_h := h\<rparr>), wo_writeHeader = st_writeHeader, wo_write = st_write\<rparr>"

subsection \<open>One attempt\<close>

text \<open>
  What a backend does with a request: informational responses, then an error (with the flag that the client's
  context is cancelled), a switched protocol, or a response whose body may break off.
\<close>

datatype final =
    RTError bool
  | RTSwitched
  | RTResponse int header "string list" bool

record round_trip =
  rt_info :: "(int \<times> header) list"
  rt_final :: final

definition send_info :: "'w writer_ops \<Rightarrow> 'w \<Rightarrow> int \<times> header \<Rightarrow> 'w" where
  "send_info ops w ch =
     (let w1 = wo_setHeader ops w (copy_header (wo_header ops w) (snd ch))
      in wo_setHeader ops (wo_writeHeader ops w1 (fst ch)) [])"

definition send_response :: "'w writer_ops \<Rightarrow> 'w \<Rightarrow> int \<Rightarrow> header \<Rightarrow> string list \<Rightarrow> 'w" where
  "send_response ops w code h chunks =
     (let w1 = wo_setHeader ops w (copy_header (wo_header ops w) (removeHopByHop h))
      in foldl (wo_write ops) (wo_writeHeader ops w1 code) chunks)"

text \<open>\<^verbatim>\<open>attemptState\<close>, and whether the handler panicked.\<close>

record attemptState =
  as_failed :: bool
  as_clientGone :: bool
  as_panicked :: bool

definition newBackendErrorHandler :: "Backend \<Rightarrow> bool \<Rightarrow> Backend \<times> attemptState" where
  "newBackendErrorHandler b canceled =
     (if canceled then (b, \<lparr>as_failed = False, as_clientGone = True, as_panicked = False\<rparr>)
      else (markHealthy b False, \<lparr>as_failed = True, as_clientGone = False, as_panicked = False\<rparr>))"

definition reverse_proxy :: "'w writer_ops \<Rightarrow> 'w \<Rightarrow> Backend \<Rightarrow> round_trip \<Rightarrow> 'w \<times> Backend \<times> attemptState" where
  "reverse_proxy ops w b rt =
     (let w1 = foldl (send_info ops) w (rt_info rt); quiet = \<lparr>as_failed = False, as_clientGone = False, as_panicked = False\<rparr>
      in case rt_final rt of
           RTError canceled \<Rightarrow> (w1, newBackendErrorHandler b canceled)
         | RTSwitched \<Rightarrow> (w1, b, quiet)
         | RTResponse code h chunks whole \<Rightarrow> (send_response ops w1 code h chunks, b, quiet\<lparr>as_panicked := \<not> whole\<rparr>))"

text \<open>\<^verbatim>\<open>errCatchingWriter\<close>: whether any status or body went through it.\<close>

definition wroteHeader :: "round_trip \<Rightarrow> bool" where
  "wroteHeader rt \<longleftrightarrow> rt_info rt \<noteq> [] \<or> (case rt_final rt of RTResponse _ _ _ _ \<Rightarrow> True | _ \<Rightarrow> False)"

datatype try_result = TryDone | TryFailed | TryPanicked

text \<open>An invalid \<^verbatim>\<open>Upgrade\<close> goes to the error handler without a round trip.\<close>

definition tryProxy :: "'w writer_ops \<Rightarrow> 'w \<Rightarrow> Backend \<Rightarrow> round_trip \<Rightarrow> 'w \<times> Backend \<times> try_result" where
  "tryProxy ops w b rt =
     (if b_proxy b = None then (w, b, TryPanicked)
      else let (w1, b1, st) = reverse_proxy ops w b rt
           in (w1, b1, if as_panicked st then TryPanicked
                       else if as_clientGone st then TryDone
                       else if as_failed st \<and> \<not> wroteHeader rt then TryFailed else TryDone))"

subsection \<open>Replaying the body\<close>

definition maxReplayBody :: nat where "maxReplayBody = 65536"

record rbody =
  bd_present :: bool
  bd_length :: int
  bd_rest :: string
  bd_fails :: bool
  bd_getBody :: "string option"

definition prepareRetryBody :: "rbody \<Rightarrow> rbody \<times> bool" where
  "prepareRetryBody bd =
     (if \<not> bd_present bd \<or> bd_getBody bd \<noteq> None then (bd, True)
      else if int maxReplayBody < bd_length bd then (bd, False)
      else let buf = take (maxReplayBody + 1) (bd_rest bd); err = (bd_fails bd \<and> length (bd_rest bd) < maxReplayBody + 1)
           in if err \<or> maxReplayBody < length buf then (bd, False)
              else (bd\<lparr>bd_getBody := Some buf, bd_rest := buf, bd_fails := False\<rparr>, True))"

definition rewindBody :: "rbody \<Rightarrow> rbody" where
  "rewindBody bd = (case bd_getBody bd of None \<Rightarrow> bd | Some buf \<Rightarrow> bd\<lparr>bd_rest := buf, bd_fails := False\<rparr>)"

text \<open>The transport reads the body to its end and closes it.\<close>

definition consumed :: "rbody \<Rightarrow> rbody" where
  "consumed bd = bd\<lparr>bd_rest := [], bd_fails := (bd_present bd \<and> bd_getBody bd = None)\<rparr>"

subsection \<open>The retry loop\<close>

text \<open>
  \<open>se_flags n\<close> are the health and draining flags that others have set on a backend before the \<open>n\<close>-th attempt, \<open>se_ticks n\<close>
  how far their picks have moved the cursor; \<open>se_roundTrip n\<close> is what the backend at that address does with the
  request and body it is sent. \<open>se_now\<close> is the time of the request, \<open>se_latency\<close> how long it takes to be served.
\<close>

record serve_env =
  se_sha :: "string \<Rightarrow> string"
  se_now :: instant
  se_latency :: duration
  se_flags :: "nat \<Rightarrow> baddr \<Rightarrow> (bool \<times> bool) option"
  se_ticks :: "nat \<Rightarrow> 64 word"
  se_roundTrip :: "nat \<Rightarrow> baddr \<Rightarrow> request \<Rightarrow> string \<Rightarrow> round_trip"

text \<open>A request that reached a backend: which one, its state when it was picked, the attempt, the request and the body.\<close>

record sent =
  sn_to :: baddr
  sn_backend :: Backend
  sn_attempt :: nat
  sn_request :: request
  sn_body :: string

record fwd =
  f_heap :: bheap
  f_group :: RouteGroup
  f_wr :: wr
  f_req :: request
  f_body :: rbody
  f_tried :: "baddr list"
  f_pin :: string
  f_run :: abRun
  f_log :: "sent list"

datatype fwd_status = Next | Break | Done | Panic

definition maxRetries :: nat where "maxRetries = 3"

fun retry_loop :: "(nat \<Rightarrow> 's \<Rightarrow> 's \<times> fwd_status) \<Rightarrow> nat \<Rightarrow> nat \<Rightarrow> 's \<Rightarrow> 's \<times> fwd_status" where
  "retry_loop step n 0 s = (s, Break)"
| "retry_loop step n (Suc k) s = (case step n s of (s1, Next) \<Rightarrow> retry_loop step (Suc n) k s1 | r \<Rightarrow> r)"

definition interfere :: "serve_env \<Rightarrow> nat \<Rightarrow> fwd \<Rightarrow> fwd" where
  "interfere env n s =
     s\<lparr>f_heap := (\<lambda>a. case se_flags env n a of None \<Rightarrow> f_heap s a
                  | Some (ok, dr) \<Rightarrow> (f_heap s a)\<lparr>b_healthyFlag := ok, b_draining := dr\<rparr>),
       f_group := (f_group s)\<lparr>g_cursor := g_cursor (f_group s) + se_ticks env n\<rparr>\<rparr>"

text \<open>The pin is consulted in the first iteration only; \<open>P\<close> is the extra condition of the A/B path.\<close>

definition sticky_pinned :: "(Backend \<Rightarrow> bool) \<Rightarrow> fwd \<Rightarrow> baddr option" where
  "sticky_pinned P s =
     (if f_pin s = [] then None
      else case backendByStickyID (f_heap s) (f_group s) (f_pin s) of
        None \<Rightarrow> None
      | Some a \<Rightarrow> (let b = f_heap s a
                   in if healthy b \<and> (\<not> b_Learned b \<or> g_Spread (f_group s)) \<and> P b then Some a else None))"

definition pick_backend :: "serve_env \<Rightarrow> bool \<Rightarrow> fwd \<Rightarrow> RouteGroup \<times> baddr option go" where
  "pick_backend env hopped s =
     (case pickHealthy (f_heap s) (f_group s) (f_tried s) (\<not> hopped) [] of
        (g1, Returned None) \<Rightarrow>
          (case pickAny (f_heap s) g1 (f_tried s) (\<not> hopped) [] of
             (g2, Returned (Some a)) \<Rightarrow> (fst (logPanicOnce g2 (se_now env)), Returned (Some a))
           | r \<Rightarrow> r)
      | r \<Rightarrow> r)"

definition queue_sticky :: "serve_env \<Rightarrow> bool \<Rightarrow> fwd \<Rightarrow> string \<Rightarrow> fwd" where
  "queue_sticky env hopped s stickyID =
     (if g_Sticky (f_group s) \<and> \<not> hopped
      then (let w = f_wr s; h = wr_header w
            in s\<lparr>f_wr := w\<lparr>wr_header := set_cookie_values h
                   (setStickyCookie (se_sha env) (h_index h ''Set-Cookie'') (f_group s) stickyID)\<rparr>\<rparr>)
      else s)"

text \<open>The bookkeeping before an attempt: tried, attribution, affinity cookie, body.\<close>

definition begin_attempt :: "serve_env \<Rightarrow> bool \<Rightarrow> nat \<Rightarrow> fwd \<Rightarrow> baddr \<Rightarrow> fwd" where
  "begin_attempt env hopped n s a =
     (let s1 = s\<lparr>f_tried := a # f_tried s, f_wr := (f_wr s)\<lparr>wr_backend := b_URL (f_heap s a)\<rparr>\<rparr>;
          s2 = queue_sticky env hopped s1 (b_stickyID (f_heap s a))
      in if 0 < n then s2\<lparr>f_body := rewindBody (f_body s2)\<rparr> else s2)"

text \<open>Sends the request of the state to a backend; the writer is the caller's.\<close>

definition attempt :: "serve_env \<Rightarrow> bool \<Rightarrow> 'w writer_ops \<Rightarrow> 'w \<Rightarrow> nat \<Rightarrow> fwd \<Rightarrow> baddr \<Rightarrow> fwd \<times> 'w \<times> try_result" where
  "attempt env stamped ops w n s a =
     (let b = f_heap s a; out = outgoing b stamped (f_req s); body = bd_rest (f_body s);
          ok = upgrade_ok b stamped (f_req s);
          rt = (if ok then se_roundTrip env n a out body else \<lparr>rt_info = [], rt_final = RTError False\<rparr>);
          (w1, b1, r) = tryProxy ops w b rt;
          reached = (b_proxy b \<noteq> None \<and> ok)
      in (s\<lparr>f_heap := (f_heap s)(a := b1),
            f_body := (if b_proxy b = None then f_body s else consumed (f_body s)),
            f_log := (if reached then f_log s @ [\<lparr>sn_to = a, sn_backend = b, sn_attempt = n, sn_request = out, sn_body = body\<rparr>] else f_log s)\<rparr>,
          w1, r))"

definition serveBodyNotReplayable :: "fwd \<Rightarrow> string \<Rightarrow> fwd" where
  "serveBodyNotReplayable s reqHost =
     s\<lparr>f_wr := wr_respond (f_wr s) (serveUnavailable (wr_header (f_wr s)) 502 reqHost unavailable_reason)\<rparr>"

definition serve503 :: "fwd \<Rightarrow> string \<Rightarrow> fwd" where
  "serve503 s reqHost =
     s\<lparr>f_wr := wr_respond (f_wr s) (serveUnavailableRetry (wr_header (f_wr s)) 503 reqHost unavailable_reason transientRetryAfter)\<rparr>"

definition proxy_step :: "serve_env \<Rightarrow> string \<Rightarrow> bool \<Rightarrow> bool \<Rightarrow> nat \<Rightarrow> fwd \<Rightarrow> fwd \<times> fwd_status" where
  "proxy_step env reqHost hopped retryable n s =
     (let s0 = interfere env n s;
          (g1, choice) = (case sticky_pinned (\<lambda>b. True) s0 of
                            Some a \<Rightarrow> (f_group s0, Returned (Some a))
                          | None \<Rightarrow> pick_backend env hopped s0);
          s1 = s0\<lparr>f_group := g1, f_pin := []\<rparr>
      in case choice of
           Panicked \<Rightarrow> (s1, Panic)
         | Returned None \<Rightarrow> (s1, Break)
         | Returned (Some a) \<Rightarrow>
             (let s2 = begin_attempt env hopped n s1 a;
                  (s3, w, r) = attempt env False plain_ops (f_wr s2) n s2 a;
                  s4 = s3\<lparr>f_wr := w\<rparr>
              in case r of
                   TryPanicked \<Rightarrow> (s4, Panic)
                 | TryDone \<Rightarrow> (s4, Done)
                 | TryFailed \<Rightarrow> if retryable then (s4, Next) else (serveBodyNotReplayable s4 reqHost, Done)))"

definition proxyToGroup :: "serve_env \<Rightarrow> string \<Rightarrow> bool \<Rightarrow> fwd \<Rightarrow> fwd \<times> bool" where
  "proxyToGroup env reqHost hopped s =
     (let (bd, retryable) = prepareRetryBody (f_body s);
          (s1, st) = retry_loop (proxy_step env reqHost hopped retryable) 0 maxRetries (s\<lparr>f_body := bd, f_tried := []\<rparr>)
      in case st of
           Panic \<Rightarrow> (s1, False)
         | Done \<Rightarrow> (s1, True)
         | _ \<Rightarrow> (serve503 s1 reqHost, True))"

subsection \<open>The A/B path\<close>

definition abPick :: "serve_env \<Rightarrow> bheap \<Rightarrow> RouteGroup \<Rightarrow> baddr list \<Rightarrow> bool \<Rightarrow> string \<Rightarrow> string \<Rightarrow> RouteGroup \<times> baddr option go" where
  "abPick env h g tried allowPeer own failover =
     (let logged = (\<lambda>r. case r of (g', Returned (Some a)) \<Rightarrow> (fst (logPanicOnce g' (se_now env)), Returned (Some a)) | _ \<Rightarrow> r);
          other = (\<lambda>pick g'. if failover = [] then (g', Returned None) else pick h g' tried allowPeer failover)
      in case pickHealthy h g tried allowPeer own of
           (g1, Returned None) \<Rightarrow>
             (case other pickHealthy g1 of
                (g2, Returned None) \<Rightarrow>
                  (case logged (pickAny h g2 tried allowPeer own) of
                     (g3, Returned None) \<Rightarrow> logged (other pickAny g3)
                   | r \<Rightarrow> r)
              | r \<Rightarrow> r)
         | r \<Rightarrow> r)"

definition recordVariant :: "abDecision \<Rightarrow> string" where
  "recordVariant d = (if d_failoverFrom d \<noteq> [] then d_failoverFrom d else d_variant d)"

definition peerRuns :: "abDecision \<Rightarrow> Backend \<Rightarrow> bool" where
  "peerRuns d b \<longleftrightarrow> b_Learned b \<and> b_peerTestID b = d_testID d"

definition abRecordServed :: "abRun \<Rightarrow> abDecision \<Rightarrow> Backend \<Rightarrow> int \<Rightarrow> duration \<Rightarrow> instant \<Rightarrow> abRun" where
  "abRecordServed run d b status latency now =
     (let run1 = (if b_Learned b \<and> 500 \<le> status then addHopError run else run)
      in if peerRuns d b \<or> \<not> d_record d \<or> status = 0 then run1
         else if d_failoverFrom d \<noteq> [] \<or> variantName b \<noteq> d_variant d
         then run_record run1 (abIdx (recordVariant d)) abFailover status latency now
         else if b_Learned b then run1
         else run_record run1 (abIdx (d_variant d)) abServed status latency now)"

definition set_request_header :: "fwd \<Rightarrow> header \<Rightarrow> fwd" where
  "set_request_header s h = s\<lparr>f_req := (f_req s)\<lparr>rq_Header := h\<rparr>\<rparr>"

text \<open>\<^verbatim>\<open>X-Variant\<close> for the chosen backend; a failover hop to a peer of the same test carries the pinned one and the flag.\<close>

definition stamp_variant :: "abDecision \<Rightarrow> Backend \<Rightarrow> header \<Rightarrow> header" where
  "stamp_variant d b h =
     (let h1 = h_del (h_set h abVariantHeader (variantName b)) abFailoverHeader
      in if peerRuns d b \<and> variantName b \<noteq> d_variant d
         then h_set (h_set h1 abVariantHeader (d_variant d)) abFailoverHeader ''1'' else h1)"

definition hop_error :: "Backend \<Rightarrow> fwd \<Rightarrow> fwd" where
  "hop_error b s = (if b_Learned b then s\<lparr>f_run := addHopError (f_run s)\<rparr> else s)"

definition record_transport :: "serve_env \<Rightarrow> abDecision \<Rightarrow> fwd \<Rightarrow> fwd" where
  "record_transport env d s = s\<lparr>f_run := run_record (f_run s) (abIdx (recordVariant d)) abTransport 0 0 (se_now env)\<rparr>"

text \<open>
  One more attempt on the other variant after a 404 of a static asset; it is the attempt after \<open>n\<close>, through \<^verbatim>\<open>sw\<close>. Where it fails, or
  no backend is left, the 404 itself is replayed.
\<close>

definition replay_404 :: "fwd \<Rightarrow> header \<Rightarrow> fwd" where
  "replay_404 s h404 =
     (let w = f_wr s;
          h = foldl (\<lambda>acc (k, vs). if k = ''Content-Length'' then acc else AList.update k vs acc) (wr_header w) h404
      in s\<lparr>f_wr := wr_writeHeader (w\<lparr>wr_header := h\<rparr>) 404\<rparr>)"

definition abStaticFallback :: "serve_env \<Rightarrow> bool \<Rightarrow> abDecision \<Rightarrow> nat \<Rightarrow> fwd \<Rightarrow> header \<Rightarrow> fwd \<times> fwd_status" where
  "abStaticFallback env hopped d n s h404 =
     (let other = abOther (d_variant d);
          (g1, choice) = (case pickHealthy (f_heap s) (f_group s) (f_tried s) (\<not> hopped) other of
                            (g', Returned None) \<Rightarrow> pickAny (f_heap s) g' (f_tried s) (\<not> hopped) other
                          | r \<Rightarrow> r);
          s1 = s\<lparr>f_group := g1\<rparr>
      in case choice of
           Panicked \<Rightarrow> (s1, Panic)
         | Returned None \<Rightarrow> (replay_404 s1 h404, Done)
         | Returned (Some a) \<Rightarrow>
             (let b = f_heap s1 a;
                  s2 = s1\<lparr>f_run := addStaticFallback (f_run s1), f_wr := (f_wr s1)\<lparr>wr_backend := b_URL b\<rparr>\<rparr>;
                  s3 = set_request_header s2 (h_del (h_set (rq_Header (f_req s2)) abVariantHeader (variantName b)) abFailoverHeader);
                  s4 = s3\<lparr>f_body := rewindBody (f_body s3)\<rparr>;
                  (s5, w, r) = attempt env True plain_ops (f_wr s4) (Suc n) s4 a;
                  s6 = s5\<lparr>f_wr := w\<rparr>
              in case r of
                   TryPanicked \<Rightarrow> (s6, Panic)
                 | TryDone \<Rightarrow> (s6, Done)
                 | TryFailed \<Rightarrow> (replay_404 s6 h404, Done)))"

definition ab_static_attempt :: "serve_env \<Rightarrow> bool \<Rightarrow> abDecision \<Rightarrow> nat \<Rightarrow> fwd \<Rightarrow> baddr \<Rightarrow> fwd \<times> fwd_status" where
  "ab_static_attempt env hopped d n s a =
     (let b = f_heap s a;
          (s1, stw, r) = attempt env True static_ops \<lparr>st_under = f_wr s, st_h = [], st_forwarded = False, st_swallowed = False\<rparr> n s a;
          s2 = s1\<lparr>f_wr := st_under stw\<rparr>
      in case r of
           TryPanicked \<Rightarrow> (s2, Panic)
         | TryFailed \<Rightarrow> (hop_error b s2, Next)
         | TryDone \<Rightarrow>
             if st_swallowed stw then abStaticFallback env hopped d n s2 (st_h stw)
             else (s2\<lparr>f_run := abRecordServed (f_run s2) d b (wr_status (f_wr s2)) (se_latency env) (se_now env)\<rparr>, Done))"

definition ab_plain_attempt :: "serve_env \<Rightarrow> string \<Rightarrow> bool \<Rightarrow> abDecision \<Rightarrow> nat \<Rightarrow> fwd \<Rightarrow> baddr \<Rightarrow> fwd \<times> fwd_status" where
  "ab_plain_attempt env reqHost retryable d n s a =
     (let b = f_heap s a;
          (s1, w, r) = attempt env True plain_ops (f_wr s) n s a;
          s2 = s1\<lparr>f_wr := w\<rparr>
      in case r of
           TryPanicked \<Rightarrow> (s2, Panic)
         | TryDone \<Rightarrow>
             (s2\<lparr>f_run := abRecordServed (f_run s2) d b (wr_status (f_wr s2)) (se_latency env) (se_now env)\<rparr>, Done)
         | TryFailed \<Rightarrow>
             (let s3 = hop_error b s2
              in if retryable then (s3, Next)
                 else (serveBodyNotReplayable (if d_record d \<and> \<not> b_Learned b then record_transport env d s3 else s3) reqHost, Done)))"

definition ab_step :: "serve_env \<Rightarrow> string \<Rightarrow> bool \<Rightarrow> bool \<Rightarrow> bool \<Rightarrow> abDecision \<Rightarrow> nat \<Rightarrow> fwd \<Rightarrow> fwd \<times> fwd_status" where
  "ab_step env reqHost hopped retryable staticRetry d n s =
     (let s0 = interfere env n s;
          (g1, choice) = (case sticky_pinned (\<lambda>b. variantName b = d_variant d) s0 of
                            Some a \<Rightarrow> (f_group s0, Returned (Some a))
                          | None \<Rightarrow> abPick env (f_heap s0) (f_group s0) (f_tried s0) (\<not> hopped) (d_variant d) (d_failover d));
          s1 = s0\<lparr>f_group := g1, f_pin := []\<rparr>
      in case choice of
           Panicked \<Rightarrow> (s1, Panic)
         | Returned None \<Rightarrow> (s1, Break)
         | Returned (Some a) \<Rightarrow>
             (let s2 = begin_attempt env hopped n s1 a;
                  s3 = set_request_header s2 (stamp_variant d (f_heap s2 a) (rq_Header (f_req s2)))
              in if staticRetry then ab_static_attempt env hopped d n s3 a
                 else ab_plain_attempt env reqHost retryable d n s3 a))"

definition abProxyToGroup :: "serve_env \<Rightarrow> string \<Rightarrow> bool \<Rightarrow> abDecision \<Rightarrow> fwd \<Rightarrow> fwd \<times> bool" where
  "abProxyToGroup env reqHost hopped d s =
     (let (bd, retryable) = prepareRetryBody (f_body s);
          isGetHead = (rq_Method (f_req s) = ''GET'' \<or> rq_Method (f_req s) = ''HEAD'');
          staticRetry = (retryable \<and> d_static d \<and> isGetHead \<and> hasVariant (f_heap s) (f_group s) (abOther (d_variant d)));
          (s1, st) = retry_loop (ab_step env reqHost hopped retryable staticRetry d) 0 maxRetries
                       (s\<lparr>f_body := bd, f_tried := [], f_wr := (f_wr s)\<lparr>wr_status := 0\<rparr>\<rparr>)
      in case st of
           Panic \<Rightarrow> (s1, False)
         | Done \<Rightarrow> (s1, True)
         | _ \<Rightarrow> (let s2 = (case f_tried s1 of
                            [] \<Rightarrow> s1
                          | l # _ \<Rightarrow> if d_record d \<and> \<not> b_Learned (f_heap s1 l) then record_transport env d s1 else s1)
                in (serve503 s2 reqHost, True)))"

end
