(* ===== verification/Labels.thy ===== *)
theory Labels
  imports ABConfig
begin

section \<open>Central labels (\<^verbatim>\<open>internal/labels/labels.go\<close>, \<^verbatim>\<open>cmd/proxy/labeloverlay.go\<close>)\<close>

text \<open>
  The registry of labels that may be managed centrally with the validators of their values, the check of a change, the overlay of
  central values onto the labels of containers, and the manager that keeps the last good overlay while Redis is
  unreachable or has lost its data. Errors are constructors of \<open>label_error\<close> in place of the texts.
\<close>

subsection \<open>Runes\<close>

text \<open>Decoding of UTF-8 as Go's \<^verbatim>\<open>range\<close> over a string does it: an invalid byte is the rune 65533 by itself.\<close>

definition cont_byte :: "nat \<Rightarrow> nat \<Rightarrow> nat \<Rightarrow> bool" where
  "cont_byte lo hi b \<longleftrightarrow> lo \<le> b \<and> b \<le> hi"

definition runeError :: nat where "runeError = 65533"

fun runes :: "nat list \<Rightarrow> nat list" where
  "runes [] = []"
| "runes (b # bs) =
     (if b < 128 then b # runes bs
      else if 194 \<le> b \<and> b \<le> 223 then
        (case bs of
           c # cs \<Rightarrow> if cont_byte 128 191 c then ((b - 192) * 64 + (c - 128)) # runes cs else runeError # runes bs
         | [] \<Rightarrow> [runeError])
      else if 224 \<le> b \<and> b \<le> 239 then
        (case bs of
           c # d # ds \<Rightarrow>
             if cont_byte (if b = 224 then 160 else 128) (if b = 237 then 159 else 191) c \<and> cont_byte 128 191 d
             then ((b - 224) * 4096 + (c - 128) * 64 + (d - 128)) # runes ds else runeError # runes bs
         | _ \<Rightarrow> runeError # runes bs)
      else if 240 \<le> b \<and> b \<le> 244 then
        (case bs of
           c # d # e # es \<Rightarrow>
             if cont_byte (if b = 240 then 144 else 128) (if b = 244 then 143 else 191) c \<and> cont_byte 128 191 d \<and> cont_byte 128 191 e
             then ((b - 240) * 262144 + (c - 128) * 4096 + (d - 128) * 64 + (e - 128)) # runes es else runeError # runes bs
         | _ \<Rightarrow> runeError # runes bs)
      else runeError # runes bs)"

definition runes_of :: "string \<Rightarrow> nat list" where
  "runes_of s = runes (map of_char s)"

subsection \<open>Validators\<close>

datatype Class = ProxyLive | DashboardLive | Security | Identity | PerReplica

datatype label_error =
    NotCentral string
  | NotSettable string Class
  | EmptyValue string
  | ValueTooLong string
  | ControlCharacters string
  | BadValue string
  | BothSetAndUnset string
  | TooManyKeys nat
  | Loosens string

definition MaxWeight :: int where "MaxWeight = 100"
definition MaxDrainSeconds :: int where "MaxDrainSeconds = 300"
definition MaxValueBytes :: nat where "MaxValueBytes = 1024"
definition MaxKeys :: nat where "MaxKeys = 64"
definition maxNameRunes :: nat where "maxNameRunes = 64"

definition is_alnum :: "nat \<Rightarrow> bool" where
  "is_alnum r \<longleftrightarrow> (97 \<le> r \<and> r \<le> 122) \<or> (65 \<le> r \<and> r \<le> 90) \<or> (48 \<le> r \<and> r \<le> 57)"

definition serviceNameRE :: "string \<Rightarrow> bool" where
  "serviceNameRE s \<longleftrightarrow>
     (case s of
        [] \<Rightarrow> False
      | c # cs \<Rightarrow> is_alnum (of_char c) \<and> length cs \<le> 62 \<and> list_all (\<lambda>c. is_alnum (of_char c) \<or> c \<in> set ''._-'') cs)"

definition isTokenRune :: "nat \<Rightarrow> bool" where
  "isTokenRune r \<longleftrightarrow> is_alnum r \<or> (r < 128 \<and> char_of r \<in> set ''!#$%&*+-.^_`|~'') \<or> r = 39"

definition isControl :: "nat \<Rightarrow> bool" where
  "isControl r \<longleftrightarrow> r < 32 \<or> (127 \<le> r \<and> r < 160)"

definition hasControl :: "string \<Rightarrow> bool" where
  "hasControl s \<longleftrightarrow> list_ex isControl (runes_of s)"

definition validBool :: "string \<Rightarrow> bool" where
  "validBool s \<longleftrightarrow> s = ''true'' \<or> s = ''false''"

definition intRange :: "int \<Rightarrow> int \<Rightarrow> string \<Rightarrow> bool" where
  "intRange lo hi s \<longleftrightarrow> (case atoi s of None \<Rightarrow> False | Some n \<Rightarrow> lo \<le> n \<and> n \<le> hi)"

definition validAbsPath :: "string \<Rightarrow> bool" where
  "validAbsPath s \<longleftrightarrow> has_prefix s ''/'' \<and> list_all (\<lambda>c. c \<noteq> CHR '' '' \<and> c \<noteq> CHR 0x09) s"

definition validName :: "string \<Rightarrow> bool" where
  "validName s \<longleftrightarrow> length (runes_of s) \<le> maxNameRunes"

definition validGroup :: "string \<Rightarrow> bool" where
  "validGroup s \<longleftrightarrow> serviceNameRE s"

definition validPathList :: "string \<Rightarrow> bool" where
  "validPathList s \<longleftrightarrow> splitTrimmed s \<noteq> [] \<and> list_all validAbsPath (splitTrimmed s)"

definition validHeaderList :: "string \<Rightarrow> bool" where
  "validHeaderList s \<longleftrightarrow> splitTrimmed s \<noteq> [] \<and> list_all (\<lambda>h. list_all isTokenRune (runes_of h)) (splitTrimmed s)"

definition ParseCacheTTL :: "string \<Rightarrow> duration option" where
  "ParseCacheTTL s0 =
     (let s = trim_space s0
      in if to_lower s \<in> {[], ''0'', ''false'', ''off''} then Some 0
         else case parse_duration s of None \<Rightarrow> None | Some d \<Rightarrow> if d < 0 then None else Some d)"

subsection \<open>The registry\<close>

definition labelAutoUpdate :: string where "labelAutoUpdate = ''proxy.autoupdate''"
definition labelUnscalable :: string where "labelUnscalable = ''proxy.unscalable''"
definition labelDrain :: string where "labelDrain = ''proxy.drain''"
definition labelGroup :: string where "labelGroup = ''proxy.group''"
definition labelMaintenance :: string where "labelMaintenance = ''proxy.maintenance''"
definition labelOverlap :: string where "labelOverlap = ''proxy.overlap''"

record Spec =
  sp_Class :: Class
  sp_Validate :: "(string \<Rightarrow> bool) option"

definition spec :: "Class \<Rightarrow> (string \<Rightarrow> bool) option \<Rightarrow> Spec" where
  "spec c v = \<lparr>sp_Class = c, sp_Validate = v\<rparr>"

definition registry :: "(string \<times> Spec) list" where
  "registry =
     [(labelWeight, spec ProxyLive (Some (intRange 1 MaxWeight))),
      (labelHealth, spec ProxyLive (Some validAbsPath)),
      (labelStrip, spec ProxyLive (Some validBool)),
      (labelName, spec ProxyLive (Some validName)),
      (labelRateLimit, spec ProxyLive (Some validBool)),
      (labelRateRPM, spec ProxyLive (Some (intRange 1 2147483647))),
      (labelSticky, spec ProxyLive (Some validBool)),
      (labelCache, spec ProxyLive (Some (\<lambda>s. ParseCacheTTL s \<noteq> None))),
      (labelCachePaths, spec ProxyLive (Some validPathList)),
      (labelDropHeaders, spec ProxyLive (Some validHeaderList)),
      (labelAutoUpdate, spec DashboardLive (Some validBool)),
      (labelUnscalable, spec DashboardLive (Some validBool)),
      (labelDrain, spec DashboardLive (Some (intRange 0 MaxDrainSeconds))),
      (labelGroup, spec DashboardLive (Some validGroup)),
      (labelMaintenance, spec DashboardLive (Some validAbsPath)),
      (labelOverlap, spec DashboardLive (Some validBool))] @
     map (\<lambda>k. (k, spec Security None)) [labelAuth, labelAuthUsers, labelAuthMode] @
     map (\<lambda>k. (k, spec Identity None)) [labelEnable, labelService, labelHost, labelPort, labelPath] @
     map (\<lambda>k. (k, spec PerReplica None)) [labelCanary, ''proxy.previous_image'', labelSpread]"

definition perReplicaPrefixes :: "string list" where
  "perReplicaPrefixes = [''proxy.ab.'', ''pmgr.env.'']"

definition Lookup :: "string \<Rightarrow> Spec option" where
  "Lookup key =
     (case map_of registry key of
        Some s \<Rightarrow> Some s
      | None \<Rightarrow> if list_ex (has_prefix key) perReplicaPrefixes then Some (spec PerReplica None) else None)"

definition Managed :: "string \<Rightarrow> bool" where
  "Managed key \<longleftrightarrow>
     (case map_of registry key of None \<Rightarrow> False | Some s \<Rightarrow> sp_Class s = ProxyLive \<or> sp_Class s = DashboardLive)"

definition ManagedKeys :: "string list" where
  "ManagedKeys = sort (filter Managed (map fst registry))"

definition reservedServices :: "string list" where
  "reservedServices = [''index'', ''version'']"

definition ValidService :: "string \<Rightarrow> bool" where
  "ValidService svc \<longleftrightarrow> serviceNameRE svc \<and> svc \<notin> set reservedServices"

definition keyError :: "string \<Rightarrow> label_error" where
  "keyError key = (case Lookup key of None \<Rightarrow> NotCentral key | Some s \<Rightarrow> NotSettable key (sp_Class s))"

definition ValidateValue :: "string \<Rightarrow> string \<Rightarrow> label_error option" where
  "ValidateValue key v =
     (if \<not> Managed key then Some (keyError key)
      else if v = [] then Some (EmptyValue key)
      else if MaxValueBytes < length v then Some (ValueTooLong key)
      else if hasControl v then Some (ControlCharacters key)
      else case Option.bind (map_of registry key) sp_Validate of
             None \<Rightarrow> None
           | Some f \<Rightarrow> if f v then None else Some (BadValue key))"

text \<open>A change: the keys to unset in their order, then the keys to set in sorted order; the map of what is set has distinct keys.\<close>

fun change_unset :: "label_map \<Rightarrow> string list \<Rightarrow> label_map \<Rightarrow> label_error + label_map" where
  "change_unset sets [] nxt = Inr nxt"
| "change_unset sets (k # ks) nxt =
     (if map_of sets k \<noteq> None then Inl (BothSetAndUnset k)
      else if \<not> Managed k then Inl (keyError k)
      else change_unset sets ks (AList.delete k nxt))"

fun change_set :: "label_map \<Rightarrow> string list \<Rightarrow> label_map \<Rightarrow> label_error + label_map" where
  "change_set sets [] nxt = Inr nxt"
| "change_set sets (k # ks) nxt =
     (case ValidateValue k (label sets k) of
        Some e \<Rightarrow> Inl e
      | None \<Rightarrow> change_set sets ks (AList.update k (label sets k) nxt))"

definition dropped_headers :: "label_map \<Rightarrow> string list" where
  "dropped_headers m = splitTrimmed (label m labelDropHeaders)"

definition ValidateChange :: "label_map \<Rightarrow> label_map \<Rightarrow> string list \<Rightarrow> bool \<Rightarrow> label_error + label_map" where
  "ValidateChange current sets unset allowLoosen =
     (case change_unset sets unset current of
        Inl e \<Rightarrow> Inl e
      | Inr n1 \<Rightarrow>
          (case change_set sets (sort (remdups (keys sets))) n1 of
             Inl e \<Rightarrow> Inl e
           | Inr nxt \<Rightarrow>
               if MaxKeys < length nxt then Inl (TooManyKeys (length nxt))
               else if allowLoosen then Inr nxt
               else (let kept = map canonicalKey (dropped_headers nxt)
                     in case find (\<lambda>h. canonicalKey h \<notin> set kept) (dropped_headers current) of
                          Some h \<Rightarrow> Inl (Loosens h)
                        | None \<Rightarrow> Inr nxt)))"

subsection \<open>The overlay\<close>

datatype overlay_source = SourceRedis | SourceDisk

record labelOverlay =
  ov_Version :: nat
  ov_Source :: overlay_source
  ov_LoadedAt :: instant
  ov_Services :: "(string \<times> label_map) list"

definition overlay_labels :: "label_map \<Rightarrow> label_map \<Rightarrow> label_map" where
  "overlay_labels m ls =
     foldl (\<lambda>nl k. case map_of m k of Some v \<Rightarrow> AList.update k v nl | None \<Rightarrow> AList.delete k nl) ls ManagedKeys"

definition overlay_container :: "labelOverlay \<Rightarrow> dockerContainer \<Rightarrow> dockerContainer" where
  "overlay_container ov c =
     (let svc = label (dc_Labels c) labelService
      in case map_of (ov_Services ov) svc of
           None \<Rightarrow> c
         | Some m \<Rightarrow> if svc = [] then c else c\<lparr>dc_Labels := overlay_labels m (dc_Labels c)\<rparr>)"

definition applyLabelOverlay :: "dockerContainer list \<Rightarrow> labelOverlay option \<Rightarrow> dockerContainer list" where
  "applyLabelOverlay cs ov =
     (case ov of
        None \<Rightarrow> cs
      | Some o1 \<Rightarrow> if ov_Services o1 = [] then cs else map (overlay_container o1) cs)"

definition sanitizeOverlayServices :: "(string \<times> label_map) list \<Rightarrow> (string \<times> label_map) list" where
  "sanitizeOverlayServices ss =
     map (\<lambda>(svc, m). (svc, filter (\<lambda>(k, v). ValidateValue k v = None) m)) (filter (\<lambda>(svc, m). ValidService svc) ss)"

subsection \<open>The manager\<close>

text \<open>
  What one check finds in Redis: the version it reads first (\<open>None\<close> is an error, \<open>Some None\<close> a missing key), and what loading
  finds afterwards, the version again, the services of the index and their hashes. The cache file is part of
  the state; \<open>rp_saves\<close> is whether writing it succeeds.
\<close>

record redis_reply =
  rp_version :: "nat option option"
  rp_version2 :: "nat option option"
  rp_index :: "string list option"
  rp_hashes :: "(string \<Rightarrow> label_map) option"
  rp_saves :: bool

record overlayManager =
  om_cur :: "labelOverlay option"
  om_redisOK :: bool
  om_wipedLogged :: bool
  om_cachePath :: string
  om_file :: "labelOverlay option"

text \<open>\<^verbatim>\<open>redisOverlaySource.Load\<close>: an error, wiped, or an overlay.\<close>

datatype loaded = LoadError | LoadWiped | Loaded labelOverlay

definition Load :: "instant \<Rightarrow> redis_reply \<Rightarrow> loaded" where
  "Load now rp =
     (case rp_version2 rp of
        None \<Rightarrow> LoadError
      | Some None \<Rightarrow> LoadWiped
      | Some (Some v) \<Rightarrow>
          (case rp_index rp of
             None \<Rightarrow> LoadError
           | Some members \<Rightarrow>
               (let svcs = filter ValidService members; ov = (\<lambda>raw. Loaded \<lparr>ov_Version = v, ov_Source = SourceRedis, ov_LoadedAt = now, ov_Services = sanitizeOverlayServices raw\<rparr>)
                in if svcs = [] then ov []
                   else case rp_hashes rp of None \<Rightarrow> LoadError | Some h \<Rightarrow> ov (map (\<lambda>s. (s, h s)) (remdups svcs)))))"

text \<open>The file as it was decoded, if it exists and is well formed.\<close>

definition loadOverlayCache :: "string \<Rightarrow> labelOverlay option \<Rightarrow> labelOverlay option" where
  "loadOverlayCache path file =
     (if path = [] then None
      else map_option (\<lambda>ov. ov\<lparr>ov_Source := SourceDisk, ov_Services := sanitizeOverlayServices (ov_Services ov)\<rparr>) file)"

definition saveOverlayCache :: "redis_reply \<Rightarrow> labelOverlay \<Rightarrow> overlayManager \<Rightarrow> overlayManager" where
  "saveOverlayCache rp ov m = (if om_cachePath m = [] \<or> \<not> rp_saves rp then m else m\<lparr>om_file := Some ov\<rparr>)"

definition handleWipedLocked :: "instant \<Rightarrow> overlayManager \<Rightarrow> overlayManager" where
  "handleWipedLocked now m =
     (case om_cur m of
        Some cur \<Rightarrow>
          if ov_Services cur \<noteq> []
          then m\<lparr>om_wipedLogged := True, om_cur := Some (if ov_Source cur \<noteq> SourceDisk then cur\<lparr>ov_Source := SourceDisk\<rparr> else cur)\<rparr>
          else if ov_Source cur \<noteq> SourceRedis \<or> ov_Version cur \<noteq> 0
          then m\<lparr>om_cur := Some \<lparr>ov_Version = 0, ov_Source = SourceRedis, ov_LoadedAt = now, ov_Services = []\<rparr>\<rparr>
          else m
      | None \<Rightarrow> m\<lparr>om_cur := Some \<lparr>ov_Version = 0, ov_Source = SourceRedis, ov_LoadedAt = now, ov_Services = []\<rparr>\<rparr>)"

text \<open>\<open>Inl\<close> is an error, \<open>Inr\<close> whether the overlay changed.\<close>

definition check :: "instant \<Rightarrow> redis_reply \<Rightarrow> overlayManager \<Rightarrow> overlayManager \<times> (unit + bool)" where
  "check now rp m =
     (let failed = (\<lambda>m. (m\<lparr>om_redisOK := False\<rparr>, Inl ()));
          wiped = (\<lambda>m. (handleWipedLocked now (m\<lparr>om_redisOK := True\<rparr>), Inr False))
      in case rp_version rp of
           None \<Rightarrow> failed m
         | Some None \<Rightarrow> wiped m
         | Some (Some v) \<Rightarrow>
             (let m1 = m\<lparr>om_wipedLogged := False\<rparr>
              in if (case om_cur m of None \<Rightarrow> False | Some cur \<Rightarrow> ov_Source cur = SourceRedis \<and> ov_Version cur = v)
                 then (m1\<lparr>om_redisOK := True\<rparr>, Inr False)
                 else case Load now rp of
                        LoadError \<Rightarrow> failed m1
                      | LoadWiped \<Rightarrow> wiped m1
                      | Loaded ov \<Rightarrow> (saveOverlayCache rp ov (m1\<lparr>om_redisOK := True, om_cur := Some ov\<rparr>), Inr True)))"

definition Init :: "instant \<Rightarrow> redis_reply \<Rightarrow> overlayManager \<Rightarrow> overlayManager" where
  "Init now rp m =
     (let m1 = (case loadOverlayCache (om_cachePath m) (om_file m) of None \<Rightarrow> m | Some ov \<Rightarrow> m\<lparr>om_cur := Some ov\<rparr>)
      in fst (check now rp m1))"

definition overlayPollInterval :: duration where "overlayPollInterval = 5 * second"
definition overlayMaxBackoff :: duration where "overlayMaxBackoff = 30 * second"

text \<open>One round of \<^verbatim>\<open>Run\<close>: the next delay, and whether the routes are refreshed.\<close>

definition run_round :: "instant \<Rightarrow> redis_reply \<Rightarrow> overlayManager \<times> duration \<Rightarrow> (overlayManager \<times> duration) \<times> bool" where
  "run_round now rp s =
     (case check now rp (fst s) of
        (m, Inl ()) \<Rightarrow> ((m, min (snd s * 2) overlayMaxBackoff), False)
      | (m, Inr changed) \<Rightarrow> ((m, overlayPollInterval), changed))"

record labelsStatus =
  ls_Version :: nat
  ls_Source :: "overlay_source option"
  ls_LoadedAt :: "instant option"
  ls_RedisOK :: bool
  ls_Services :: "(string \<times> label_map) list"

definition overlay_status :: "overlayManager option \<Rightarrow> labelsStatus" where
  "overlay_status m =
     (let none = \<lparr>ls_Version = 0, ls_Source = None, ls_LoadedAt = None, ls_RedisOK = False, ls_Services = []\<rparr>
      in case m of
           None \<Rightarrow> none
         | Some m1 \<Rightarrow>
             (case om_cur m1 of
                None \<Rightarrow> none\<lparr>ls_RedisOK := om_redisOK m1\<rparr>
              | Some ov \<Rightarrow> \<lparr>ls_Version = ov_Version ov, ls_Source = Some (ov_Source ov), ls_LoadedAt = Some (ov_LoadedAt ov),
                           ls_RedisOK = om_redisOK m1, ls_Services = ov_Services ov\<rparr>))"

subsection \<open>What a change and an overlay can do\<close>

lemma Managed_registry: "Managed k \<Longrightarrow> k \<in> set (map fst registry)"
  by (auto simp: Managed_def dest: map_of_SomeD intro: rev_image_eqI split: option.splits)

lemma set_ManagedKeys: "set ManagedKeys = {k. Managed k}"
  using Managed_registry by (auto simp: ManagedKeys_def)

lemma overlay_labels_lookup: "map_of (overlay_labels m ls) k = (if Managed k then map_of m k else map_of ls k)"
proof -
  have "map_of (foldl (\<lambda>nl k. case map_of m k of Some v \<Rightarrow> AList.update k v nl | None \<Rightarrow> AList.delete k nl) ls ks) k =
      (if k \<in> set ks then map_of m k else map_of ls k)" for ks
    by (induction ks arbitrary: ls) (auto simp: update_conv' delete_conv' split: option.split)
  then show ?thesis by (simp add: overlay_labels_def set_ManagedKeys)
qed

text \<open>The labels no central value can set: routing identity, the auth gate, what the dashboard keeps per replica.\<close>

definition container_only :: "string \<Rightarrow> bool" where
  "container_only k \<longleftrightarrow>
     k \<in> {labelEnable, labelService, labelHost, labelPort, labelPath, labelAuth, labelAuthUsers, labelAuthMode, labelCanary, labelSpread} \<or>
     list_ex (has_prefix k) perReplicaPrefixes"

lemma container_only_not_managed: "container_only k \<Longrightarrow> \<not> Managed k"
proof
  assume c: "container_only k" and m: "Managed k"
  have "list_all (\<lambda>k. \<not> Managed k) [labelEnable, labelService, labelHost, labelPort, labelPath, labelAuth, labelAuthUsers, labelAuthMode, labelCanary, labelSpread]"
    by code_simp
  with c m have "list_ex (has_prefix k) perReplicaPrefixes" by (auto simp: container_only_def)
  moreover have "list_all (\<lambda>k. \<not> list_ex (has_prefix k) perReplicaPrefixes) (map fst registry)" by code_simp
  ultimately show False using Managed_registry [OF m] by (auto simp: list_all_iff)
qed

lemma overlay_container_lookup:
  "map_of (dc_Labels (overlay_container o1 c)) k =
    (case map_of (ov_Services o1) (label (dc_Labels c) labelService) of
       None \<Rightarrow> map_of (dc_Labels c) k
     | Some m \<Rightarrow> if label (dc_Labels c) labelService \<noteq> [] \<and> Managed k then map_of m k else map_of (dc_Labels c) k)"
  "(overlay_container o1 c)\<lparr>dc_Labels := []\<rparr> = c\<lparr>dc_Labels := []\<rparr>"
  by (simp_all add: overlay_container_def Let_def overlay_labels_lookup split: option.split)

lemma applyLabelOverlay_map: "applyLabelOverlay cs ov = map (\<lambda>c. case ov of None \<Rightarrow> c | Some o1 \<Rightarrow> overlay_container o1 c) cs"
proof (cases ov)
  case (Some o1)
  have "overlay_container o1 = (\<lambda>c. c)" if "ov_Services o1 = []" using that by (simp add: overlay_container_def fun_eq_iff Let_def)
  with Some show ?thesis by (simp add: applyLabelOverlay_def)
qed (simp add: applyLabelOverlay_def)

text \<open>
  (C8) Central labels cannot open a route. Whatever is in Redis, applying an overlay keeps every container with its name, state and networks, and the labels of routing
  identity, of the auth gate and of A/B tests as the container has them; of the other labels of a container whose service is adopted, exactly those the registry manages are
  replaced, each by the central value or by its absence.
\<close>

theorem overlay_touches_managed_only:
  assumes "i < length cs"
  shows "length (applyLabelOverlay cs ov) = length cs \<and>
    (applyLabelOverlay cs ov ! i)\<lparr>dc_Labels := []\<rparr> = (cs ! i)\<lparr>dc_Labels := []\<rparr> \<and>
    (\<forall>k. container_only k \<longrightarrow> map_of (dc_Labels (applyLabelOverlay cs ov ! i)) k = map_of (dc_Labels (cs ! i)) k) \<and>
    (\<forall>k. map_of (dc_Labels (applyLabelOverlay cs ov ! i)) k =
      (case ov of
         None \<Rightarrow> map_of (dc_Labels (cs ! i)) k
       | Some o1 \<Rightarrow>
           (case map_of (ov_Services o1) (label (dc_Labels (cs ! i)) labelService) of
              None \<Rightarrow> map_of (dc_Labels (cs ! i)) k
            | Some m \<Rightarrow> if label (dc_Labels (cs ! i)) labelService \<noteq> [] \<and> Managed k then map_of m k else map_of (dc_Labels (cs ! i)) k)))"
  using assms container_only_not_managed by (auto simp: applyLabelOverlay_map overlay_container_lookup split: option.split)

theorem overlay_touches_managed_only_witness:
  "let c = \<lparr>dc_ID = ''1'', dc_Names = [''/web''], dc_State = ''running'', dc_Status = [],
             dc_Labels = [(labelService, ''web''), (labelAuth, ''true''), (labelWeight, ''2'')], dc_Networks = []\<rparr>;
       ov = \<lparr>ov_Version = 1, ov_Source = SourceRedis, ov_LoadedAt = 0, ov_Services = [(''web'', [(labelAuth, ''false''), (labelSticky, ''true'')])]\<rparr>;
       c' = applyLabelOverlay [c] (Some ov) ! 0
   in label (dc_Labels c') labelAuth = ''true'' \<and> label (dc_Labels c') labelSticky = ''true'' \<and> label (dc_Labels c') labelWeight = []"
proof -
  let ?c = "\<lparr>dc_ID = ''1'', dc_Names = [''/web''], dc_State = ''running'', dc_Status = [],
             dc_Labels = [(labelService, ''web''), (labelAuth, ''true''), (labelWeight, ''2'')], dc_Networks = []\<rparr>"
  let ?ov = "\<lparr>ov_Version = 1, ov_Source = SourceRedis, ov_LoadedAt = 0, ov_Services = [(''web'', [(labelAuth, ''false''), (labelSticky, ''true'')])]\<rparr>"
  have "\<not> Managed labelAuth" "Managed labelSticky" "Managed labelWeight" by code_simp+
  with overlay_touches_managed_only [of 0 "[?c]" "Some ?ov"] show ?thesis by (simp add: Let_def label_def label_defs)
qed

lemma change_unset_Inr:
  "change_unset sets ks n0 = Inr n1 \<Longrightarrow> \<forall>k\<in>set ks. Managed k \<and> map_of sets k = None"
  "change_unset sets ks n0 = Inr n1 \<Longrightarrow> map_of n1 k = (if k \<in> set ks then None else map_of n0 k)"
  by (induction ks arbitrary: n0) (auto simp: delete_conv' split: if_splits)

lemma change_set_Inr:
  "change_set sets ks n0 = Inr n1 \<Longrightarrow> \<forall>k\<in>set ks. ValidateValue k (label sets k) = None"
  "change_set sets ks n0 = Inr n1 \<Longrightarrow> map_of n1 k = (if k \<in> set ks then Some (label sets k) else map_of n0 k)"
  by (induction ks arbitrary: n0) (auto simp: update_conv' split: option.splits)

lemma ValidateValue_None: "ValidateValue k v = None \<Longrightarrow> Managed k \<and> v \<noteq> [] \<and> length v \<le> MaxValueBytes \<and> \<not> hasControl v"
  by (auto simp: ValidateValue_def split: if_splits)

text \<open>
  (C10) A change that is accepted is well formed. Everything it sets or unsets is a managed key, every value set passes its validator, is not empty, has at most 1024 bytes and no
  control character, no key is both set and unset, the result has at most 64 keys and is what the request says, and
  unless loosening was asked for, every header that was dropped from requests still is, under canonical names.
\<close>

theorem accepted_change:
  assumes "ValidateChange current sets unset allowLoosen = Inr nxt"
  shows "(\<forall>k. map_of nxt k = (if map_of sets k \<noteq> None then map_of sets k else if k \<in> set unset then None else map_of current k)) \<and>
    (\<forall>k v. map_of sets k = Some v \<longrightarrow> Managed k \<and> ValidateValue k v = None \<and> v \<noteq> [] \<and> length v \<le> MaxValueBytes \<and> \<not> hasControl v) \<and>
    (\<forall>k\<in>set unset. Managed k \<and> map_of sets k = None) \<and> length nxt \<le> MaxKeys \<and>
    (\<not> allowLoosen \<longrightarrow> (\<forall>h\<in>set (dropped_headers current). \<exists>h'\<in>set (dropped_headers nxt). canonicalKey h' = canonicalKey h))"
proof -
  from assms obtain n1 where u: "change_unset sets unset current = Inr n1" and s: "change_set sets (sort (remdups (keys sets))) n1 = Inr nxt"
    and l: "length nxt \<le> MaxKeys" and d: "\<not> allowLoosen \<Longrightarrow> find (\<lambda>h. canonicalKey h \<notin> canonicalKey ` set (dropped_headers nxt)) (dropped_headers current) = None"
    by (auto simp: ValidateChange_def Let_def split: sum.splits if_splits option.splits)
  have k: "k \<in> set (sort (remdups (keys sets))) \<longleftrightarrow> (\<exists>v. map_of sets k = Some v)" for k
    by (metis set_sort set_remdups map_of_eq_None_iff not_None_eq image_set)
  have lb: "label sets k = v" if "map_of sets k = Some v" for k v using that by (simp add: label_def)
  have 1: "\<forall>k. map_of nxt k = (if map_of sets k \<noteq> None then map_of sets k else if k \<in> set unset then None else map_of current k)"
    using change_set_Inr(2) [OF s] change_unset_Inr(2) [OF u] k lb by auto
  have 2: "ValidateValue k v = None" if "map_of sets k = Some v" for k v
    using change_set_Inr(1) [OF s] k [of k] lb [OF that] that by metis
  have 3: "\<forall>h\<in>set (dropped_headers current). \<exists>h'\<in>set (dropped_headers nxt). canonicalKey h' = canonicalKey h" if "\<not> allowLoosen"
    using d [OF that] by (fastforce simp: find_None_iff)
  from 1 2 3 l change_unset_Inr(1) [OF u] ValidateValue_None show ?thesis by blast
qed

theorem accepted_change_witness:
  "\<exists>nxt. ValidateChange [(labelDropHeaders, ''X-User'')] [(labelDropHeaders, ''x-user, X-Role''), (labelSticky, ''true'')] [labelCache] False = Inr nxt \<and>
     (\<exists>h\<in>set (dropped_headers nxt). canonicalKey h = ''X-User'')"
proof -
  have "isl (ValidateChange [(labelDropHeaders, ''X-User'')] [(labelDropHeaders, ''x-user, X-Role''), (labelSticky, ''true'')] [labelCache] False) = False" by code_simp
  then obtain nxt where n: "ValidateChange [(labelDropHeaders, ''X-User'')] [(labelDropHeaders, ''x-user, X-Role''), (labelSticky, ''true'')] [labelCache] False = Inr nxt"
    by (metis isl_def sum.exhaust)
  have "dropped_headers [(labelDropHeaders, ''X-User'')] = [''X-User'']" "canonicalKey ''X-User'' = ''X-User''" by code_simp+
  with accepted_change [OF n] n show ?thesis by auto
qed

subsection \<open>The last good overlay stays\<close>

definition services_of :: "overlayManager \<Rightarrow> (string \<times> label_map) list" where
  "services_of m = (case om_cur m of None \<Rightarrow> [] | Some ov \<Rightarrow> ov_Services ov)"

definition valid_services :: "(string \<times> label_map) list \<Rightarrow> bool" where
  "valid_services ss \<longleftrightarrow> (\<forall>(svc, m)\<in>set ss. ValidService svc \<and> (\<forall>(k, v)\<in>set m. ValidateValue k v = None))"

lemma valid_sanitized: "valid_services (sanitizeOverlayServices ss)"
  by (auto simp: valid_services_def sanitizeOverlayServices_def)

lemma Load_valid: "Load now rp = Loaded ov \<Longrightarrow> valid_services (ov_Services ov)"
  by (auto simp: Load_def Let_def valid_sanitized split: option.splits if_splits)

lemma handleWiped_services: "services_of (handleWipedLocked now m) = services_of m"
  by (auto simp: handleWipedLocked_def services_of_def split: option.split)

lemma saveOverlayCache_cur [simp]: "om_cur (saveOverlayCache rp ov m) = om_cur m"
  by (simp add: saveOverlayCache_def)

lemma services_of_flags [simp]: "services_of (m\<lparr>om_redisOK := b\<rparr>) = services_of m" "services_of (m\<lparr>om_wipedLogged := b\<rparr>) = services_of m"
  by (simp_all add: services_of_def)

lemma check_services:
  assumes "check now rp m = (m', res)"
  shows "(res = Inr True \<and> (\<exists>ov. Load now rp = Loaded ov \<and> services_of m' = ov_Services ov)) \<or> (res \<noteq> Inr True \<and> services_of m' = services_of m)"
proof (cases "rp_version rp")
  case None
  with assms show ?thesis by (auto simp: check_def)
next
  case (Some v)
  show ?thesis
  proof (cases v)
    case None
    with assms Some show ?thesis by (auto simp: check_def handleWiped_services)
  next
    case (Some w)
    with assms \<open>rp_version rp = Some v\<close> show ?thesis
      by (auto simp: check_def Let_def handleWiped_services services_of_def [of "saveOverlayCache _ _ _"] split: if_splits loaded.splits)
  qed
qed

text \<open>The rounds of the manager with what Redis answers in each, and the services that a round loaded.\<close>

fun rounds :: "overlayManager \<Rightarrow> (instant \<times> redis_reply) list \<Rightarrow> overlayManager" where
  "rounds m [] = m"
| "rounds m ((t, rp) # xs) = rounds (fst (check t rp m)) xs"

fun loads :: "overlayManager \<Rightarrow> (instant \<times> redis_reply) list \<Rightarrow> (string \<times> label_map) list list" where
  "loads m [] = []"
| "loads m ((t, rp) # xs) =
     (case check t rp m of (m', res) \<Rightarrow> (if res = Inr True then [services_of m'] else []) @ loads m' xs)"

text \<open>
  (C9) The last good overlay stays. Over any sequence of answers of Redis (errors, a missing version, partial failures, data), the services in force are those of the last load that succeeded, or those the
  manager started with if none did; a load happens only with data that was read completely, and what is in force was validated.
\<close>

theorem last_good_overlay:
  assumes "valid_services (services_of m)"
  shows "services_of (rounds m xs) = last (services_of m # loads m xs) \<and> valid_services (services_of (rounds m xs)) \<and>
    (\<forall>ss\<in>set (loads m xs). \<exists>(t, rp)\<in>set xs. \<exists>ov. Load t rp = Loaded ov \<and> ov_Services ov = ss)"
  using assms
proof (induction xs arbitrary: m)
  case (Cons x xs)
  obtain t rp where x: "x = (t, rp)" by (rule prod.exhaust)
  obtain m' res where c: "check t rp m = (m', res)" by (rule prod.exhaust)
  note cs = check_services [OF c]
  then have "valid_services (services_of m')" using Cons.prems Load_valid by metis
  note ih = Cons.IH [OF this]
  show ?case
  proof (cases "res = Inr True")
    case True
    with cs obtain ov where "Load t rp = Loaded ov" "services_of m' = ov_Services ov" by auto
    with ih True show ?thesis by (auto simp: x c intro: bexI [of _ "(t, rp)"])
  next
    case False
    with cs have "services_of m' = services_of m" by auto
    with ih False show ?thesis by (auto simp: x c intro: bexI [of _ "(t, rp)"])
  qed
qed simp

theorem last_good_overlay_witness:
  "let m = \<lparr>om_cur = None, om_redisOK = False, om_wipedLogged = False, om_cachePath = [], om_file = None\<rparr>;
       data = \<lparr>rp_version = Some (Some 3), rp_version2 = Some (Some 3), rp_index = Some [''web''],
               rp_hashes = Some (\<lambda>s. [(labelSticky, ''true''), (labelAuth, ''false'')]), rp_saves = True\<rparr>;
       down = data\<lparr>rp_version := None\<rparr>; wiped = data\<lparr>rp_version := Some None\<rparr>
   in services_of (rounds m [(0, data), (5, down), (10, wiped)]) = [(''web'', [(labelSticky, ''true'')])]"
proof -
  let ?m = "\<lparr>om_cur = None, om_redisOK = False, om_wipedLogged = False, om_cachePath = [], om_file = None\<rparr>"
  let ?data = "\<lparr>rp_version = Some (Some 3), rp_version2 = Some (Some 3), rp_index = Some [''web''],
               rp_hashes = Some (\<lambda>s. [(labelSticky, ''true''), (labelAuth, ''false'')]), rp_saves = True\<rparr> :: redis_reply"
  let ?xs = "[(0, ?data), (5, ?data\<lparr>rp_version := None\<rparr>), (10, ?data\<lparr>rp_version := Some None\<rparr>)]"
  have "loads ?m ?xs = [[(''web'', [(labelSticky, ''true'')])]]" by code_simp
  with last_good_overlay [of ?m ?xs] show ?thesis by (simp add: Let_def services_of_def valid_services_def)
qed

end
