(* ===== verification/Assemble.thy ===== *)
theory Assemble
  imports Forward Labels
begin

section \<open>Assembly of the routes (\<^verbatim>\<open>assembleGroupsWithOverlay\<close> in \<^verbatim>\<open>cmd/proxy/router.go\<close>)\<close>

text \<open>
  From \<^verbatim>\<open>routes.json\<close> and the labels of the running containers to the groups that a refresh hands to the router: static routes,
  one backend per running container, the merging of labels of replicas, the service pools, the A/B configuration.
  New backends are allocated in the heap of backends. The groups come out in the order in which they were created; the order in
  which Go ranges over its map does not matter, since \<^verbatim>\<open>Set\<close> sorts them.
\<close>

definition normalizeAuthUsers :: "string list \<Rightarrow> string list" where
  "normalizeAuthUsers xs = filter (\<lambda>u. u \<noteq> []) (map (\<lambda>u. to_lower (trim_space u)) xs)"

record staticRoute =
  sr_Host :: string
  sr_Path :: string
  sr_Strip :: bool
  sr_Name :: string
  sr_Backends :: "string list"
  sr_Service :: string
  sr_Health :: string
  sr_Auth :: bool
  sr_AuthUsers :: "string list"
  sr_AuthMode :: string
  sr_RateLimit :: bool
  sr_RateRPM :: int
  sr_DropHeaders :: "string list"
  sr_Sticky :: bool
  sr_Cache :: string
  sr_CachePaths :: "string list"

text \<open>What the file system and the Docker client return, the hash of backend identities, and whether \<^verbatim>\<open>url.Parse\<close> accepts an address.\<close>

datatype config_file = NoConfig | BadConfig | Config "staticRoute list"

record assemble_env =
  ge_sha :: "string \<Rightarrow> string"
  ge_parses :: "string \<Rightarrow> bool"
  ge_now :: instant

record assembly =
  gs_heap :: bheap
  gs_next :: baddr
  gs_groups :: "(string \<times> RouteGroup) list"
  gs_services :: "(string \<times> baddr list) list"

definition group_key :: "string \<Rightarrow> string \<Rightarrow> string" where
  "group_key host path = host @ ''|'' @ path"

definition alloc :: "Backend \<Rightarrow> assembly \<Rightarrow> assembly \<times> baddr" where
  "alloc b st = (st\<lparr>gs_heap := (gs_heap st)(gs_next st := b), gs_next := Suc (gs_next st)\<rparr>, gs_next st)"

definition put_group :: "string \<Rightarrow> RouteGroup \<Rightarrow> assembly \<Rightarrow> assembly" where
  "put_group key g st = st\<lparr>gs_groups := AList.update key g (gs_groups st)\<rparr>"

subsection \<open>Static routes\<close>

definition static_group :: "staticRoute \<Rightarrow> RouteGroup" where
  "static_group sr =
     zeroGroup\<lparr>g_Host := sr_Host sr, g_PathPrefix := sr_Path sr, g_StripPrefix := sr_Strip sr, g_Name := sr_Name sr,
       g_Service := sr_Service sr, g_AuthRequired := sr_Auth sr, g_AuthUsers := normalizeAuthUsers (sr_AuthUsers sr),
       g_AuthMode := sr_AuthMode sr, g_RateLimit := sr_RateLimit sr, g_RateRPM := sr_RateRPM sr, g_DropHeaders := sr_DropHeaders sr,
       g_Sticky := sr_Sticky sr, g_CacheTTL := (case ParseCacheTTL (sr_Cache sr) of None \<Rightarrow> 0 | Some d \<Rightarrow> d),
       g_CachePaths := unionStrings [] (sr_CachePaths sr), g_static := True\<rparr>"

definition add_static_backend :: "assemble_env \<Rightarrow> staticRoute \<Rightarrow> assembly \<Rightarrow> string \<Rightarrow> assembly" where
  "add_static_backend env sr st raw =
     (if \<not> ge_parses env raw then st
      else (let key = group_key (sr_Host sr) (sr_Path sr); (st1, a) = alloc (makeBackend (ge_sha env) raw 1 ''static'' (sr_Health sr) (sr_Host sr)) st
            in st1\<lparr>gs_groups := AList.map_entry key (\<lambda>g. g\<lparr>g_Backends := g_Backends g @ [a]\<rparr>) (gs_groups st1)\<rparr>))"

definition add_static :: "assemble_env \<Rightarrow> assembly \<Rightarrow> staticRoute \<Rightarrow> assembly" where
  "add_static env st sr =
     (let key = group_key (sr_Host sr) (sr_Path sr);
          st1 = (if map_of (gs_groups st) key = None then put_group key (static_group sr) st else st)
      in foldl (add_static_backend env sr) st1 (sr_Backends sr))"

subsection \<open>Containers\<close>

definition managedNetwork :: string where "managedNetwork = ''edge''"

definition container_ip :: "dockerContainer \<Rightarrow> string" where
  "container_ip c =
     (case map_of (dc_Networks c) managedNetwork of
        Some ip \<Rightarrow> if ip \<noteq> [] then ip else (case find (\<lambda>n. snd n \<noteq> []) (dc_Networks c) of None \<Rightarrow> [] | Some n \<Rightarrow> snd n)
      | None \<Rightarrow> (case find (\<lambda>n. snd n \<noteq> []) (dc_Networks c) of None \<Rightarrow> [] | Some n \<Rightarrow> snd n))"

definition container_backend :: "assemble_env \<Rightarrow> abScanResult \<Rightarrow> dockerContainer \<Rightarrow> string \<Rightarrow> int \<Rightarrow> Backend option" where
  "container_backend env sc c host port =
     (let ip = container_ip c; name = container_name c
      in if dc_State c \<noteq> ''running'' \<or> ip = [] \<or> name \<in> set (as_excluded sc) then None
         else (let weight = (case atoi (label (dc_Labels c) labelWeight) of None \<Rightarrow> 1 | Some w \<Rightarrow> if 0 < w then w else 1);
                   b = (makeBackend (ge_sha env) (''http://'' @ ip @ '':'' @ itoa port) weight name (label (dc_Labels c) labelHealth) host)
                         \<lparr>b_ContainerID := dc_ID c, b_DockerUnhealthy := dockerUnhealthy (dc_Status c)\<rparr>
               in Some (if name \<in> set (as_bNames sc) then b\<lparr>b_Variant := abVariantB\<rparr> else b)))"

definition label_group :: "dockerContainer \<Rightarrow> string \<Rightarrow> string \<Rightarrow> RouteGroup" where
  "label_group c host path =
     (let display = label (dc_Labels c) labelName
      in zeroGroup\<lparr>g_Host := host, g_PathPrefix := path, g_StripPrefix := (label (dc_Labels c) labelStrip = ''true''),
           g_Name := (if display = [] then host else display), g_Service := label (dc_Labels c) labelService,
           g_DropHeaders := splitTrimmed (label (dc_Labels c) labelDropHeaders)\<rparr>)"

text \<open>The fields that are merged across the replicas of a route.\<close>

definition merge_auth :: "label_map \<Rightarrow> RouteGroup \<Rightarrow> RouteGroup" where
  "merge_auth ls g =
     (let g1 = (if label ls labelAuth = ''true'' then g\<lparr>g_AuthRequired := True\<rparr> else g);
          g2 = (if label ls labelAuthMode = ''oauth'' then g1\<lparr>g_AuthMode := ''oauth''\<rparr> else g1)
      in if g_AuthUsers g2 = [] then g2\<lparr>g_AuthUsers := normalizeAuthUsers (split_on CHR '','' (label ls labelAuthUsers))\<rparr> else g2)"

definition merge_flags :: "label_map \<Rightarrow> RouteGroup \<Rightarrow> RouteGroup" where
  "merge_flags ls g =
     (let g1 = (if label ls labelRateLimit = ''true'' then g\<lparr>g_RateLimit := True\<rparr> else g);
          g2 = (if label ls labelSpread = ''true'' then g1\<lparr>g_SpreadLocal := True, g_Spread := True\<rparr> else g1)
      in if label ls labelSticky = ''true'' then g2\<lparr>g_Sticky := True\<rparr> else g2)"

definition merge_cache :: "label_map \<Rightarrow> RouteGroup \<Rightarrow> RouteGroup" where
  "merge_cache ls g =
     (let v = label ls labelCache;
          g1 = (if v = [] then g
                else case ParseCacheTTL v of None \<Rightarrow> g | Some d \<Rightarrow> if g_CacheTTL g < d then g\<lparr>g_CacheTTL := d\<rparr> else g)
      in g1\<lparr>g_CachePaths := unionStrings (g_CachePaths g1) (splitTrimmed (label ls labelCachePaths))\<rparr>)"

definition merge_rpm :: "label_map \<Rightarrow> RouteGroup \<Rightarrow> RouteGroup" where
  "merge_rpm ls g =
     (let v = label ls labelRateRPM
      in if v \<noteq> [] \<and> g_RateRPM g = 0
         then (case atoi v of None \<Rightarrow> g | Some rpm \<Rightarrow> if rpm \<le> 0 then g else g\<lparr>g_RateRPM := rpm\<rparr>)
         else g)"

definition merge_labels :: "label_map \<Rightarrow> RouteGroup \<Rightarrow> RouteGroup" where
  "merge_labels ls g = merge_rpm ls (merge_cache ls (merge_flags ls (merge_auth ls g)))"

definition add_service :: "string \<Rightarrow> baddr \<Rightarrow> assembly \<Rightarrow> assembly" where
  "add_service svc a st =
     st\<lparr>gs_services := AList.update svc ((case map_of (gs_services st) svc of None \<Rightarrow> [] | Some bs \<Rightarrow> bs) @ [a]) (gs_services st)\<rparr>"

text \<open>Host and port of a container that can be routed to.\<close>

definition container_port :: "dockerContainer \<Rightarrow> int option" where
  "container_port c =
     (if label (dc_Labels c) labelHost = [] \<or> label (dc_Labels c) labelPort = [] then None else atoi (label (dc_Labels c) labelPort))"

definition container_key :: "dockerContainer \<Rightarrow> string" where
  "container_key c = group_key (label (dc_Labels c) labelHost) (label (dc_Labels c) labelPath)"

definition add_container :: "assemble_env \<Rightarrow> abScanResult \<Rightarrow> assembly \<Rightarrow> dockerContainer \<Rightarrow> assembly" where
  "add_container env sc st c =
     (case container_port c of
        None \<Rightarrow> st
      | Some port \<Rightarrow>
          (let ls = dc_Labels c; host = label ls labelHost; path = label ls labelPath; key = container_key c;
               (st1, a) = (case container_backend env sc c host port of
                             None \<Rightarrow> (st, None)
                           | Some b \<Rightarrow> (let (st', a) = alloc b st in (st', Some a)));
               st2 = (case a of
                        None \<Rightarrow> st1
                      | Some a1 \<Rightarrow> if label ls labelService \<noteq> [] \<and> label ls labelCanary \<noteq> ''true'' then add_service (label ls labelService) a1 st1 else st1);
               g = (case map_of (gs_groups st2) key of None \<Rightarrow> label_group c host path | Some g \<Rightarrow> g)
           in if g_static g then st2
              else (let g1 = merge_labels ls g
                    in put_group key (case a of None \<Rightarrow> g1 | Some a1 \<Rightarrow> g1\<lparr>g_Backends := g_Backends g1 @ [a1]\<rparr>) st2)))"

subsection \<open>The result\<close>

definition finish_group :: "abScanResult \<Rightarrow> assembly \<Rightarrow> RouteGroup \<Rightarrow> RouteGroup" where
  "finish_group sc st g =
     (let g1 = (if g_static g \<and> g_Service g \<noteq> []
                then (case map_of (gs_services st) (g_Service g) of None \<Rightarrow> g | Some bs \<Rightarrow> g\<lparr>g_Backends := g_Backends g @ bs\<rparr>)
                else g);
          g2 = (if g_RateLimit g1 \<and> g_RateRPM g1 \<le> 0 then g1\<lparr>g_RateRPM := defaultRateRPM\<rparr> else g1);
          g3 = g2\<lparr>g_Backends := sort_key (\<lambda>a. b_URL (gs_heap st a)) (g_Backends g2)\<rparr>
      in case map_of (as_configs sc) (g_Service g3) of
           None \<Rightarrow> g3
         | Some cfg \<Rightarrow>
             if g_static g3 then g3
             else (let g4 = g3\<lparr>g_abLocal := Some cfg\<rparr> in if hasBBackend (gs_heap st) g4 then g4\<lparr>g_abCfg := Some cfg\<rparr> else g4))"

definition assembled :: "assemble_env \<Rightarrow> staticRoute list \<Rightarrow> dockerContainer list \<Rightarrow> bheap \<Rightarrow> baddr \<Rightarrow> assembly" where
  "assembled env routes cs h a =
     foldl (add_container env (abScan cs (ge_now env)))
       (foldl (add_static env) \<lparr>gs_heap = h, gs_next = a, gs_groups = [], gs_services = []\<rparr> routes) cs"

definition assembleGroupsWithOverlay :: "assemble_env \<Rightarrow> config_file \<Rightarrow> dockerContainer list option \<Rightarrow> labelOverlay option \<Rightarrow> bheap \<Rightarrow> baddr \<Rightarrow>
    (assembly \<times> RouteGroup list) option" where
  "assembleGroupsWithOverlay env config containers ov h a =
     (case config of
        BadConfig \<Rightarrow> None
      | _ \<Rightarrow>
          (case containers of
             None \<Rightarrow> None
           | Some cs0 \<Rightarrow>
               (let cs = applyLabelOverlay cs0 ov;
                    st = assembled env (case config of Config routes \<Rightarrow> routes | _ \<Rightarrow> []) cs h a
                in Some (st, map (finish_group (abScan cs (ge_now env)) st) (map snd (gs_groups st))))))"

definition assembleGroups :: "assemble_env \<Rightarrow> config_file \<Rightarrow> dockerContainer list option \<Rightarrow> bheap \<Rightarrow> baddr \<Rightarrow> (assembly \<times> RouteGroup list) option" where
  "assembleGroups env config containers h a = assembleGroupsWithOverlay env config containers None h a"

subsection \<open>What the merging of replicas computes\<close>

lemma group_key_routeKey: "group_key (g_Host g) (g_PathPrefix g) = routeKey g"
  by (simp add: group_key_def routeKey_def)

definition replicas :: "dockerContainer list \<Rightarrow> string \<Rightarrow> dockerContainer list" where
  "replicas cs key = filter (\<lambda>c. container_port c \<noteq> None \<and> container_key c = key) cs"

definition any_true :: "string \<Rightarrow> dockerContainer list \<Rightarrow> bool" where
  "any_true key rs \<longleftrightarrow> list_ex (\<lambda>c. label (dc_Labels c) key = ''true'') rs"

text \<open>The configuration of a route as a function of all its replicas.\<close>

definition merged_from :: "dockerContainer list \<Rightarrow> RouteGroup \<Rightarrow> bool" where
  "merged_from rs g \<longleftrightarrow>
     g_AuthRequired g = any_true labelAuth rs \<and>
     g_AuthMode g = (if list_ex (\<lambda>c. label (dc_Labels c) labelAuthMode = ''oauth'') rs then ''oauth'' else []) \<and>
     g_AuthUsers g = (case find (\<lambda>us. us \<noteq> []) (map (\<lambda>c. normalizeAuthUsers (split_on CHR '','' (label (dc_Labels c) labelAuthUsers))) rs) of
                        None \<Rightarrow> [] | Some us \<Rightarrow> us) \<and>
     g_RateLimit g = any_true labelRateLimit rs \<and> g_SpreadLocal g = any_true labelSpread rs \<and> g_Spread g = any_true labelSpread rs \<and>
     g_Sticky g = any_true labelSticky rs \<and>
     g_CacheTTL g = foldl max 0 (List.map_filter (\<lambda>c. ParseCacheTTL (label (dc_Labels c) labelCache)) rs)"

lemma merge_auth_simps [simp]:
  "g_Host (merge_auth ls g) = g_Host g" "g_PathPrefix (merge_auth ls g) = g_PathPrefix g" "g_StripPrefix (merge_auth ls g) = g_StripPrefix g"
  "g_Name (merge_auth ls g) = g_Name g" "g_Service (merge_auth ls g) = g_Service g" "g_Backends (merge_auth ls g) = g_Backends g"
  "g_static (merge_auth ls g) = g_static g" "g_RateLimit (merge_auth ls g) = g_RateLimit g" "g_RateRPM (merge_auth ls g) = g_RateRPM g"
  "g_Spread (merge_auth ls g) = g_Spread g" "g_SpreadLocal (merge_auth ls g) = g_SpreadLocal g" "g_Sticky (merge_auth ls g) = g_Sticky g"
  "g_CacheTTL (merge_auth ls g) = g_CacheTTL g" "g_CachePaths (merge_auth ls g) = g_CachePaths g"
  "g_AuthRequired (merge_auth ls g) = (g_AuthRequired g \<or> label ls labelAuth = ''true'')"
  "g_AuthMode (merge_auth ls g) = (if label ls labelAuthMode = ''oauth'' then ''oauth'' else g_AuthMode g)"
  "g_AuthUsers (merge_auth ls g) = (if g_AuthUsers g = [] then normalizeAuthUsers (split_on CHR '','' (label ls labelAuthUsers)) else g_AuthUsers g)"
  by (simp_all add: merge_auth_def Let_def split: option.split)

lemma merge_flags_simps [simp]:
  "g_Host (merge_flags ls g) = g_Host g" "g_PathPrefix (merge_flags ls g) = g_PathPrefix g" "g_StripPrefix (merge_flags ls g) = g_StripPrefix g"
  "g_Name (merge_flags ls g) = g_Name g" "g_Service (merge_flags ls g) = g_Service g" "g_Backends (merge_flags ls g) = g_Backends g"
  "g_static (merge_flags ls g) = g_static g" "g_AuthRequired (merge_flags ls g) = g_AuthRequired g" "g_AuthUsers (merge_flags ls g) = g_AuthUsers g"
  "g_AuthMode (merge_flags ls g) = g_AuthMode g" "g_RateRPM (merge_flags ls g) = g_RateRPM g" "g_CacheTTL (merge_flags ls g) = g_CacheTTL g"
  "g_CachePaths (merge_flags ls g) = g_CachePaths g"
  "g_RateLimit (merge_flags ls g) = (g_RateLimit g \<or> label ls labelRateLimit = ''true'')"
  "g_SpreadLocal (merge_flags ls g) = (g_SpreadLocal g \<or> label ls labelSpread = ''true'')"
  "g_Spread (merge_flags ls g) = (g_Spread g \<or> label ls labelSpread = ''true'')"
  "g_Sticky (merge_flags ls g) = (g_Sticky g \<or> label ls labelSticky = ''true'')"
  by (simp_all add: merge_flags_def Let_def split: option.split)

lemma merge_cache_simps [simp]:
  "g_Host (merge_cache ls g) = g_Host g" "g_PathPrefix (merge_cache ls g) = g_PathPrefix g" "g_StripPrefix (merge_cache ls g) = g_StripPrefix g"
  "g_Name (merge_cache ls g) = g_Name g" "g_Service (merge_cache ls g) = g_Service g" "g_Backends (merge_cache ls g) = g_Backends g"
  "g_static (merge_cache ls g) = g_static g" "g_AuthRequired (merge_cache ls g) = g_AuthRequired g" "g_AuthUsers (merge_cache ls g) = g_AuthUsers g"
  "g_AuthMode (merge_cache ls g) = g_AuthMode g" "g_RateLimit (merge_cache ls g) = g_RateLimit g" "g_RateRPM (merge_cache ls g) = g_RateRPM g"
  "g_Spread (merge_cache ls g) = g_Spread g" "g_SpreadLocal (merge_cache ls g) = g_SpreadLocal g" "g_Sticky (merge_cache ls g) = g_Sticky g"
  by (simp_all add: merge_cache_def Let_def split: option.split)

lemma merge_rpm_simps [simp]:
  "g_Host (merge_rpm ls g) = g_Host g" "g_PathPrefix (merge_rpm ls g) = g_PathPrefix g" "g_StripPrefix (merge_rpm ls g) = g_StripPrefix g"
  "g_Name (merge_rpm ls g) = g_Name g" "g_Service (merge_rpm ls g) = g_Service g" "g_Backends (merge_rpm ls g) = g_Backends g"
  "g_static (merge_rpm ls g) = g_static g" "g_AuthRequired (merge_rpm ls g) = g_AuthRequired g" "g_AuthUsers (merge_rpm ls g) = g_AuthUsers g"
  "g_AuthMode (merge_rpm ls g) = g_AuthMode g" "g_RateLimit (merge_rpm ls g) = g_RateLimit g" "g_Spread (merge_rpm ls g) = g_Spread g"
  "g_SpreadLocal (merge_rpm ls g) = g_SpreadLocal g" "g_Sticky (merge_rpm ls g) = g_Sticky g" "g_CacheTTL (merge_rpm ls g) = g_CacheTTL g"
  "g_CachePaths (merge_rpm ls g) = g_CachePaths g"
  by (simp_all add: merge_rpm_def Let_def split: option.split)

lemma merge_labels_frame [simp]:
  "g_Host (merge_labels ls g) = g_Host g" "g_PathPrefix (merge_labels ls g) = g_PathPrefix g" "g_static (merge_labels ls g) = g_static g"
  "g_Service (merge_labels ls g) = g_Service g" "g_Backends (merge_labels ls g) = g_Backends g"
  by (simp_all add: merge_labels_def)

lemma find_append: "find P (xs @ ys) = (case find P xs of None \<Rightarrow> find P ys | Some x \<Rightarrow> Some x)"
  by (induction xs) auto

lemma ParseCacheTTL_empty: "ParseCacheTTL [] = Some 0"
  by (simp add: ParseCacheTTL_def trim_space_def to_lower_def)

lemma merge_cache_TTL: "g_CacheTTL (merge_cache ls g) =
    (case ParseCacheTTL (label ls labelCache) of None \<Rightarrow> g_CacheTTL g | Some d \<Rightarrow> max (g_CacheTTL g) (if label ls labelCache = [] then g_CacheTTL g else d))"
  by (auto simp: merge_cache_def Let_def split: option.split)

lemma foldl_max_nonneg: "(0 :: int) \<le> a \<Longrightarrow> 0 \<le> foldl max a xs"
  by (induction xs arbitrary: a) auto

lemma merged_from_snoc:
  assumes "merged_from rs g"
  shows "merged_from (rs @ [c]) ((merge_labels (dc_Labels c) g)\<lparr>g_Backends := bs\<rparr>)"
proof -
  let ?ls = "dc_Labels c" and ?ttl = "\<lambda>c. ParseCacheTTL (label (dc_Labels c) labelCache)"
    and ?users = "\<lambda>c. normalizeAuthUsers (split_on CHR '','' (label (dc_Labels c) labelAuthUsers))"
  have 0: "List.map_filter ?ttl (rs @ [c]) = List.map_filter ?ttl rs @ List.map_filter ?ttl [c]" by (simp add: map_filter_def)
  have "0 \<le> foldl max 0 (List.map_filter ?ttl rs)" by (rule foldl_max_nonneg) simp
  then have "g_CacheTTL (merge_labels ?ls g) = foldl max 0 (List.map_filter ?ttl (rs @ [c]))"
    using assms ParseCacheTTL_empty unfolding 0 merge_labels_def
    by (auto simp: merge_cache_TTL merged_from_def map_filter_simps split: option.split)
  moreover have "g_AuthUsers (merge_labels ?ls g) = (case find (\<lambda>us. us \<noteq> []) (map ?users (rs @ [c])) of None \<Rightarrow> [] | Some us \<Rightarrow> us)"
  proof (cases "find (\<lambda>us. us \<noteq> []) (map ?users rs)")
    case None
    with assms show ?thesis by (simp add: merge_labels_def merged_from_def find_append)
  next
    case (Some us)
    then have "us \<noteq> []" by (auto simp: find_Some_iff)
    with Some assms show ?thesis by (simp add: merge_labels_def merged_from_def find_append)
  qed
  ultimately show ?thesis using assms by (simp add: merged_from_def any_true_def merge_labels_def disj_commute)
qed

lemma merged_from_new: "merged_from [] (label_group c host path)"
  by (simp add: merged_from_def label_group_def zeroGroup_def any_true_def map_filter_simps Let_def)

text \<open>The group a container belongs to, before it is merged in.\<close>

definition group_of :: "assembly \<Rightarrow> dockerContainer \<Rightarrow> RouteGroup" where
  "group_of st c = (case map_of (gs_groups st) (container_key c) of
     None \<Rightarrow> label_group c (label (dc_Labels c) labelHost) (label (dc_Labels c) labelPath) | Some g \<Rightarrow> g)"

lemma add_service_groups [simp]: "gs_groups (add_service s a st) = gs_groups st" "gs_heap (add_service s a st) = gs_heap st" "gs_next (add_service s a st) = gs_next st"
  by (simp_all add: add_service_def)

lemma add_container_skip: "container_port c = None \<Longrightarrow> add_container env sc st c = st"
  by (simp add: add_container_def)

lemma add_container_groups:
  assumes "container_port c = Some port"
  shows "\<exists>bs. gs_groups (add_container env sc st c) =
    (if g_static (group_of st c) then gs_groups st
     else AList.update (container_key c) ((merge_labels (dc_Labels c) (group_of st c))\<lparr>g_Backends := bs\<rparr>) (gs_groups st))"
proof (cases "container_backend env sc c (label (dc_Labels c) labelHost) port")
  case None
  have same: "g\<lparr>g_Backends := g_Backends g\<rparr> = g" for g :: RouteGroup by simp
  have "gs_groups (add_container env sc st c) = (if g_static (group_of st c) then gs_groups st
     else AList.update (container_key c) ((merge_labels (dc_Labels c) (group_of st c))\<lparr>g_Backends := g_Backends (merge_labels (dc_Labels c) (group_of st c))\<rparr>) (gs_groups st))"
    using None assms unfolding same by (simp add: add_container_def Let_def group_of_def put_group_def cong: if_cong)
  then show ?thesis by blast
next
  case (Some b)
  have "gs_groups (add_container env sc st c) = (if g_static (group_of st c) then gs_groups st
     else AList.update (container_key c) ((merge_labels (dc_Labels c) (group_of st c))\<lparr>g_Backends := g_Backends (group_of st c) @ [gs_next st]\<rparr>) (gs_groups st))"
    using Some assms by (simp add: add_container_def Let_def group_of_def put_group_def alloc_def cong: if_cong)
  then show ?thesis by blast
qed

text \<open>What holds of the groups after a prefix \<open>cs\<close> of the containers; \<open>sk\<close> are the keys of static routes.\<close>

definition groups_ok :: "string set \<Rightarrow> dockerContainer list \<Rightarrow> assembly \<Rightarrow> bool" where
  "groups_ok sk cs st \<longleftrightarrow> distinct (map fst (gs_groups st)) \<and>
     (\<forall>k g. map_of (gs_groups st) k = Some g \<longrightarrow>
        routeKey g = k \<and> (g_static g \<longleftrightarrow> k \<in> sk) \<and> (\<not> g_static g \<longrightarrow> merged_from (replicas cs k) g)) \<and>
     (\<forall>k\<in>sk. map_of (gs_groups st) k \<noteq> None) \<and>
     (\<forall>c\<in>set cs. container_port c \<noteq> None \<longrightarrow> map_of (gs_groups st) (container_key c) \<noteq> None)"

lemma replicas_snoc: "replicas (cs @ [c]) k = replicas cs k @ (if container_port c \<noteq> None \<and> container_key c = k then [c] else [])"
  by (simp add: replicas_def)

lemma groups_ok_add:
  assumes ok: "groups_ok sk cs st"
  shows "groups_ok sk (cs @ [c]) (add_container env sc st c)"
proof (cases "container_port c")
  case None
  then have "add_container env sc st c = st" "\<And>k. replicas (cs @ [c]) k = replicas cs k" by (simp_all add: add_container_skip replicas_snoc)
  with ok None show ?thesis unfolding groups_ok_def by auto
next
  case (Some port)
  let ?k = "container_key c" and ?g = "group_of st c" and ?st = "add_container env sc st c"
  have g: "routeKey ?g = ?k \<and> (g_static ?g \<longleftrightarrow> ?k \<in> sk) \<and> (\<not> g_static ?g \<longrightarrow> merged_from (replicas cs ?k) ?g)"
  proof (cases "map_of (gs_groups st) ?k")
    case None
    then have "replicas cs ?k = []" "?k \<notin> sk" using ok by (auto simp: groups_ok_def replicas_def filter_empty_conv)
    with None show ?thesis by (simp add: group_of_def merged_from_new)
      (simp add: label_group_def zeroGroup_def routeKey_def container_key_def group_key_def Let_def)
  next
    case (Some g)
    with ok show ?thesis by (auto simp: groups_ok_def group_of_def)
  qed
  obtain bs where n: "gs_groups ?st = (if g_static ?g then gs_groups st
     else AList.update ?k ((merge_labels (dc_Labels c) ?g)\<lparr>g_Backends := bs\<rparr>) (gs_groups st))"
    using add_container_groups [OF Some] by blast
  have other: "replicas (cs @ [c]) k = replicas cs k" if "k \<noteq> ?k" for k using that by (auto simp: replicas_snoc)
  show ?thesis
  proof (cases "g_static ?g")
    case True
    then have "?k \<in> sk" using g by simp
    then have ks: "map_of (gs_groups st) ?k \<noteq> None" "\<And>k g'. map_of (gs_groups st) k = Some g' \<Longrightarrow> \<not> g_static g' \<Longrightarrow> k \<noteq> ?k"
      using ok by (auto simp: groups_ok_def)
    have e: "gs_groups ?st = gs_groups st" using n True by simp
    have m: "merged_from (replicas (cs @ [c]) k) g'" if "map_of (gs_groups st) k = Some g'" "\<not> g_static g'" for k g'
    proof -
      have "k \<noteq> ?k" using ks(2) that by blast
      then show ?thesis using ok that other by (auto simp: groups_ok_def)
    qed
    have "\<forall>c'\<in>set (cs @ [c]). container_port c' \<noteq> None \<longrightarrow> map_of (gs_groups st) (container_key c') \<noteq> None"
      using ok ks(1) unfolding groups_ok_def by auto
    with ok m show ?thesis unfolding groups_ok_def e by blast
  next
    case False
    let ?g' = "(merge_labels (dc_Labels c) ?g)\<lparr>g_Backends := bs\<rparr>"
    have "merged_from (replicas (cs @ [c]) ?k) ?g'" using False g merged_from_snoc Some by (simp add: replicas_snoc)
    moreover have "routeKey ?g' = ?k" "\<not> g_static ?g'" using g False by (simp_all add: routeKey_def)
    moreover have "map_of (gs_groups ?st) k = (if k = ?k then Some ?g' else map_of (gs_groups st) k)" for k
      using False by (simp add: n update_conv')
    moreover have "distinct (map fst (gs_groups ?st))" using ok False by (simp add: n groups_ok_def distinct_update)
    ultimately show ?thesis using ok other False g unfolding groups_ok_def by auto
  qed
qed

lemma groups_ok_containers: "groups_ok sk [] st \<Longrightarrow> groups_ok sk cs (foldl (add_container env sc) st cs)"
  by (induction cs rule: rev_induct) (simp_all add: groups_ok_add)

definition static_keys :: "staticRoute list \<Rightarrow> string set" where
  "static_keys routes = (\<lambda>sr. group_key (sr_Host sr) (sr_Path sr)) ` set routes"

lemma map_of_map_entry': "map_of (AList.map_entry k f xs) k' = (if k' = k then map_option f (map_of xs k') else map_of xs k')"
  by (induction xs) auto

lemma keys_map_entry: "map fst (AList.map_entry k f xs) = map fst xs"
  by (induction xs) auto

text \<open>All groups are static, with the keys \<open>sk\<close>.\<close>

definition static_ok :: "string set \<Rightarrow> assembly \<Rightarrow> bool" where
  "static_ok sk st \<longleftrightarrow> distinct (map fst (gs_groups st)) \<and> (\<forall>k g. map_of (gs_groups st) k = Some g \<longrightarrow> routeKey g = k \<and> g_static g) \<and>
     (\<forall>k. map_of (gs_groups st) k \<noteq> None \<longleftrightarrow> k \<in> sk)"

lemma static_ok_backend: "static_ok sk st \<Longrightarrow> static_ok sk (add_static_backend env sr st raw)"
  unfolding static_ok_def by (auto simp: add_static_backend_def alloc_def Let_def keys_map_entry map_of_map_entry' routeKey_def simp del: map_of_eq_Some_iff split: if_splits)

lemma static_ok_add:
  assumes "static_ok sk st"
  shows "static_ok (insert (group_key (sr_Host sr) (sr_Path sr)) sk) (add_static env st sr)"
proof -
  let ?k = "group_key (sr_Host sr) (sr_Path sr)"
  let ?st1 = "if map_of (gs_groups st) ?k = None then put_group ?k (static_group sr) st else st"
  have "routeKey (static_group sr) = ?k" "g_static (static_group sr)"
    by (simp_all add: static_group_def zeroGroup_def routeKey_def group_key_def)
  then have "static_ok (insert ?k sk) ?st1" using assms unfolding static_ok_def
    by (auto simp: put_group_def update_conv' distinct_update simp del: map_of_eq_Some_iff)
  then have "static_ok (insert ?k sk) (foldl (add_static_backend env sr) ?st1 raws)" for raws
    by (induction raws rule: rev_induct) (simp_all add: static_ok_backend)
  then show ?thesis by (simp add: add_static_def Let_def)
qed

lemma static_ok_routes: "static_ok (static_keys routes) (foldl (add_static env) \<lparr>gs_heap = h, gs_next = a, gs_groups = [], gs_services = []\<rparr> routes)"
proof (induction routes rule: rev_induct)
  case Nil
  show ?case by (simp add: static_keys_def static_ok_def)
next
  case (snoc sr routes)
  have "static_keys (routes @ [sr]) = insert (group_key (sr_Host sr) (sr_Path sr)) (static_keys routes)" by (auto simp: static_keys_def)
  with static_ok_add [OF snoc.IH] show ?case by simp
qed

lemma static_groups_ok:
  assumes "static_ok sk st"
  shows "groups_ok sk [] st"
proof -
  have "k \<in> sk" if "map_of (gs_groups st) k = Some g" for k g
    using assms that unfolding static_ok_def by (metis option.distinct(1))
  with assms show ?thesis unfolding static_ok_def groups_ok_def by (simp del: map_of_eq_Some_iff)
qed

lemma assembled_ok: "groups_ok (static_keys routes) cs (assembled env routes cs h a)"
proof -
  have "groups_ok (static_keys routes) [] (foldl (add_static env) \<lparr>gs_heap = h, gs_next = a, gs_groups = [], gs_services = []\<rparr> routes)"
    by (rule static_groups_ok) (rule static_ok_routes)
  then show ?thesis unfolding assembled_def by (rule groups_ok_containers)
qed

lemma finish_group_frame [simp]:
  "g_Host (finish_group sc st g) = g_Host g" "g_PathPrefix (finish_group sc st g) = g_PathPrefix g" "g_static (finish_group sc st g) = g_static g"
  "g_AuthRequired (finish_group sc st g) = g_AuthRequired g" "g_AuthMode (finish_group sc st g) = g_AuthMode g" "g_AuthUsers (finish_group sc st g) = g_AuthUsers g"
  "g_RateLimit (finish_group sc st g) = g_RateLimit g" "g_Spread (finish_group sc st g) = g_Spread g" "g_SpreadLocal (finish_group sc st g) = g_SpreadLocal g"
  "g_Sticky (finish_group sc st g) = g_Sticky g" "g_CacheTTL (finish_group sc st g) = g_CacheTTL g"
  by (simp_all add: finish_group_def Let_def split: option.split)

lemma finish_group_rpm: "g_RateLimit g \<Longrightarrow> 0 < g_RateRPM (finish_group sc st g)"
  by (simp add: finish_group_def Let_def defaultRateRPM_def split: option.split)

lemma finish_group_sorted: "sorted (map (\<lambda>a. b_URL (gs_heap st a)) (g_Backends (finish_group sc st g)))"
  by (simp add: finish_group_def Let_def split: option.split)

lemma routes_merged:
  assumes "assembleGroupsWithOverlay env config (Some cs) ov h a = Some (st, gs)"
  shows "distinct (map routeKey gs) \<and>
    (\<forall>g\<in>set gs. \<not> g_static g \<longrightarrow> merged_from (replicas (applyLabelOverlay cs ov) (routeKey g)) g) \<and>
    (\<forall>c\<in>set (applyLabelOverlay cs ov). container_port c \<noteq> None \<longrightarrow> (\<exists>g\<in>set gs. routeKey g = container_key c)) \<and>
    (\<forall>g\<in>set gs. (g_RateLimit g \<longrightarrow> 0 < g_RateRPM g) \<and> sorted (map (\<lambda>a. b_URL (gs_heap st a)) (g_Backends g)))"
proof -
  let ?cs = "applyLabelOverlay cs ov"
  obtain routes where st: "st = assembled env routes ?cs h a" and gs: "gs = map (finish_group (abScan ?cs (ge_now env)) st) (map snd (gs_groups st))"
    using assms by (auto simp: assembleGroupsWithOverlay_def Let_def split: config_file.splits)
  note ok = assembled_ok [of routes ?cs env h a, folded st]
  then have d: "distinct (map fst (gs_groups st))" by (simp add: groups_ok_def)
  then have m: "map_of (gs_groups st) k = Some g \<longleftrightarrow> (k, g) \<in> set (gs_groups st)" for k g by (metis map_of_eq_Some_iff)
  have key: "routeKey (finish_group sc st g) = routeKey g" for sc g by (simp add: routeKey_def)
  have mf: "merged_from rs (finish_group sc st g) = merged_from rs g" for rs sc g by (simp add: merged_from_def)
  have "map (routeKey \<circ> snd) (gs_groups st) = map fst (gs_groups st)"
    using ok m unfolding groups_ok_def by (intro map_cong) auto
  moreover have "map routeKey gs = map (routeKey \<circ> snd) (gs_groups st)" by (simp add: gs key comp_def)
  ultimately have "distinct (map routeKey gs)" using d by (simp only:)
  moreover have "merged_from (replicas ?cs (routeKey g)) g" if g: "g \<in> set gs" and ns: "\<not> g_static g" for g
  proof -
    obtain k g0 where g0: "(k, g0) \<in> set (gs_groups st)" "g = finish_group (abScan ?cs (ge_now env)) st g0" using g unfolding gs by auto
    then have "map_of (gs_groups st) k = Some g0" using m by blast
    then have "routeKey g0 = k \<and> (\<not> g_static g0 \<longrightarrow> merged_from (replicas ?cs k) g0)" using ok unfolding groups_ok_def by blast
    with ns g0(2) show ?thesis by (simp add: key mf)
  qed
  moreover have "\<exists>g\<in>set gs. routeKey g = container_key c" if c: "c \<in> set ?cs" "container_port c \<noteq> None" for c
  proof -
    obtain g where "map_of (gs_groups st) (container_key c) = Some g" using ok c unfolding groups_ok_def by blast
    moreover from this have "routeKey g = container_key c" using ok unfolding groups_ok_def by blast
    ultimately have "finish_group (abScan ?cs (ge_now env)) st g \<in> set gs" "routeKey (finish_group (abScan ?cs (ge_now env)) st g) = container_key c"
      using m unfolding gs by (force, simp add: key)
    then show ?thesis by blast
  qed
  ultimately show ?thesis using finish_group_rpm finish_group_sorted by (auto simp: gs)
qed

text \<open>
  (C11) The routes are what the labels of all replicas say. After every assembly the routes have distinct host and path, a route that is not static has its authentication, mode,
  allowlist, rate limit, spread, stickiness and cache time as functions of the labels of all containers of its host and path, running or not (any replica that
  asks for authentication protects the route, the allowlist is the first that is not empty, the longest cache time wins), every container with a host and a
  port has a route, even when it is stopped, a limited route has a positive rate, and the backends are in the order of their addresses.
\<close>

theorem routes_merge_replicas:
  assumes "assembleGroupsWithOverlay env config (Some cs) ov h a = Some (st, gs)"
  shows "distinct (map routeKey gs) \<and>
    (\<forall>g\<in>set gs. \<not> g_static g \<longrightarrow> merged_from (replicas (applyLabelOverlay cs ov) (routeKey g)) g) \<and>
    (\<forall>c\<in>set (applyLabelOverlay cs ov). container_port c \<noteq> None \<longrightarrow> (\<exists>g\<in>set gs. routeKey g = container_key c)) \<and>
    (\<forall>g\<in>set gs. (g_RateLimit g \<longrightarrow> 0 < g_RateRPM g) \<and> sorted (map (\<lambda>a. b_URL (gs_heap st a)) (g_Backends g)))"
  using assms by (rule routes_merged)

definition ex_labelled :: "string \<Rightarrow> label_map \<Rightarrow> dockerContainer" where
  "ex_labelled n ls = \<lparr>dc_ID = n, dc_Names = [n], dc_State = ''running'', dc_Status = [],
     dc_Labels = [(labelHost, ''h''), (labelPort, ''80'')] @ ls, dc_Networks = [(''edge'', ''10.0.0.2'')]\<rparr>"

definition ex_assemble_env :: assemble_env where
  "ex_assemble_env = \<lparr>ge_sha = (\<lambda>s. s), ge_parses = (\<lambda>s. True), ge_now = 0\<rparr>"

lemma assemble_total: "\<exists>st gs. assembleGroupsWithOverlay env NoConfig (Some cs) ov h a = Some (st, gs)"
  by (simp add: assembleGroupsWithOverlay_def Let_def)

lemma no_static_without_config:
  assumes "assembleGroupsWithOverlay env NoConfig (Some cs) ov h a = Some (st, gs)" "g \<in> set gs"
  shows "\<not> g_static g"
proof -
  let ?cs = "applyLabelOverlay cs ov"
  have st: "st = assembled env [] ?cs h a" and gs: "gs = map (finish_group (abScan ?cs (ge_now env)) st) (map snd (gs_groups st))"
    using assms(1) by (auto simp: assembleGroupsWithOverlay_def Let_def)
  obtain k g0 where g0: "(k, g0) \<in> set (gs_groups st)" "g = finish_group (abScan ?cs (ge_now env)) st g0" using assms(2) unfolding gs by auto
  note ok = assembled_ok [of "[]" ?cs env h a, folded st]
  then have "map_of (gs_groups st) k = Some g0" using g0(1) by (simp add: groups_ok_def)
  with ok g0(2) show ?thesis by (auto simp: groups_ok_def static_keys_def)
qed

theorem routes_merge_replicas_witness:
  "\<exists>st gs g. assembleGroupsWithOverlay ex_assemble_env NoConfig (Some [ex_labelled ''a'' [], ex_labelled ''b'' [(labelAuth, ''true'')]]) None (\<lambda>a. zeroBackend) 0 =
     Some (st, gs) \<and> g \<in> set gs \<and> routeKey g = ''h|'' \<and> g_AuthRequired g"
proof -
  let ?cs = "[ex_labelled ''a'' [], ex_labelled ''b'' [(labelAuth, ''true'')]]"
  obtain st gs where a: "assembleGroupsWithOverlay ex_assemble_env NoConfig (Some ?cs) None (\<lambda>a. zeroBackend) 0 = Some (st, gs)"
    using assemble_total by blast
  have o: "applyLabelOverlay ?cs None = ?cs" by (simp add: applyLabelOverlay_def)
  have k: "container_port (ex_labelled ''a'' []) \<noteq> None" "container_key (ex_labelled ''a'' []) = ''h|''" "any_true labelAuth (replicas ?cs ''h|'')"
    by code_simp+
  note r = routes_merge_replicas [OF a, unfolded o]
  then obtain g where g: "g \<in> set gs" "routeKey g = ''h|''" using k(1,2) by (metis list.set_intros(1))
  then have "merged_from (replicas ?cs ''h|'') g" using r no_static_without_config [OF a] by metis
  with k(3) g a show ?thesis by (auto simp: merged_from_def)
qed

subsection \<open>A replica that asks for authentication protects its route\<close>

lemma overlay_container_only: "container_only k \<Longrightarrow> label (dc_Labels (overlay_container o1 c)) k = label (dc_Labels c) k"
  using container_only_not_managed by (simp add: label_def overlay_container_lookup split: option.split)

lemma container_only_identity: "container_only labelHost" "container_only labelPort" "container_only labelPath" "container_only labelAuth"
  by (simp_all add: container_only_def)

lemma overlay_identity:
  "container_port (overlay_container o1 c) = container_port c" "container_key (overlay_container o1 c) = container_key c"
  using overlay_container_only container_only_identity by (simp_all add: container_port_def container_key_def)

text \<open>
  (C12) Protection cannot be lost. If any container of a route, running or stopped, carries \<^verbatim>\<open>proxy.auth=true\<close> itself, then in every table assembled from the
  containers, whatever their order, the labels of the other replicas and the central labels in Redis, its route exists and requires authentication, unless
  \<^verbatim>\<open>routes.json\<close> owns the route.
\<close>

theorem auth_label_protects:
  assumes "assembleGroupsWithOverlay env config (Some cs) ov h a = Some (st, gs)" and "c \<in> set cs"
    and "container_port c \<noteq> None" and "label (dc_Labels c) labelAuth = ''true''"
  shows "\<exists>g\<in>set gs. routeKey g = container_key c \<and> (g_static g \<or> g_AuthRequired g)"
proof -
  let ?c = "case ov of None \<Rightarrow> c | Some o1 \<Rightarrow> overlay_container o1 c" and ?cs = "applyLabelOverlay cs ov"
  have c: "?c \<in> set ?cs" using assms(2) by (auto simp: applyLabelOverlay_map)
  have same: "container_port ?c = container_port c" "container_key ?c = container_key c" "label (dc_Labels ?c) labelAuth = ''true''"
    using assms(4) overlay_container_only [OF container_only_identity(4)] by (simp_all add: overlay_identity split: option.split)
  then obtain g where g: "g \<in> set gs" "routeKey g = container_key c" using routes_merged [OF assms(1)] c assms(3) by metis
  have "?c \<in> set (replicas ?cs (routeKey g))" using c same assms(3) g(2) by (simp add: replicas_def)
  then have "any_true labelAuth (replicas ?cs (routeKey g))" using same(3) by (auto simp: any_true_def list_ex_iff)
  with routes_merged [OF assms(1)] g show ?thesis unfolding merged_from_def by metis
qed

theorem auth_label_protects_witness:
  "let ov = \<lparr>ov_Version = 1, ov_Source = SourceRedis, ov_LoadedAt = 0, ov_Services = [(''web'', [(labelAuth, ''false'')])]\<rparr>;
       cs = [ex_labelled ''a'' [(labelService, ''web'')], ex_labelled ''b'' [(labelService, ''web''), (labelAuth, ''true'')]]
   in \<exists>st gs. assembleGroupsWithOverlay ex_assemble_env NoConfig (Some cs) (Some ov) (\<lambda>a. zeroBackend) 0 = Some (st, gs) \<and>
        (\<exists>g\<in>set gs. routeKey g = ''h|'' \<and> g_AuthRequired g)"
proof -
  let ?ov = "\<lparr>ov_Version = 1, ov_Source = SourceRedis, ov_LoadedAt = 0, ov_Services = [(''web'', [(labelAuth, ''false'')])]\<rparr>"
  let ?c = "ex_labelled ''b'' [(labelService, ''web''), (labelAuth, ''true'')]"
  let ?cs = "[ex_labelled ''a'' [(labelService, ''web'')], ?c]"
  obtain st gs where a: "assembleGroupsWithOverlay ex_assemble_env NoConfig (Some ?cs) (Some ?ov) (\<lambda>a. zeroBackend) 0 = Some (st, gs)"
    using assemble_total by blast
  have "container_port ?c \<noteq> None" "container_key ?c = ''h|''" "label (dc_Labels ?c) labelAuth = ''true''" by code_simp+
  with auth_label_protects [OF a, of ?c] no_static_without_config [OF a] a show ?thesis by (auto simp: Let_def)
qed

subsection \<open>Where the backends of a route come from\<close>

text \<open>
  \<open>backends_ok a Q\<close>: everything allocated since \<open>a\<close> satisfies \<open>Q\<close>, and groups and services refer to nothing else; the heap below is as it was.
\<close>

definition backends_ok :: "bheap \<Rightarrow> baddr \<Rightarrow> (Backend \<Rightarrow> bool) \<Rightarrow> assembly \<Rightarrow> bool" where
  "backends_ok h a Q st \<longleftrightarrow> a \<le> gs_next st \<and> (\<forall>x<a. gs_heap st x = h x) \<and> (\<forall>x. a \<le> x \<and> x < gs_next st \<longrightarrow> Q (gs_heap st x)) \<and>
     (\<forall>g\<in>snd ` set (gs_groups st). set (g_Backends g) \<subseteq> {a..<gs_next st}) \<and>
     (\<forall>bs\<in>snd ` set (gs_services st). set bs \<subseteq> {a..<gs_next st})"

lemma backends_ok_alloc: "backends_ok h a Q st \<Longrightarrow> Q b \<Longrightarrow> alloc b st = (st', x) \<Longrightarrow>
    backends_ok h a Q st' \<and> x \<in> {a..<gs_next st'} \<and> gs_groups st' = gs_groups st \<and> gs_services st' = gs_services st"
  unfolding backends_ok_def alloc_def by (auto simp: less_Suc_eq) (fastforce simp: less_Suc_eq)+

lemma snd_update: "snd ` set (AList.update k v xs) \<subseteq> insert v (snd ` set xs)"
  by (induction xs) auto

lemma ball_update: "\<forall>w\<in>snd ` set xs. P w \<Longrightarrow> P v \<Longrightarrow> \<forall>w\<in>snd ` set (AList.update k v xs). P w"
  using snd_update [of k v xs] by blast

lemma backends_ok_put:
  assumes "backends_ok h a Q st" "set (g_Backends g) \<subseteq> {a..<gs_next st}"
  shows "backends_ok h a Q (put_group k g st)"
proof -
  have "\<forall>g'\<in>snd ` set (AList.update k g (gs_groups st)). set (g_Backends g') \<subseteq> {a..<gs_next st}"
    using snd_update [of k g "gs_groups st"] assms unfolding backends_ok_def by blast
  with assms(1) show ?thesis by (simp add: backends_ok_def put_group_def)
qed

lemma backends_ok_service:
  assumes "backends_ok h a Q st" "x \<in> {a..<gs_next st}"
  shows "backends_ok h a Q (add_service s x st)"
proof -
  let ?old = "case map_of (gs_services st) s of None \<Rightarrow> [] | Some bs \<Rightarrow> bs"
  have "set ?old \<subseteq> {a..<gs_next st}"
  proof (cases "map_of (gs_services st) s")
    case (Some bs)
    then have "bs \<in> snd ` set (gs_services st)" by (force dest: map_of_SomeD)
    then have "set bs \<subseteq> {a..<gs_next st}" using assms(1) unfolding backends_ok_def by blast
    with Some show ?thesis by simp
  qed simp
  then have "set (?old @ [x]) \<subseteq> {a..<gs_next st}" using assms(2) by simp
  moreover have "\<forall>bs\<in>snd ` set (gs_services st). set bs \<subseteq> {a..<gs_next st}" using assms(1) unfolding backends_ok_def by blast
  ultimately have "\<forall>bs\<in>snd ` set (AList.update s (?old @ [x]) (gs_services st)). set bs \<subseteq> {a..<gs_next st}" by (intro ball_update)
  with assms(1) show ?thesis unfolding backends_ok_def add_service_def by simp
qed

lemma backends_ok_group: "backends_ok h a Q st \<Longrightarrow> map_of (gs_groups st) k = Some g \<Longrightarrow> set (g_Backends g) \<subseteq> {a..<gs_next st}"
  unfolding backends_ok_def by (force dest: map_of_SomeD)

lemma set_map_entry: "set (AList.map_entry k f xs) \<subseteq> set xs \<union> {(k, f v) | v. (k, v) \<in> set xs}"
  by (induction xs) auto

lemma backends_ok_static_backend:
  assumes "backends_ok h a Q st" "\<And>raw. Q (makeBackend (ge_sha env) raw 1 ''static'' (sr_Health sr) (sr_Host sr))"
  shows "backends_ok h a Q (add_static_backend env sr st raw)"
proof (cases "ge_parses env raw")
  case True
  let ?k = "group_key (sr_Host sr) (sr_Path sr)"
  obtain st1 x where al: "alloc (makeBackend (ge_sha env) raw 1 ''static'' (sr_Health sr) (sr_Host sr)) st = (st1, x)" by (rule prod.exhaust)
  note o = backends_ok_alloc [OF assms(1) assms(2) al]
  have "set (g_Backends g) \<subseteq> {a..<gs_next st1}" if g: "g \<in> snd ` set (AList.map_entry ?k (\<lambda>g. g\<lparr>g_Backends := g_Backends g @ [x]\<rparr>) (gs_groups st1))" for g
  proof -
    obtain k where "(k, g) \<in> set (AList.map_entry ?k (\<lambda>g. g\<lparr>g_Backends := g_Backends g @ [x]\<rparr>) (gs_groups st1))" using g by auto
    then have "(k, g) \<in> set (gs_groups st1) \<or> (\<exists>v. (k, v) \<in> set (gs_groups st1) \<and> g = v\<lparr>g_Backends := g_Backends v @ [x]\<rparr>)"
      using set_map_entry [of ?k "\<lambda>g. g\<lparr>g_Backends := g_Backends g @ [x]\<rparr>" "gs_groups st1"] by auto
    then show ?thesis using o unfolding backends_ok_def by (auto; force)
  qed
  with o True show ?thesis unfolding add_static_backend_def by (simp add: al Let_def backends_ok_def)
qed (use assms in \<open>simp add: add_static_backend_def\<close>)

lemma backends_ok_static:
  assumes "backends_ok h a Q st" "\<And>raw. Q (makeBackend (ge_sha env) raw 1 ''static'' (sr_Health sr) (sr_Host sr))"
  shows "backends_ok h a Q (add_static env st sr)"
proof -
  have "backends_ok h a Q (foldl (add_static_backend env sr) st1 raws)" if "backends_ok h a Q st1" for st1 raws
    using that by (induction raws rule: rev_induct) (simp_all add: backends_ok_static_backend assms(2))
  moreover have "backends_ok h a Q (put_group k (static_group sr) st)" for k
    using assms(1) by (rule backends_ok_put) (simp add: static_group_def zeroGroup_def)
  ultimately show ?thesis using assms(1) by (simp add: add_static_def Let_def)
qed

lemma backends_ok_container:
  assumes ok: "backends_ok h a Q st" and q: "\<And>port b. container_port c = Some port \<Longrightarrow> container_backend env sc c (label (dc_Labels c) labelHost) port = Some b \<Longrightarrow> Q b"
  shows "backends_ok h a Q (add_container env sc st c)"
proof (cases "container_port c")
  case None
  with ok show ?thesis by (simp add: add_container_skip)
next
  case (Some port)
  let ?b = "container_backend env sc c (label (dc_Labels c) labelHost) port"
  have old: "set (g_Backends (group_of st' c)) \<subseteq> {a..<gs_next st'}" if "backends_ok h a Q st'" for st'
  proof (cases "map_of (gs_groups st') (container_key c)")
    case None
    then show ?thesis by (simp add: group_of_def label_group_def zeroGroup_def Let_def)
  next
    case (Some g)
    with backends_ok_group [OF that Some] show ?thesis by (simp add: group_of_def)
  qed
  show ?thesis
  proof (cases ?b)
    case None
    have "add_container env sc st c = (if g_static (group_of st c) then st else put_group (container_key c) (merge_labels (dc_Labels c) (group_of st c)) st)"
      using Some None by (simp add: add_container_def Let_def group_of_def cong: if_cong)
    then show ?thesis using ok backends_ok_put [OF ok] old [OF ok] by simp
  next
    case b: (Some b)
    obtain st1 x where al: "alloc b st = (st1, x)" by (rule prod.exhaust)
    note o = backends_ok_alloc [OF ok q [OF Some b] al]
    define st2 where "st2 = (if label (dc_Labels c) labelService \<noteq> [] \<and> label (dc_Labels c) labelCanary \<noteq> ''true''
        then add_service (label (dc_Labels c) labelService) x st1 else st1)"
    have s2: "backends_ok h a Q st2" "gs_next st2 = gs_next st1" "gs_groups st2 = gs_groups st1" using o backends_ok_service by (auto simp: st2_def)
    have "add_container env sc st c = (if g_static (group_of st2 c) then st2
        else put_group (container_key c) ((merge_labels (dc_Labels c) (group_of st2 c))\<lparr>g_Backends := g_Backends (group_of st2 c) @ [x]\<rparr>) st2)"
      using Some b by (simp add: add_container_def Let_def group_of_def al st2_def cong: if_cong)
    then show ?thesis using s2(1) backends_ok_put [OF s2(1)] old [OF s2(1)] o s2(2) by simp
  qed
qed

text \<open>A backend as a configured address or a container yields it.\<close>

definition from_config :: "staticRoute list \<Rightarrow> Backend \<Rightarrow> bool" where
  "from_config routes b \<longleftrightarrow> b_Container b = ''static'' \<and> b_Variant b = [] \<and> \<not> b_Learned b \<and> (\<exists>sr\<in>set routes. b_proxy b = Some (LocalDirector (sr_Host sr)))"

definition from_container :: "abScanResult \<Rightarrow> dockerContainer list \<Rightarrow> Backend \<Rightarrow> bool" where
  "from_container sc cs b \<longleftrightarrow> \<not> b_Learned b \<and>
     (\<exists>c\<in>set cs. dc_State c = ''running'' \<and> container_ip c \<noteq> [] \<and> container_port c \<noteq> None \<and> b_ContainerID b = dc_ID c \<and> b_Container b = container_name c \<and>
        container_name c \<notin> set (as_excluded sc) \<and> b_DockerUnhealthy b = dockerUnhealthy (dc_Status c) \<and> 0 < b_Weight b \<and>
        b_proxy b = Some (LocalDirector (label (dc_Labels c) labelHost)) \<and>
        b_Variant b = (if container_name c \<in> set (as_bNames sc) then abVariantB else []))"

lemma container_backend_from:
  assumes "container_backend env sc c (label (dc_Labels c) labelHost) port = Some b" "container_port c = Some port" "c \<in> set cs"
  shows "from_container sc cs b"
  using assms unfolding from_container_def
  by (intro conjI bexI [of _ c])
    (auto simp: container_backend_def Let_def makeBackend_def zeroBackend_def split: if_splits option.splits)

lemma assembled_backends:
  "backends_ok h a (\<lambda>b. from_config routes b \<or> from_container (abScan cs (ge_now env)) cs b) (assembled env routes cs h a)"
proof -
  let ?Q = "\<lambda>b. from_config routes b \<or> from_container (abScan cs (ge_now env)) cs b"
  have "backends_ok h a ?Q (foldl (add_static env) \<lparr>gs_heap = h, gs_next = a, gs_groups = [], gs_services = []\<rparr> rs)" if "set rs \<subseteq> set routes" for rs
    using that
  proof (induction rs rule: rev_induct)
    case Nil
    show ?case unfolding backends_ok_def by auto
  next
    case (snoc sr rs)
    then have "sr \<in> set routes" by simp
    then have "from_config routes (makeBackend (ge_sha env) raw 1 ''static'' (sr_Health sr) (sr_Host sr))" for raw
      by (auto simp: from_config_def makeBackend_def zeroBackend_def)
    with snoc show ?case by (simp add: backends_ok_static)
  qed
  then have start: "backends_ok h a ?Q (foldl (add_static env) \<lparr>gs_heap = h, gs_next = a, gs_groups = [], gs_services = []\<rparr> routes)" by simp
  have "backends_ok h a ?Q (foldl (add_container env (abScan cs (ge_now env))) st0 ds)" if "set ds \<subseteq> set cs" "backends_ok h a ?Q st0" for ds st0
    using that
  proof (induction ds rule: rev_induct)
    case (snoc c ds)
    then have "c \<in> set cs" "backends_ok h a ?Q (foldl (add_container env (abScan cs (ge_now env))) st0 ds)" by simp_all
    then show ?case by (simp, intro backends_ok_container) (use container_backend_from in blast)+
  qed simp
  from this [OF subset_refl start] show ?thesis unfolding assembled_def .
qed

lemma finish_group_backends:
  assumes "backends_ok h a Q st" "g \<in> snd ` set (gs_groups st)"
  shows "set (g_Backends (finish_group sc st g)) \<subseteq> {a..<gs_next st}"
proof -
  let ?bs = "case map_of (gs_services st) (g_Service g) of None \<Rightarrow> [] | Some bs \<Rightarrow> bs"
  have "set ?bs \<subseteq> {a..<gs_next st}"
  proof (cases "map_of (gs_services st) (g_Service g)")
    case (Some bs)
    then have "bs \<in> snd ` set (gs_services st)" by (force dest: map_of_SomeD)
    then have "set bs \<subseteq> {a..<gs_next st}" using assms(1) unfolding backends_ok_def by blast
    with Some show ?thesis by simp
  qed simp
  moreover have "set (g_Backends g) \<subseteq> {a..<gs_next st}" using assms unfolding backends_ok_def by blast
  moreover have "set (g_Backends (finish_group sc st g)) \<subseteq> set (g_Backends g) \<union> set ?bs"
    by (auto simp: finish_group_def Let_def split: option.splits if_splits)
  ultimately show ?thesis by blast
qed


definition ex_static :: staticRoute where
  "ex_static = \<lparr>sr_Host = ''h'', sr_Path = ''/'', sr_Strip = False, sr_Name = ''app'', sr_Backends = [''http://10.0.0.3:80''], sr_Service = [],
     sr_Health = [], sr_Auth = False, sr_AuthUsers = [], sr_AuthMode = [], sr_RateLimit = False, sr_RateRPM = 0, sr_DropHeaders = [],
     sr_Sticky = False, sr_Cache = [], sr_CachePaths = []\<rparr>"

lemma ex_static_backends:
  "assembleGroupsWithOverlay ex_assemble_env (Config [ex_static]) (Some []) None h 5 = Some (st, gs) \<Longrightarrow> map g_Backends gs = [[5]]"
  by (auto simp: assembleGroupsWithOverlay_def assembled_def add_static_def add_static_backend_def put_group_def alloc_def ex_static_def
      ex_assemble_env_def finish_group_def Let_def static_group_def zeroGroup_def applyLabelOverlay_def split: option.split)


end
