(* ===== verification/PeerWire.thy ===== *)
theory PeerWire
  imports ABRun
begin

section \<open>A/B experiments on the wire between proxies (\<^verbatim>\<open>cmd/proxy/abmesh.go\<close>)\<close>

text \<open>
  What a proxy tells its peers about its A/B tests, and the validation of what it is told: every field of an advertised experiment is checked
  again, an experiment out of bounds is dropped whole, and one bad experiment does not cost a peer its routes.
  JSON itself is a parameter: an entry of the list that does not decode is \<open>None\<close>.
\<close>

subsection \<open>Wire format\<close>

definition abMaxPeerExperiments :: nat where "abMaxPeerExperiments = 64"
definition abMaxPeerCount :: nat where "abMaxPeerCount = 2 ^ 40"
definition abMaxPeerConfigEntries :: nat where "abMaxPeerConfigEntries = 64"
definition abMaxPeerValueLen :: nat where "abMaxPeerValueLen = 8448"
definition abMaxPeerServiceLen :: nat where "abMaxPeerServiceLen = 128"
definition abMaxPeerDetailLen :: nat where "abMaxPeerDetailLen = 256"
definition abMaxPeerBBackends :: int where "abMaxPeerBBackends = 10000"

record abCountersWire =
  cw_Requests :: "64 word"
  cw_Err5xx :: "64 word"
  cw_Transport :: "64 word"
  cw_Failover :: "64 word"
  cw_Hist :: "64 word list"

record abWindowWire =
  ww_Index :: int
  ww_V :: "abCountersWire \<times> abCountersWire"

record peerABInfo =
  pe_Service :: string
  pe_ID :: string
  pe_Config :: label_map
  pe_Phase :: string
  pe_PhaseAt :: int
  pe_Abort :: "abAbortInfo option"
  pe_BBackends :: int
  pe_Pinned :: "abPinnedReport \<times> abPinnedReport"
  pe_Cumulative :: "abCountersWire \<times> abCountersWire"
  pe_Windows :: "abWindowWire list"

text \<open>The list as decoded: \<open>None\<close> if it is not a list, and for each entry whether it decodes.\<close>

definition decode_experiments :: "peerABInfo option list option \<Rightarrow> peerABInfo list" where
  "decode_experiments raws =
     (case raws of
        None \<Rightarrow> []
      | Some rs \<Rightarrow> if abMaxPeerExperiments < length rs then [] else List.map_filter (\<lambda>r. r) rs)"

definition abCountersToWire :: "abCounters \<Rightarrow> abCountersWire" where
  "abCountersToWire c = \<lparr>cw_Requests = c_Requests c, cw_Err5xx = c_Err5xx c, cw_Transport = c_Transport c, cw_Failover = c_Failover c, cw_Hist = c_Hist c\<rparr>"

definition abCountersFromWire :: "abCountersWire \<Rightarrow> abCounters option" where
  "abCountersFromWire w =
     (if length (cw_Hist w) \<noteq> abHistBuckets then None
      else if list_ex (\<lambda>n. abMaxPeerCount < unat n) [cw_Requests w, cw_Err5xx w, cw_Transport w, cw_Failover w] then None
      else if cw_Requests w < cw_Err5xx w then None
      else if list_ex (\<lambda>n. abMaxPeerCount < unat n) (cw_Hist w) then None
      else if cw_Requests w < sum_list (cw_Hist w) then None
      else Some \<lparr>c_Requests = cw_Requests w, c_Err5xx = cw_Err5xx w, c_Transport = cw_Transport w, c_Failover = cw_Failover w, c_Hist = cw_Hist w\<rparr>)"

definition abConfigLabelKeys :: "string list" where
  "abConfigLabelKeys =
     map fst (ab_labels (\<lambda>_. []) ((fst (parseABConfig [(labelABID, ''abcd'')] 0))\<lparr>ab_Started := 1, ab_Epoch := 1, ab_PhaseAt := 1\<rparr>))"

text \<open>What \<^verbatim>\<open>merge\<close> compares; \<open>fmt\<close> renders a float as \<^verbatim>\<open>strconv.FormatFloat\<close> does.\<close>

definition fingerprint :: "(rat \<Rightarrow> string) \<Rightarrow> abPeerExp \<Rightarrow> string" where
  "fingerprint fmt e =
     (let labels = ab_labels fmt (x_cfg e)
      in x_id e @ ''|'' @ x_phase e @ ''|'' @ format_bool (x_latched e) @ '' '' @ format_bool (0 < x_bBackends e) @
         concat (map (\<lambda>k. ''|'' @ k @ ''='' @ label labels k) (sort (map fst labels))))"

definition abPrintable :: "string \<Rightarrow> nat \<Rightarrow> bool" where
  "abPrintable s m \<longleftrightarrow> length s \<le> m \<and> list_all (\<lambda>c. 32 \<le> (of_char c :: nat) \<and> (of_char c :: nat) \<noteq> 127) s"

subsection \<open>Validation\<close>

datatype exp_error =
    ExpService | ExpID | ExpConfigSize | ExpConfigKey | ExpConfigMismatch | ExpConfig string
  | ExpPhase | ExpPhaseConfig | ExpPhaseAt | ExpAbortReason | ExpAbortSource | ExpAbort
  | ExpBBackends | ExpPinned | ExpCumulative | ExpTooManyWindows | ExpWindowIndex | ExpWindow

definition check_identity :: "peerABInfo \<Rightarrow> exp_error option" where
  "check_identity e =
     (if pe_Service e = [] \<or> \<not> abPrintable (pe_Service e) abMaxPeerServiceLen then Some ExpService
      else if \<not> abIDRe (pe_ID e) then Some ExpID
      else if pe_Config e = [] \<or> abMaxPeerConfigEntries < length (pe_Config e) then Some ExpConfigSize
      else if list_ex (\<lambda>(k, v). k \<notin> set abConfigLabelKeys \<or> abMaxPeerValueLen < length v) (pe_Config e) then Some ExpConfigKey
      else if label (pe_Config e) labelABVariant \<noteq> abVariantB \<or> label (pe_Config e) labelABID \<noteq> pe_ID e then Some ExpConfigMismatch
      else None)"

definition check_abort :: "int \<Rightarrow> abAbortInfo option \<Rightarrow> exp_error option" where
  "check_abort maxTS ab =
     (case ab of
        None \<Rightarrow> None
      | Some a \<Rightarrow>
          if ai_Reason a \<notin> {''errors'', ''latency'', ''manual'', []} then Some ExpAbortReason
          else if ai_Source a \<notin> {''auto'', ''peer'', ''label''} then Some ExpAbortSource
          else if \<not> abPrintable (ai_Detail a) abMaxPeerDetailLen \<or> ai_At a < 0 \<or> maxTS < ai_At a then Some ExpAbort
          else None)"

definition check_state :: "int \<Rightarrow> abConfig \<Rightarrow> peerABInfo \<Rightarrow> exp_error option" where
  "check_state maxTS cfg e =
     (if pe_Phase e \<notin> {abPhaseRunning, abPhaseAborted, abPhasePromoting, abPhaseDiscarding} then Some ExpPhase
      else if pe_Phase e \<noteq> ab_Phase cfg \<and> \<not> (ab_Phase cfg = abPhaseRunning \<and> pe_Phase e = abPhaseAborted) then Some ExpPhaseConfig
      else if pe_PhaseAt e < 0 \<or> maxTS < pe_PhaseAt e then Some ExpPhaseAt
      else case check_abort maxTS (pe_Abort e) of
             Some why \<Rightarrow> Some why
           | None \<Rightarrow> if pe_BBackends e < 0 \<or> abMaxPeerBBackends < pe_BBackends e then Some ExpBBackends else None)"

definition pinned_ok :: "int \<Rightarrow> abPinnedReport \<Rightarrow> bool" where
  "pinned_ok maxTS p \<longleftrightarrow> 0 \<le> pr_ActiveSessions p \<and> pr_ActiveSessions p \<le> int abPinnedCap \<and> 0 \<le> pr_LastSeen p \<and> pr_LastSeen p \<le> maxTS"

definition pair_from_wire :: "abCountersWire \<times> abCountersWire \<Rightarrow> (abCounters \<times> abCounters) option" where
  "pair_from_wire p =
     (case (abCountersFromWire (fst p), abCountersFromWire (snd p)) of
        (Some a, Some b) \<Rightarrow> Some (a, b)
      | _ \<Rightarrow> None)"

fun windows_from_wire :: "int list \<Rightarrow> abWindowWire list \<Rightarrow> exp_error + abWindow list" where
  "windows_from_wire seen [] = Inr []"
| "windows_from_wire seen (w # ws) =
     (if ww_Index w < 0 \<or> int abMaxPeerCount < ww_Index w \<or> ww_Index w \<in> set seen then Inl ExpWindowIndex
      else case pair_from_wire (ww_V w) of
             None \<Rightarrow> Inl ExpWindow
           | Some v \<Rightarrow>
               (case windows_from_wire (ww_Index w # seen) ws of
                  Inl why \<Rightarrow> Inl why
                | Inr out \<Rightarrow> Inr (\<lparr>w_Index = ww_Index w, w_V = v\<rparr> # out)))"

definition abPeerExpFromWire :: "peerABInfo \<Rightarrow> instant \<Rightarrow> exp_error + abPeerExp" where
  "abPeerExpFromWire e now =
     (case check_identity e of
        Some why \<Rightarrow> Inl why
      | None \<Rightarrow>
          (case parseABConfig (pe_Config e) now of
             (cfg, w # ws) \<Rightarrow> Inl (ExpConfig (fst w))
           | (cfg, []) \<Rightarrow>
               (let maxTS = (now + 24 * hour) div second
                in case check_state maxTS cfg e of
                     Some why \<Rightarrow> Inl why
                   | None \<Rightarrow>
                       if \<not> pinned_ok maxTS (fst (pe_Pinned e)) \<or> \<not> pinned_ok maxTS (snd (pe_Pinned e)) then Inl ExpPinned
                       else case pair_from_wire (pe_Cumulative e) of
                              None \<Rightarrow> Inl ExpCumulative
                            | Some cum \<Rightarrow>
                                if abRingSize < length (pe_Windows e) then Inl ExpTooManyWindows
                                else case windows_from_wire [] (pe_Windows e) of
                                       Inl why \<Rightarrow> Inl why
                                     | Inr ws \<Rightarrow>
                                         Inr \<lparr>x_service = pe_Service e, x_id = pe_ID e, x_cfg = cfg, x_phase = pe_Phase e, x_phaseAt = pe_PhaseAt e,
                                              x_abort = pe_Abort e, x_bBackends = pe_BBackends e, x_pinned = pe_Pinned e,
                                              x_sum = \<lparr>s_Cumulative = cum, s_Windows = sort_key w_Index ws\<rparr>\<rparr>)))"

definition keep_experiment :: "instant \<Rightarrow> (string \<times> abPeerExp) list \<Rightarrow> peerABInfo \<Rightarrow> (string \<times> abPeerExp) list" where
  "keep_experiment now out info =
     (case abPeerExpFromWire info now of
        Inl why \<Rightarrow> out
      | Inr e \<Rightarrow> (case map_of out (x_service e) of
                    None \<Rightarrow> AList.update (x_service e) e out
                  | Some prev \<Rightarrow> if x_id e < x_id prev then AList.update (x_service e) e out else out))"

definition validatePeerExperiments :: "peerABInfo list \<Rightarrow> instant \<Rightarrow> (string \<times> abPeerExp) list" where
  "validatePeerExperiments infos now = foldl (keep_experiment now) [] infos"

subsection \<open>The sender\<close>

text \<open>An attached run has a configuration; without one the code dereferences nil.\<close>

definition peerInfo :: "(rat \<Rightarrow> string) \<Rightarrow> abRun \<Rightarrow> peerABInfo option" where
  "peerInfo fmt run =
     (case r_cfg run of
        None \<Rightarrow> None
      | Some cfg \<Rightarrow>
          (let (abort, phaseAt) = abortLocked run cfg; wire = map_prod abCountersToWire abCountersToWire
           in Some \<lparr>pe_Service = r_service run, pe_ID = r_id run, pe_Config = ab_labels fmt cfg, pe_Phase = run_phase run cfg,
                    pe_PhaseAt = phaseAt, pe_Abort = abort, pe_BBackends = r_bLocal run,
                    pe_Pinned = (\<lparr>pr_ActiveSessions = int (length (fst (r_pinnedNonces run))), pr_LastSeen = fst (r_pinnedLast run)\<rparr>,
                                 \<lparr>pr_ActiveSessions = int (length (snd (r_pinnedNonces run))), pr_LastSeen = snd (r_pinnedLast run)\<rparr>),
                    pe_Cumulative = wire (r_cum run),
                    pe_Windows = map (\<lambda>w. \<lparr>ww_Index = w_Index w, ww_V = wire (w_V w)\<rparr>) (s_Windows (summaryLocked run))\<rparr>))"

definition peerABInfos :: "(rat \<Rightarrow> string) \<Rightarrow> ab_runs \<Rightarrow> peerABInfo list option" where
  "peerABInfos fmt runs = those (map (peerInfo fmt) (take abMaxPeerExperiments (attachedRuns runs)))"

subsection \<open>What an accepted experiment satisfies\<close>

definition counters_ok :: "abCounters \<Rightarrow> bool" where
  "counters_ok c \<longleftrightarrow> length (c_Hist c) = abHistBuckets \<and> unat (c_Err5xx c) \<le> unat (c_Requests c) \<and>
     unat (c_Requests c) \<le> abMaxPeerCount \<and> unat (c_Transport c) \<le> abMaxPeerCount \<and> unat (c_Failover c) \<le> abMaxPeerCount \<and>
     sum_list (map unat (c_Hist c)) \<le> unat (c_Requests c)"

definition pair_ok :: "abCounters \<times> abCounters \<Rightarrow> bool" where
  "pair_ok p \<longleftrightarrow> counters_ok (fst p) \<and> counters_ok (snd p)"

definition summary_ok :: "abSummary \<Rightarrow> bool" where
  "summary_ok s \<longleftrightarrow> pair_ok (s_Cumulative s) \<and> length (s_Windows s) \<le> abRingSize \<and>
     sorted_wrt (<) (map w_Index (s_Windows s)) \<and>
     (\<forall>w\<in>set (s_Windows s). pair_ok (w_V w) \<and> 0 \<le> w_Index w \<and> w_Index w \<le> int abMaxPeerCount)"

definition abort_ok :: "int \<Rightarrow> abAbortInfo \<Rightarrow> bool" where
  "abort_ok maxTS a \<longleftrightarrow> ai_Reason a \<in> {''errors'', ''latency'', ''manual'', []} \<and> ai_Source a \<in> {''auto'', ''peer'', ''label''} \<and>
     abPrintable (ai_Detail a) abMaxPeerDetailLen \<and> 0 \<le> ai_At a \<and> ai_At a \<le> maxTS"

definition exp_ok :: "instant \<Rightarrow> abPeerExp \<Rightarrow> bool" where
  "exp_ok now e \<longleftrightarrow> (let maxTS = (now + 24 * hour) div second
     in x_service e \<noteq> [] \<and> abPrintable (x_service e) abMaxPeerServiceLen \<and> abIDRe (x_id e) \<and>
        config_ok (x_cfg e) \<and> (x_phase e = ab_Phase (x_cfg e) \<or> ab_Phase (x_cfg e) = abPhaseRunning \<and> x_phase e = abPhaseAborted) \<and>
        0 \<le> x_phaseAt e \<and> x_phaseAt e \<le> maxTS \<and> (\<forall>a. x_abort e = Some a \<longrightarrow> abort_ok maxTS a) \<and>
        0 \<le> x_bBackends e \<and> x_bBackends e \<le> abMaxPeerBBackends \<and>
        pinned_ok maxTS (fst (x_pinned e)) \<and> pinned_ok maxTS (snd (x_pinned e)) \<and> summary_ok (x_sum e))"

lemma sum_list_bounded: "(\<And>x. x \<in> set xs \<Longrightarrow> f x \<le> (b :: nat)) \<Longrightarrow> sum_list (map f xs) \<le> length xs * b"
  by (induction xs) (auto simp: add_mono)

lemma unat_sum_list:
  fixes xs :: "64 word list"
  assumes "sum_list (map unat xs) < 2 ^ 64"
  shows "unat (sum_list xs) = sum_list (map unat xs)"
  using assms
proof (induction xs)
  case (Cons x xs)
  then have "unat (sum_list xs) = sum_list (map unat xs)" by simp
  with Cons.prems show ?case by (simp add: unat_word_ariths)
qed simp

lemma from_wire_ok:
  assumes "abCountersFromWire w = Some c"
  shows "counters_ok c"
proof -
  have c: "length (c_Hist c) = abHistBuckets" "\<forall>n\<in>set (c_Hist c). unat n \<le> abMaxPeerCount" "\<not> c_Requests c < sum_list (c_Hist c)"
    "unat (c_Requests c) \<le> abMaxPeerCount" "unat (c_Transport c) \<le> abMaxPeerCount" "unat (c_Failover c) \<le> abMaxPeerCount" "\<not> c_Requests c < c_Err5xx c"
    using assms by (auto simp: abCountersFromWire_def list_ex_iff not_less split: if_splits)
  have "sum_list (map unat (c_Hist c)) \<le> abHistBuckets * abMaxPeerCount"
    using sum_list_bounded [of "c_Hist c" unat abMaxPeerCount] c(1,2) by simp
  also have "\<dots> < 2 ^ 64" by (simp add: abHistBuckets_def abMaxPeerCount_def)
  finally have "unat (sum_list (c_Hist c)) = sum_list (map unat (c_Hist c))" by (rule unat_sum_list)
  with c show ?thesis by (simp add: counters_ok_def word_less_nat_alt not_less)
qed

lemma pair_from_wire_ok: "pair_from_wire p = Some v \<Longrightarrow> pair_ok v"
  by (auto simp: pair_from_wire_def pair_ok_def from_wire_ok split: option.splits)

lemma windows_from_wire_ok:
  "windows_from_wire seen ws = Inr out \<Longrightarrow>
     distinct (map w_Index out) \<and> set seen \<inter> w_Index ` set out = {} \<and> length out = length ws \<and>
     (\<forall>w\<in>set out. pair_ok (w_V w) \<and> 0 \<le> w_Index w \<and> w_Index w \<le> int abMaxPeerCount)"
proof (induction seen ws arbitrary: out rule: windows_from_wire.induct)
  case (2 seen w ws)
  then obtain v out' where *: "pair_from_wire (ww_V w) = Some v" "windows_from_wire (ww_Index w # seen) ws = Inr out'"
    "out = \<lparr>w_Index = ww_Index w, w_V = v\<rparr> # out'" "0 \<le> ww_Index w" "ww_Index w \<le> int abMaxPeerCount" "ww_Index w \<notin> set seen"
    by (auto split: if_splits option.splits sum.splits)
  then have "distinct (map w_Index out') \<and> set (ww_Index w # seen) \<inter> w_Index ` set out' = {} \<and> length out' = length ws \<and>
     (\<forall>w\<in>set out'. pair_ok (w_V w) \<and> 0 \<le> w_Index w \<and> w_Index w \<le> int abMaxPeerCount)"
    using 2 by auto
  with * pair_from_wire_ok show ?case by auto
qed simp

lemma from_wire_exp_ok:
  assumes "abPeerExpFromWire e now = Inr x"
  shows "exp_ok now x \<and> x_service x = pe_Service e \<and> x_id x = pe_ID e"
proof -
  let ?ts = "(now + 24 * hour) div second"
  obtain cfg cum ws where *: "check_identity e = None" "parseABConfig (pe_Config e) now = (cfg, [])" "check_state ?ts cfg e = None"
    "pinned_ok ?ts (fst (pe_Pinned e))" "pinned_ok ?ts (snd (pe_Pinned e))" "pair_from_wire (pe_Cumulative e) = Some cum"
    "length (pe_Windows e) \<le> abRingSize" "windows_from_wire [] (pe_Windows e) = Inr ws"
    "x = \<lparr>x_service = pe_Service e, x_id = pe_ID e, x_cfg = cfg, x_phase = pe_Phase e, x_phaseAt = pe_PhaseAt e,
          x_abort = pe_Abort e, x_bBackends = pe_BBackends e, x_pinned = pe_Pinned e,
          x_sum = \<lparr>s_Cumulative = cum, s_Windows = sort_key w_Index ws\<rparr>\<rparr>"
    using assms by (auto simp: abPeerExpFromWire_def Let_def split: option.splits prod.splits list.splits if_splits sum.splits)
  note w = windows_from_wire_ok [OF *(8)]
  then have "distinct (map w_Index (sort_key w_Index ws))" using distinct_sort_key by blast
  then have "sorted_wrt (<) (map w_Index (sort_key w_Index ws))" by (simp add: strict_sorted_iff)
  then have s: "summary_ok (x_sum x)" using w *(7) pair_from_wire_ok [OF *(6)] by (simp add: summary_ok_def *(9))
  have i: "pe_Service e \<noteq> []" "abPrintable (pe_Service e) abMaxPeerServiceLen" "abIDRe (pe_ID e)"
    using *(1) by (auto simp: check_identity_def split: if_splits)
  have cfg: "config_ok cfg" using parseABConfig_bounds [of "pe_Config e" now] *(2) by simp
  have st: "pe_Phase e = ab_Phase cfg \<or> ab_Phase cfg = abPhaseRunning \<and> pe_Phase e = abPhaseAborted" "0 \<le> pe_PhaseAt e" "pe_PhaseAt e \<le> ?ts"
    "check_abort ?ts (pe_Abort e) = None" "0 \<le> pe_BBackends e" "pe_BBackends e \<le> abMaxPeerBBackends"
    using *(3) by (auto simp: check_state_def split: if_splits option.splits)
  have "abort_ok ?ts a" if "pe_Abort e = Some a" for a
    using st(4) that by (auto simp: check_abort_def abort_ok_def split: if_splits)
  with s i cfg st *(4,5) show ?thesis unfolding exp_ok_def Let_def by (simp add: *(9))
qed

text \<open>The experiments kept of a list: valid, one per service, and of several valid ones for a service that with the smallest id.\<close>

definition kept_ok :: "instant \<Rightarrow> peerABInfo list \<Rightarrow> (string \<times> abPeerExp) list \<Rightarrow> bool" where
  "kept_ok now infos m \<longleftrightarrow> distinct (map fst m) \<and>
     (\<forall>s e. map_of m s = Some e \<longrightarrow> x_service e = s \<and> exp_ok now e \<and> (\<exists>info\<in>set infos. abPeerExpFromWire info now = Inr e)) \<and>
     (\<forall>info\<in>set infos. \<forall>e. abPeerExpFromWire info now = Inr e \<longrightarrow> (\<exists>e'. map_of m (x_service e) = Some e' \<and> x_id e' \<le> x_id e))"

lemma keep_experiment_ok:
  assumes "kept_ok now infos m"
  shows "kept_ok now (infos @ [info]) (keep_experiment now m info)"
proof (cases "abPeerExpFromWire info now")
  case (Inl why)
  with assms show ?thesis by (auto simp: kept_ok_def keep_experiment_def simp del: map_of_eq_Some_iff)
next
  case (Inr e)
  let ?s = "x_service e" and ?m = "keep_experiment now m info"
  have new: "\<exists>e'. map_of ?m ?s = Some e' \<and> x_id e' \<le> x_id e" "\<And>s e'. map_of ?m s = Some e' \<Longrightarrow> map_of m s = Some e' \<or> s = ?s \<and> e' = e"
    "\<And>s e0. map_of m s = Some e0 \<Longrightarrow> \<exists>e'. map_of ?m s = Some e' \<and> x_id e' \<le> x_id e0"
    using Inr by (auto simp: keep_experiment_def not_less split: option.splits if_splits)
  have "distinct (map fst ?m)" using assms Inr by (auto simp: kept_ok_def keep_experiment_def distinct_update split: option.splits)
  moreover have "x_service e' = s \<and> exp_ok now e' \<and> (\<exists>i\<in>set (infos @ [info]). abPeerExpFromWire i now = Inr e')"
    if "map_of ?m s = Some e'" for s e'
    using new(2) [OF that] assms from_wire_exp_ok [OF Inr] Inr unfolding kept_ok_def by auto
  moreover have "\<exists>e'. map_of ?m (x_service e0) = Some e' \<and> x_id e' \<le> x_id e0"
    if "i \<in> set (infos @ [info])" "abPeerExpFromWire i now = Inr e0" for i e0
  proof (cases "i = info")
    case True
    with that(2) Inr new(1) show ?thesis by auto
  next
    case False
    with that assms obtain e1 where "map_of m (x_service e0) = Some e1" "x_id e1 \<le> x_id e0" unfolding kept_ok_def by fastforce
    with new(3) show ?thesis by (meson order_trans)
  qed
  ultimately show ?thesis unfolding kept_ok_def by blast
qed

lemma validated_experiments: "kept_ok now infos (validatePeerExperiments infos now)"
  unfolding validatePeerExperiments_def
proof (induction infos rule: rev_induct)
  case Nil
  show ?case by (simp add: kept_ok_def)
qed (simp add: keep_experiment_ok)

text \<open>
  (C19) A push cannot smuggle in an experiment out of bounds. Whatever list of experiments a peer sends, those that are kept are one per service and each is valid: its id and service are
  well formed, its configuration has passed the parser of local labels without a warning and is within the parser's bounds, its phase agrees with it, its times are not more than a
  day ahead, its counters are at most \<open>2 ^ 40\<close>, no more errors than requests, histogram sums within the requests, at most three windows, in order and distinct; of several
  valid ones for a service the smallest id is kept.
\<close>

theorem peer_experiments_checked:
  "let m = validatePeerExperiments infos now
   in distinct (map fst m) \<and>
      (\<forall>s e. map_of m s = Some e \<longrightarrow> x_service e = s \<and> exp_ok now e \<and> (\<exists>info\<in>set infos. abPeerExpFromWire info now = Inr e)) \<and>
      (\<forall>info\<in>set infos. \<forall>e. abPeerExpFromWire info now = Inr e \<longrightarrow> (\<exists>e'. map_of m (x_service e) = Some e' \<and> x_id e' \<le> x_id e))"
  using validated_experiments unfolding kept_ok_def Let_def .

text \<open>An experiment that is accepted.\<close>

definition ex_wire :: abCountersWire where
  "ex_wire = \<lparr>cw_Requests = 10, cw_Err5xx = 1, cw_Transport = 2, cw_Failover = 0, cw_Hist = replicate 64 0\<rparr>"

definition ex_info :: peerABInfo where
  "ex_info = \<lparr>pe_Service = ''web'', pe_ID = ''abcd'', pe_Config = [(labelABVariant, ''B''), (labelABID, ''abcd'')],
     pe_Phase = ''running'', pe_PhaseAt = 0, pe_Abort = None, pe_BBackends = 1,
     pe_Pinned = (\<lparr>pr_ActiveSessions = 0, pr_LastSeen = 0\<rparr>, \<lparr>pr_ActiveSessions = 0, pr_LastSeen = 0\<rparr>),
     pe_Cumulative = (ex_wire, ex_wire), pe_Windows = []\<rparr>"

lemma ex_info_config: "parseABConfig (pe_Config ex_info) 0 = (ab_defaults ''abcd'', [])"
  by code_simp

lemma ex_info_keys: "labelABVariant \<in> set abConfigLabelKeys" "labelABID \<in> set abConfigLabelKeys"
  by (simp_all add: abConfigLabelKeys_def ab_labels_def Let_def)

lemma ex_info_identity: "check_identity ex_info = None"
proof -
  have "abPrintable ''web'' abMaxPeerServiceLen" "abIDRe ''abcd''" by code_simp+
  moreover have "labelABVariant \<noteq> labelABID" by (simp add: labelABVariant_def labelABID_def)
  ultimately show ?thesis
    by (simp add: check_identity_def ex_info_def ex_info_keys label_def abVariantB_def abMaxPeerConfigEntries_def abMaxPeerValueLen_def)
qed

lemma ex_info_state: "check_state 86400 (ab_defaults ''abcd'') ex_info = None"
  by code_simp

lemma ex_wire_ok: "abCountersFromWire ex_wire = Some \<lparr>c_Requests = 10, c_Err5xx = 1, c_Transport = 2, c_Failover = 0, c_Hist = replicate 64 0\<rparr>"
  by (simp add: abCountersFromWire_def ex_wire_def abHistBuckets_def abMaxPeerCount_def list_ex_iff sum_list_replicate word_less_nat_alt)

lemma ex_info_accepted: "\<exists>e. abPeerExpFromWire ex_info 0 = Inr e \<and> unat (c_Requests (fst (s_Cumulative (x_sum e)))) = 10"
proof -
  have t: "(0 + 24 * hour) div second = 86400" by (simp add: time_units)
  show ?thesis unfolding abPeerExpFromWire_def ex_info_config ex_info_identity t Let_def
    by (simp add: ex_info_state) (simp add: ex_info_def pinned_ok_def pair_from_wire_def ex_wire_ok)
qed

theorem peer_experiments_checked_witness:
  "\<exists>e. map_of (validatePeerExperiments [ex_info] 0) ''web'' = Some e \<and> exp_ok 0 e"
proof -
  obtain e where e: "abPeerExpFromWire ex_info 0 = Inr e" using ex_info_accepted by blast
  then have "x_service e = ''web''" using from_wire_exp_ok by (simp add: ex_info_def)
  with peer_experiments_checked [of "[ex_info]" 0] e show ?thesis unfolding Let_def by (metis list.set_intros(1))
qed

subsection \<open>Merging what peers send does not overflow\<close>

lemma c_add_field:
  assumes "f \<in> {c_Requests, c_Err5xx, c_Transport, c_Failover}"
  shows "f (c_add a b) = f a + f b" "f noCounters = 0"
  using assms by (auto simp: c_add_def noCounters_def)

lemma c_add_exact:
  assumes f: "f \<in> {c_Requests, c_Err5xx, c_Transport, c_Failover}" and "sum_list (map (\<lambda>x. unat (f x)) xs) < 2 ^ 64"
  shows "unat (f (foldl c_add noCounters xs)) = sum_list (map (\<lambda>x. unat (f x)) xs)"
  using assms(2)
proof (induction xs rule: rev_induct)
  case Nil
  show ?case using c_add_field [OF f] by simp
next
  case (snoc x xs)
  then have "unat (f (foldl c_add noCounters xs)) = sum_list (map (\<lambda>x. unat (f x)) xs)" by simp
  with snoc.prems show ?case by (simp add: c_add_field [OF f] unat_word_ariths)
qed

lemma counters_ok_field: "counters_ok c \<Longrightarrow> f \<in> {c_Requests, c_Err5xx, c_Transport, c_Failover} \<Longrightarrow> unat (f c) \<le> abMaxPeerCount"
  by (auto simp: counters_ok_def)

lemma merged_cumulative:
  "s_Cumulative (abMergeSummaries ss) =
     (foldl c_add noCounters (map (\<lambda>s. fst (s_Cumulative s)) ss), foldl c_add noCounters (map (\<lambda>s. snd (s_Cumulative s)) ss))"
proof -
  have "foldl (\<lambda>c s. pair_add c (s_Cumulative s)) (a, b) ss =
     (foldl c_add a (map (\<lambda>s. fst (s_Cumulative s)) ss), foldl c_add b (map (\<lambda>s. snd (s_Cumulative s)) ss))" for a b
    by (induction ss arbitrary: a b) (simp_all add: pair_add_def)
  then show ?thesis by (simp add: abMergeSummaries_def Let_def)
qed

text \<open>
  (C20) The judge adds true counts. The sums over this proxy and up to a million peers, each with a validated summary, do not wrap around, as long as this proxy's own counters are below \<open>2 ^ 63\<close>: what is judged are
  the exact totals of requests, errors, transport errors and failovers of each variant.
\<close>

theorem merged_counts_exact:
  assumes "\<And>s. s \<in> set ss \<Longrightarrow> \<exists>now e. exp_ok now e \<and> x_sum e = s" and "length ss \<le> 2 ^ 20"
    and "f \<in> {c_Requests, c_Err5xx, c_Transport, c_Failover}" and "v = fst \<or> v = snd" and "unat (f (v (s_Cumulative own))) < 2 ^ 63"
  shows "unat (f (v (s_Cumulative (abMergeSummaries (own # ss))))) =
    unat (f (v (s_Cumulative own))) + sum_list (map (\<lambda>s. unat (f (v (s_Cumulative s)))) ss)"
proof -
  have "unat (f (v (s_Cumulative s))) \<le> abMaxPeerCount" if "s \<in> set ss" for s
    using assms(1) [OF that] assms(3,4) by (auto simp: exp_ok_def summary_ok_def pair_ok_def Let_def counters_ok_field)
  then have "sum_list (map (\<lambda>s. unat (f (v (s_Cumulative s)))) ss) \<le> length ss * abMaxPeerCount" by (rule sum_list_bounded)
  also have "\<dots> \<le> 2 ^ 20 * 2 ^ 40" using assms(2) by (simp add: abMaxPeerCount_def)
  finally have "sum_list (map (\<lambda>x. unat (f x)) (map (\<lambda>s. v (s_Cumulative s)) (own # ss))) < 2 ^ 64"
    using assms(5) by (simp add: comp_def)
  from c_add_exact [OF assms(3) this] assms(4) show ?thesis by (auto simp: merged_cumulative comp_def)
qed

theorem merged_counts_exact_witness:
  "\<exists>e :: abPeerExp. unat (c_Requests (fst (s_Cumulative (abMergeSummaries [x_sum e, x_sum e])))) = 20"
proof -
  obtain e where e: "abPeerExpFromWire ex_info 0 = Inr e" "unat (c_Requests (fst (s_Cumulative (x_sum e)))) = 10"
    using ex_info_accepted by blast
  then have "exp_ok 0 e" using from_wire_exp_ok by blast
  then have "unat (c_Requests (fst (s_Cumulative (abMergeSummaries [x_sum e, x_sum e])))) = 20"
    using merged_counts_exact [of "[x_sum e]" c_Requests fst "x_sum e"] e(2) by auto
  then show ?thesis by blast
qed

end
