(* ===== verification/PeerMesh.thy ===== *)
theory PeerMesh
  imports Assemble PeerWire
begin

section \<open>Routes learned from peers (\<^verbatim>\<open>peermerge.go\<close>, \<^verbatim>\<open>peersync.go\<close>, \<^verbatim>\<open>peers.go\<close>, \<^verbatim>\<open>abmesh.go\<close>)\<close>

text \<open>
  The store of what peers advertise, its merging with each push, the overlay onto freshly assembled route groups, what this
  proxy advertises itself, and the handlers of the internal port. The Go maps of the store are association lists with distinct keys; the
  code ranges over them in an order of its own, so a theorem about every store is a theorem about every order.
\<close>

subsection \<open>Advertised and learned routes\<close>

record learnedRoute =
  lr_peerID :: string
  lr_advertise :: string
  lr_name :: string
  lr_stripPrefix :: bool
  lr_rateLimit :: bool
  lr_rateRPM :: int
  lr_spread :: bool
  lr_service :: string
  lr_backends :: int
  lr_weight :: int
  lr_abID :: string
  lr_bBackends :: int
  lr_bWeight :: int
  lr_lastSeen :: instant

record peerRouteInfo =
  pi_Host :: string
  pi_PathPrefix :: string
  pi_StripPrefix :: bool
  pi_Name :: string
  pi_Service :: string
  pi_Backends :: int
  pi_Weight :: int
  pi_RateLimit :: bool
  pi_RateRPM :: int
  pi_Spread :: bool
  pi_ABID :: string
  pi_BBackends :: int
  pi_BWeight :: int

record peerRoutePayload =
  pp_Peer :: string
  pp_Advertise :: string
  pp_Routes :: "peerRouteInfo list"
  pp_Experiments :: "peerABInfo list"

type_synonym peer_exps = "(string \<times> abPeerExp) list"

record PeerRouteStore =
  ps_routes :: "(string \<times> (string \<times> learnedRoute) list) list"
  ps_ttl :: duration
  ps_hopAuth :: string
  ps_exps :: "(string \<times> peer_exps) list"
  ps_expSeen :: "(string \<times> instant) list"

definition newPeerRouteStore :: "duration \<Rightarrow> PeerRouteStore" where
  "newPeerRouteStore ttl = \<lparr>ps_routes = [], ps_ttl = ttl, ps_hopAuth = [], ps_exps = [], ps_expSeen = []\<rparr>"

definition peerWeight :: "peerRouteInfo \<Rightarrow> int" where
  "peerWeight r = (if 0 < pi_Weight r then pi_Weight r else pi_Backends r)"

definition splitRouteKey :: "string \<Rightarrow> string \<times> string" where
  "splitRouteKey key = (case cut key CHR ''|'' of None \<Rightarrow> (key, []) | Some hp \<Rightarrow> hp)"

definition peerRouteAB :: "peerRouteInfo \<Rightarrow> string \<times> int \<times> int" where
  "peerRouteAB r =
     (if pi_ABID r = [] \<or> \<not> abIDRe (pi_ABID r) \<or> pi_BBackends r \<le> 0 \<or> pi_Backends r < pi_BBackends r \<or> pi_BWeight r < 0 then ([], 0, 0)
      else (let bw = (if pi_BWeight r = 0 then pi_BBackends r else pi_BWeight r)
            in if peerWeight r < bw then ([], 0, 0) else (pi_ABID r, pi_BBackends r, bw)))"

subsection \<open>Merging a push\<close>

definition inner :: "string \<Rightarrow> (string \<times> (string \<times> 'v) list) list \<Rightarrow> (string \<times> 'v) list" where
  "inner k m = (case map_of m k of None \<Rightarrow> [] | Some x \<Rightarrow> x)"

definition learned_from :: "instant \<Rightarrow> peerRoutePayload \<Rightarrow> peerRouteInfo \<Rightarrow> learnedRoute" where
  "learned_from now p r =
     (let (abID, bBackends, bWeight) = peerRouteAB r
      in \<lparr>lr_peerID = pp_Peer p, lr_advertise = pp_Advertise p, lr_name = pi_Name r, lr_stripPrefix = pi_StripPrefix r,
          lr_rateLimit = pi_RateLimit r, lr_rateRPM = pi_RateRPM r, lr_spread = pi_Spread r, lr_service = pi_Service r,
          lr_backends = pi_Backends r, lr_weight = peerWeight r, lr_abID = abID, lr_bBackends = bBackends, lr_bWeight = bWeight,
          lr_lastSeen = now\<rparr>)"

text \<open>Whether a route that is already known has to be rebuilt.\<close>

definition route_changed :: "learnedRoute \<Rightarrow> learnedRoute \<Rightarrow> bool" where
  "route_changed prev new \<longleftrightarrow>
     lr_spread prev \<noteq> lr_spread new \<or> lr_weight prev \<noteq> lr_weight new \<or> lr_abID prev \<noteq> lr_abID new \<or>
     lr_bBackends prev \<noteq> lr_bBackends new \<or> lr_bWeight prev \<noteq> lr_bWeight new \<or>
     lr_abID new \<noteq> [] \<and> lr_backends prev \<noteq> lr_backends new"

definition merge_route :: "instant \<Rightarrow> peerRoutePayload \<Rightarrow> PeerRouteStore \<times> bool \<Rightarrow> peerRouteInfo \<Rightarrow> PeerRouteStore \<times> bool" where
  "merge_route now p = (\<lambda>(s, changed) r.
     if pi_Backends r \<le> 0 then (s, changed)
     else (let key = group_key (pi_Host r) (pi_PathPrefix r); peers = inner key (ps_routes s); lr = learned_from now p r;
               ch = (case map_of peers (pp_Peer p) of None \<Rightarrow> True | Some prev \<Rightarrow> route_changed prev lr)
           in (s\<lparr>ps_routes := AList.update key (AList.update (pp_Peer p) lr peers) (ps_routes s)\<rparr>, changed \<or> ch)))"

definition merge_experiments :: "(rat \<Rightarrow> string) \<Rightarrow> instant \<Rightarrow> PeerRouteStore \<Rightarrow> peerRoutePayload \<Rightarrow> PeerRouteStore \<times> bool" where
  "merge_experiments fmt now s p =
     (let exps = validatePeerExperiments (pp_Experiments p) now; prev = inner (pp_Peer p) (ps_exps s);
          changed = (length prev \<noteq> length exps \<or>
            list_ex (\<lambda>(svc, e). case map_of prev svc of None \<Rightarrow> True | Some q \<Rightarrow> fingerprint fmt q \<noteq> fingerprint fmt e) exps)
      in (if exps \<noteq> [] then s\<lparr>ps_exps := AList.update (pp_Peer p) exps (ps_exps s), ps_expSeen := AList.update (pp_Peer p) now (ps_expSeen s)\<rparr>
          else s\<lparr>ps_exps := AList.delete (pp_Peer p) (ps_exps s), ps_expSeen := AList.delete (pp_Peer p) (ps_expSeen s)\<rparr>,
          changed))"

definition merge :: "(rat \<Rightarrow> string) \<Rightarrow> instant \<Rightarrow> PeerRouteStore \<Rightarrow> peerRoutePayload \<Rightarrow> PeerRouteStore \<times> bool" where
  "merge fmt now s p = foldl (merge_route now p) (merge_experiments fmt now s p) (pp_Routes p)"

subsection \<open>The overlay\<close>

definition stale_since :: "duration \<Rightarrow> instant \<Rightarrow> instant \<Rightarrow> bool" where
  "stale_since ttl now seen \<longleftrightarrow> ttl < now - seen"

definition hasExpired :: "instant \<Rightarrow> PeerRouteStore \<Rightarrow> bool" where
  "hasExpired now s \<longleftrightarrow>
     list_ex (\<lambda>(k, peers). list_ex (\<lambda>(p, lr). stale_since (ps_ttl s) now (lr_lastSeen lr)) peers) (ps_routes s) \<or>
     list_ex (\<lambda>(p, seen). stale_since (ps_ttl s) now seen) (ps_expSeen s)"

definition expire_experiments :: "instant \<Rightarrow> PeerRouteStore \<Rightarrow> PeerRouteStore" where
  "expire_experiments now s =
     (let old = map fst (filter (\<lambda>(p, seen). stale_since (ps_ttl s) now seen) (ps_expSeen s))
      in s\<lparr>ps_exps := filter (\<lambda>(p, e). p \<notin> set old) (ps_exps s), ps_expSeen := filter (\<lambda>(p, seen). p \<notin> set old) (ps_expSeen s)\<rparr>)"

definition expire_routes :: "instant \<Rightarrow> PeerRouteStore \<Rightarrow> PeerRouteStore" where
  "expire_routes now s =
     s\<lparr>ps_routes := filter (\<lambda>(k, peers). peers \<noteq> [])
        (map (\<lambda>(k, peers). (k, filter (\<lambda>(p, lr). \<not> stale_since (ps_ttl s) now (lr_lastSeen lr)) peers)) (ps_routes s))\<rparr>"

datatype learnedABSplit = abSplitLegacy | abSplitAOnly | abSplitBoth

definition local_test :: "(string \<times> string) list \<Rightarrow> RouteGroup \<Rightarrow> (string \<times> string) list" where
  "local_test ids g =
     (if g_static g \<or> g_Service g = [] then ids
      else case (g_abCfg g, g_abLocal g) of
             (Some c, _) \<Rightarrow> AList.update (g_Service g) (ab_ID c) ids
           | (None, Some c) \<Rightarrow> AList.update (g_Service g) (ab_ID c) ids
           | (None, None) \<Rightarrow> ids)"

definition adopt_exp :: "(string \<times> string) list \<Rightarrow> peer_exps \<Rightarrow> string \<times> abPeerExp \<Rightarrow> peer_exps" where
  "adopt_exp ids adopt = (\<lambda>(svc, e).
     if map_of ids svc \<noteq> None \<or> x_bBackends e \<le> 0 then adopt
     else case map_of adopt svc of
            None \<Rightarrow> AList.update svc e adopt
          | Some cur \<Rightarrow> if x_id e < x_id cur \<or> x_id e = x_id cur \<and> x_phaseAt cur < x_phaseAt e then AList.update svc e adopt else adopt)"

definition abTestIDs :: "PeerRouteStore \<Rightarrow> RouteGroup list \<Rightarrow> (string \<times> string) list \<times> peer_exps" where
  "abTestIDs s groups =
     (let ids = foldl local_test [] groups;
          adopt = foldl (\<lambda>ad p. foldl (adopt_exp ids) ad (inner p (ps_exps s))) [] (sort (map fst (ps_exps s)))
      in (foldl (\<lambda>m (svc, e). AList.update svc (x_id e) m) ids adopt, adopt))"

definition peer_exp :: "PeerRouteStore \<Rightarrow> string \<Rightarrow> string \<Rightarrow> abPeerExp option" where
  "peer_exp s peer svc = map_of (inner peer (ps_exps s)) svc"

definition abSplitFor :: "PeerRouteStore \<Rightarrow> RouteGroup \<Rightarrow> string \<Rightarrow> learnedRoute \<Rightarrow> learnedABSplit" where
  "abSplitFor s g testID lr =
     (if testID = [] \<or> g_static g \<or> lr_abID lr = [] \<or> lr_bBackends lr \<le> 0 then abSplitLegacy
      else if lr_abID lr \<noteq> testID then abSplitAOnly
      else case peer_exp s (lr_peerID lr) (g_Service g) of
             None \<Rightarrow> abSplitAOnly
           | Some e \<Rightarrow> if x_id e \<noteq> testID then abSplitAOnly else abSplitBoth)"

text \<open>The environment: the hash of backend identities and whether \<^verbatim>\<open>url.Parse\<close> accepts an address.\<close>

definition peerBackendsFor :: "assemble_env \<Rightarrow> PeerRouteStore \<Rightarrow> learnedRoute \<Rightarrow> string \<Rightarrow> string \<Rightarrow> learnedABSplit \<Rightarrow> Backend list" where
  "peerBackendsFor env s lr host path split =
     (let mk = (\<lambda>w. makePeerBackendAuth (ge_sha env) (ge_parses env) (lr_advertise lr) host path (lr_stripPrefix lr) (lr_peerID lr) w (ps_hopAuth s));
          opt = (\<lambda>b. case b of None \<Rightarrow> [] | Some x \<Rightarrow> [x])
      in if split = abSplitLegacy then opt (mk (lr_weight lr))
         else (if 0 < lr_backends lr - lr_bBackends lr then opt (mk (lr_weight lr - lr_bWeight lr)) else []) @
              (if split = abSplitBoth
               then map (\<lambda>b. b\<lparr>b_Variant := abVariantB, b_Container := ''peer:'' @ lr_peerID lr @ '':B'',
                               b_stickyID := backendStickyID (ge_sha env) (lr_advertise lr @ ''|B'')\<rparr>) (opt (mk (lr_bWeight lr)))
               else []))"

record meshing =
  mg_heap :: bheap
  mg_next :: baddr
  mg_groups :: "RouteGroup list"

definition group_index :: "string \<Rightarrow> RouteGroup list \<Rightarrow> nat option" where
  "group_index key gs = find (\<lambda>i. routeKey (gs ! i) = key) (rev [0..<length gs])"

definition learned_group :: "(string \<times> baddr list) list \<Rightarrow> string \<Rightarrow> string \<Rightarrow> learnedRoute \<Rightarrow> RouteGroup" where
  "learned_group services host path lr =
     zeroGroup\<lparr>g_Host := host, g_PathPrefix := path, g_StripPrefix := lr_stripPrefix lr, g_Name := lr_name lr,
       g_RateLimit := lr_rateLimit lr, g_RateRPM := lr_rateRPM lr, g_Service := lr_service lr,
       g_Backends := (if lr_service lr = [] then [] else case map_of services (lr_service lr) of None \<Rightarrow> [] | Some bs \<Rightarrow> bs)\<rparr>"

fun alloc_peers :: "Backend list \<Rightarrow> bheap \<Rightarrow> baddr \<Rightarrow> bheap \<times> baddr list" where
  "alloc_peers [] h a = (h, [])"
| "alloc_peers (b # bs) h a = (case alloc_peers bs (h(a := b)) (Suc a) of (h', as) \<Rightarrow> (h', a # as))"

text \<open>The backends of one peer for a group, marked with the test the peer is known to run.\<close>

definition marked_backends :: "assemble_env \<Rightarrow> PeerRouteStore \<Rightarrow> (string \<times> string) list \<Rightarrow> string \<Rightarrow> RouteGroup \<Rightarrow> string \<Rightarrow> learnedRoute \<Rightarrow> Backend list" where
  "marked_backends env s testIDs key g peer lr =
     (let (host, path) = splitRouteKey key; testID = label testIDs (g_Service g);
          bs = peerBackendsFor env s lr host path (abSplitFor s g testID lr)
      in case peer_exp s peer (g_Service g) of
           None \<Rightarrow> bs
         | Some e \<Rightarrow> if testID \<noteq> [] \<and> \<not> g_static g \<and> x_id e = testID then map (\<lambda>b. b\<lparr>b_peerTestID := testID\<rparr>) bs else bs)"

definition add_to_group :: "assemble_env \<Rightarrow> PeerRouteStore \<Rightarrow> (string \<times> string) list \<Rightarrow> string \<Rightarrow> string \<times> learnedRoute \<Rightarrow> meshing \<Rightarrow> nat \<Rightarrow> meshing" where
  "add_to_group env s testIDs key = (\<lambda>(peer, lr) m i.
     (let g = mg_groups m ! i; bs = marked_backends env s testIDs key g peer lr; (h, as) = alloc_peers bs (mg_heap m) (mg_next m);
          g1 = (if lr_spread lr then g\<lparr>g_Spread := True\<rparr> else g)
      in if bs = [] then m
         else \<lparr>mg_heap = h, mg_next = mg_next m + length bs, mg_groups = (mg_groups m)[i := g1\<lparr>g_Backends := g_Backends g1 @ as\<rparr>]\<rparr>))"

definition add_learned :: "assemble_env \<Rightarrow> PeerRouteStore \<Rightarrow> (string \<times> string) list \<Rightarrow> (string \<times> baddr list) list \<Rightarrow> string \<Rightarrow> meshing \<Rightarrow>
    string \<times> learnedRoute \<Rightarrow> meshing" where
  "add_learned env s testIDs services key m pl =
     (case group_index key (mg_groups m) of
        Some i \<Rightarrow> add_to_group env s testIDs key pl m i
      | None \<Rightarrow>
          (let (host, path) = splitRouteKey key; m1 = m\<lparr>mg_groups := mg_groups m @ [learned_group services host path (snd pl)]\<rparr>
           in add_to_group env s testIDs key pl m1 (length (mg_groups m))))"

definition abAttach :: "bheap \<Rightarrow> peer_exps \<Rightarrow> RouteGroup \<Rightarrow> RouteGroup" where
  "abAttach h adopt g =
     (if g_abCfg g \<noteq> None \<or> g_static g \<or> \<not> hasBBackend h g then g
      else case g_abLocal g of
             Some c \<Rightarrow> g\<lparr>g_abCfg := Some c\<rparr>
           | None \<Rightarrow> (case map_of adopt (g_Service g) of None \<Rightarrow> g | Some e \<Rightarrow> g\<lparr>g_abCfg := Some (x_cfg e)\<rparr>))"

definition learn_all :: "assemble_env \<Rightarrow> PeerRouteStore \<Rightarrow> (string \<times> string) list \<Rightarrow> (string \<times> baddr list) list \<Rightarrow> meshing \<Rightarrow> meshing" where
  "learn_all env s testIDs services m =
     foldl (\<lambda>m (key, peers). foldl (add_learned env s testIDs services key) m peers) m (ps_routes s)"

definition overlay :: "assemble_env \<Rightarrow> instant \<Rightarrow> PeerRouteStore \<Rightarrow> (string \<times> baddr list) list \<Rightarrow> meshing \<Rightarrow> PeerRouteStore \<times> meshing" where
  "overlay env now s services m =
     (let s1 = expire_routes now (expire_experiments now s); (testIDs, adopt) = abTestIDs s1 (mg_groups m);
          m1 = learn_all env s1 testIDs services m
      in (s1, m1\<lparr>mg_groups := map (abAttach (mg_heap m1) adopt) (mg_groups m1)\<rparr>))"

subsection \<open>What this proxy advertises\<close>

definition advertised :: "bheap \<Rightarrow> RouteGroup \<Rightarrow> baddr list" where
  "advertised h g = filter (\<lambda>a. \<not> b_Learned (h a) \<and> \<not> b_draining (h a)) (g_Backends g)"

definition route_info :: "bheap \<Rightarrow> RouteGroup \<Rightarrow> peerRouteInfo option" where
  "route_info h g =
     (let own = advertised h g; own_b = filter (\<lambda>a. b_Variant (h a) = abVariantB) own; weight = (\<lambda>as. sum_list (map (\<lambda>a. b_Weight (h a)) as));
          ri = \<lparr>pi_Host = g_Host g, pi_PathPrefix = g_PathPrefix g, pi_StripPrefix = g_StripPrefix g, pi_Name = g_Name g,
                pi_Service = g_Service g, pi_Backends = int (length own), pi_Weight = weight own, pi_RateLimit = g_RateLimit g,
                pi_RateRPM = g_RateRPM g, pi_Spread = g_SpreadLocal g, pi_ABID = [], pi_BBackends = 0, pi_BWeight = 0\<rparr>
      in if own = [] then None
         else Some (case g_abCfg g of
                      None \<Rightarrow> ri
                    | Some c \<Rightarrow> if own_b \<noteq> [] then ri\<lparr>pi_ABID := ab_ID c, pi_BBackends := int (length own_b), pi_BWeight := weight own_b\<rparr> else ri))"

definition peerPayloadMaxBytes :: nat where "peerPayloadMaxBytes = 2 ^ 20"

text \<open>
  The outer option is the panic of \<open>peerInfo\<close> on a run without a configuration. \<open>marshal\<close> is \<^verbatim>\<open>json.Marshal\<close>.
\<close>

definition buildPeerPayload :: "(rat \<Rightarrow> string) \<Rightarrow> (peerRoutePayload \<Rightarrow> string option) \<Rightarrow> 'l Router \<Rightarrow> string \<Rightarrow> string \<Rightarrow> string option option" where
  "buildPeerPayload fmt marshal r identity advertise =
     (let routes = List.map_filter (route_info (rt_heap r)) (rt_groups r)
      in if routes = [] then Some None
         else case peerABInfos fmt (rt_abRuns r) of
                None \<Rightarrow> None
              | Some infos \<Rightarrow>
                  (let payload = \<lparr>pp_Peer = identity, pp_Advertise = advertise, pp_Routes = routes, pp_Experiments = infos\<rparr>
                   in case marshal payload of
                        None \<Rightarrow> Some None
                      | Some body \<Rightarrow> if peerPayloadMaxBytes < length body then Some (marshal (payload\<lparr>pp_Experiments := []\<rparr>)) else Some (Some body)))"

subsection \<open>Refresh and the handlers of the internal port\<close>

text \<open>
  A refresh assembles, overlays and sets (\<^verbatim>\<open>refresh\<close> in \<^verbatim>\<open>main.go\<close>); \<open>a\<close> is the first free address for new backends. \<open>None\<close> is a panic.
\<close>

definition refresh :: "assemble_env \<Rightarrow> 'l limiter_ops \<Rightarrow> config_file \<Rightarrow> dockerContainer list option \<Rightarrow> labelOverlay option \<Rightarrow> baddr \<Rightarrow> instant \<Rightarrow>
    PeerRouteStore \<times> 'l Router \<Rightarrow> (PeerRouteStore \<times> 'l Router) option" where
  "refresh env ops config containers ov a now = (\<lambda>(s, r).
     case assembleGroupsWithOverlay env config containers ov (rt_heap r) a of
       None \<Rightarrow> Some (s, r)
     | Some (st, gs) \<Rightarrow>
         (let (s1, m) = overlay env now s (gs_services st) \<lparr>mg_heap = gs_heap st, mg_next = gs_next st, mg_groups = gs\<rparr>
          in case Set ops (r\<lparr>rt_heap := mg_heap m\<rparr>) now (mg_groups m) of
               None \<Rightarrow> None
             | Some (r1, stale) \<Rightarrow> Some (s1, r1)))"

definition applyAB :: "instant \<Rightarrow> string \<Rightarrow> PeerRouteStore \<Rightarrow> 'l Router \<Rightarrow> 'l Router" where
  "applyAB now peer s r = r\<lparr>rt_abRuns := applyPeerAB now peer (inner peer (ps_exps s)) (rt_abRuns r)\<rparr>"

text \<open>The status with which a request to the internal port is refused, if it is.\<close>

definition bearer_refused :: "string \<Rightarrow> request \<Rightarrow> int option" where
  "bearer_refused secret rq =
     (if secret = [] then Some 404
      else if rq_Method rq \<noteq> ''POST'' then Some 405
      else if h_get (rq_Header rq) ''Authorization'' \<noteq> ''Bearer '' @ secret then Some 401
      else None)"

definition peerRoutesHandler :: "(rat \<Rightarrow> string) \<Rightarrow> (string \<Rightarrow> peerRoutePayload option) \<Rightarrow>
    (PeerRouteStore \<times> 'l Router \<Rightarrow> (PeerRouteStore \<times> 'l Router) option) \<Rightarrow> string \<Rightarrow> instant \<Rightarrow> request \<Rightarrow> string \<Rightarrow>
    PeerRouteStore \<times> 'l Router \<Rightarrow> (int \<times> PeerRouteStore \<times> 'l Router) option" where
  "peerRoutesHandler fmt decode refr secret now rq body = (\<lambda>(s, r).
     case bearer_refused secret rq of
       Some status \<Rightarrow> Some (status, s, r)
     | None \<Rightarrow>
         (case decode (take peerPayloadMaxBytes body) of
            None \<Rightarrow> Some (400, s, r)
          | Some p \<Rightarrow>
              (let (s1, changed) = merge fmt now s p
               in case (if changed then refr (s1, r) else Some (s1, r)) of
                    None \<Rightarrow> None
                  | Some (s2, r2) \<Rightarrow> Some (204, s2, applyAB now (pp_Peer p) s2 r2))))"

text \<open>The handshake: a status, and the identity in the answer of an accepted one.\<close>

definition peerHandshakeHandler :: "string \<Rightarrow> string \<Rightarrow> request \<Rightarrow> int \<times> string option" where
  "peerHandshakeHandler secret identity rq =
     (case bearer_refused secret rq of Some status \<Rightarrow> (status, None) | None \<Rightarrow> (200, Some identity))"

record peerStatus =
  st_LastAttempt :: instant
  st_LastSuccess :: instant
  st_OK :: bool

definition splitAndTrim :: "string \<Rightarrow> string list" where
  "splitAndTrim s = (if s = [] then [] else filter (\<lambda>t. t \<noteq> []) (map trim_space (split_on CHR '','' s)))"

text \<open>The zero time is \<open>0\<close>.\<close>

definition recordResult :: "instant \<Rightarrow> (string \<times> peerStatus) list \<Rightarrow> string \<Rightarrow> bool \<Rightarrow> (string \<times> peerStatus) list" where
  "recordResult now st peer ok =
     (let s0 = (case map_of st peer of None \<Rightarrow> \<lparr>st_LastAttempt = 0, st_LastSuccess = 0, st_OK = False\<rparr> | Some x \<Rightarrow> x);
          s1 = s0\<lparr>st_LastAttempt := now\<rparr>;
          s2 = (if ok then s1\<lparr>st_LastSuccess := now\<rparr> else s1)
      in AList.update peer (s2\<lparr>st_OK := ok\<rparr>) st)"

text \<open>The outcome of one handshake sent to a peer: the status of the answer, if there was one.\<close>

definition send_result :: "instant \<Rightarrow> (string \<times> peerStatus) list \<Rightarrow> string \<Rightarrow> int option \<Rightarrow> (string \<times> peerStatus) list" where
  "send_result now st peer answer = recordResult now st peer (answer = Some 200)"

end
