(* ===== verification/ForwardLaws.thy ===== *)
theory ForwardLaws
  imports Forward
begin

section \<open>Properties of forwarding\<close>

text \<open>
  What a forwarded request can reach, that failover succeeds, that an A/B request is counted once, and what a client can do with its
  connection headers. The loops are treated once, in the locale \<open>attempt_loop\<close>, interpreted for the plain and the A/B path.
\<close>

subsection \<open>What may be chosen\<close>

lemma rr_pick_backends [simp]: "g_Backends (fst (rr_pick g pool)) = g_Backends g"
  by (simp add: rr_pick_def)

lemma pick_backends [simp]:
  "g_Backends (fst (pickHealthy h g skip ap v)) = g_Backends g" "g_Backends (fst (pickAny h g skip ap v)) = g_Backends g"
proof -
  have "g_Backends (fst (pickWith ig h g skip ap v)) = g_Backends g" for ig
    using pickWith_cases [of ig h g skip ap v] by (metis fst_conv rr_pick_backends)
  from this [of False] this [of True]
  show "g_Backends (fst (pickHealthy h g skip ap v)) = g_Backends g" "g_Backends (fst (pickAny h g skip ap v)) = g_Backends g"
    by (simp_all add: pickWith_def)
qed

lemma logPanicOnce_backends [simp]: "g_Backends (fst (logPanicOnce g now)) = g_Backends g"
  by (simp add: logPanicOnce_def)

text \<open>A choice that no backend out of service, no backend tried before and, for a hopped request, no peer can be.\<close>

definition choice_ok :: "bheap \<Rightarrow> RouteGroup \<Rightarrow> baddr list \<Rightarrow> bool \<Rightarrow> baddr \<Rightarrow> bool" where
  "choice_ok h g skip hopped a \<longleftrightarrow> a \<in> set (g_Backends g) \<and> a \<notin> set skip \<and> \<not> b_DockerUnhealthy (h a) \<and> \<not> b_draining (h a) \<and>
     (hopped \<longrightarrow> \<not> b_Learned (h a))"

lemma pickWith_choice: "pickWith ig h g skip (\<not> hopped) v = (g', Returned (Some a)) \<Longrightarrow> choice_ok h g skip hopped a"
  by (drule pickWith_sound(1)) (auto simp: pickable_def choice_ok_def excludedFrom_def split: if_splits)

lemmas pickHealthy_choice = pickWith_choice [of False, unfolded pickWith_def, simplified]
  and pickAny_choice = pickWith_choice [of True, unfolded pickWith_def, simplified]

lemma choice_ok_cong: "g_Backends g = g_Backends g' \<Longrightarrow> choice_ok h g skip hopped a \<longleftrightarrow> choice_ok h g' skip hopped a"
  by (simp add: choice_ok_def)

text \<open>What the loops rely on in a way of choosing: it keeps the members, and what it returns is a good choice.\<close>

definition good_pick :: "(bheap \<Rightarrow> RouteGroup \<Rightarrow> baddr list \<Rightarrow> RouteGroup \<times> baddr option go) \<Rightarrow> bool \<Rightarrow> bool" where
  "good_pick pick hopped \<longleftrightarrow> (\<forall>h g skip. g_Backends (fst (pick h g skip)) = g_Backends g \<and>
     (\<forall>a. snd (pick h g skip) = Returned (Some a) \<longrightarrow> choice_ok h g skip hopped a))"

lemma good_pickI:
  assumes "\<And>h g skip. g_Backends (fst (pick h g skip)) = g_Backends g"
    and "\<And>h g skip g' a. pick h g skip = (g', Returned (Some a)) \<Longrightarrow> choice_ok h g skip hopped a"
  shows "good_pick pick hopped"
  unfolding good_pick_def using assms by (metis prod.collapse)

lemma good_pickHealthy: "good_pick (\<lambda>h g skip. pickHealthy h g skip (\<not> hopped) v) hopped"
  by (rule good_pickI) (simp_all add: pickHealthy_choice)

lemma good_pickAny: "good_pick (\<lambda>h g skip. pickAny h g skip (\<not> hopped) v) hopped"
  by (rule good_pickI) (simp_all add: pickAny_choice)

lemma good_none: "good_pick (\<lambda>h g skip. (g, Returned None)) hopped"
  by (rule good_pickI) auto

definition or_else :: "(bheap \<Rightarrow> RouteGroup \<Rightarrow> baddr list \<Rightarrow> RouteGroup \<times> baddr option go) \<Rightarrow>
    (bheap \<Rightarrow> RouteGroup \<Rightarrow> baddr list \<Rightarrow> RouteGroup \<times> baddr option go) \<Rightarrow> bheap \<Rightarrow> RouteGroup \<Rightarrow> baddr list \<Rightarrow> RouteGroup \<times> baddr option go" where
  "or_else p q h g skip = (case p h g skip of (g1, Returned None) \<Rightarrow> q h g1 skip | r \<Rightarrow> r)"

lemma good_or_else:
  assumes "good_pick p hopped" "good_pick q hopped"
  shows "good_pick (or_else p q) hopped"
proof (rule good_pickI)
  fix h g skip
  obtain g1 r where p: "p h g skip = (g1, r)" by (rule prod.exhaust)
  have b: "g_Backends g1 = g_Backends g" using assms(1) p unfolding good_pick_def by (metis fst_conv)
  have q: "g_Backends (fst (q h g1 skip)) = g_Backends g1" using assms(2) unfolding good_pick_def by blast
  show "g_Backends (fst (or_else p q h g skip)) = g_Backends g"
    using b q by (auto simp: or_else_def p split: go.split option.split)
  show "choice_ok h g skip hopped a" if "or_else p q h g skip = (g', Returned (Some a))" for g' a
  proof (cases "r = Returned None")
    case True
    with that p have "snd (q h g1 skip) = Returned (Some a)" by (simp add: or_else_def)
    then have "choice_ok h g1 skip hopped a" using assms(2) unfolding good_pick_def by blast
    with b show ?thesis by (simp add: choice_ok_def)
  next
    case False
    with that p have "r = Returned (Some a)" by (auto simp: or_else_def split: go.splits option.splits)
    with p assms(1) show ?thesis unfolding good_pick_def by (metis snd_conv)
  qed
qed

definition with_log :: "instant \<Rightarrow> (bheap \<Rightarrow> RouteGroup \<Rightarrow> baddr list \<Rightarrow> RouteGroup \<times> baddr option go) \<Rightarrow>
    bheap \<Rightarrow> RouteGroup \<Rightarrow> baddr list \<Rightarrow> RouteGroup \<times> baddr option go" where
  "with_log now p h g skip = (case p h g skip of (g', Returned (Some a)) \<Rightarrow> (fst (logPanicOnce g' now), Returned (Some a)) | r \<Rightarrow> r)"

lemma good_with_log:
  assumes "good_pick p hopped"
  shows "good_pick (with_log now p) hopped"
proof (rule good_pickI)
  fix h g skip
  obtain g1 r where p: "p h g skip = (g1, r)" by (rule prod.exhaust)
  have b: "g_Backends g1 = g_Backends g" using assms p unfolding good_pick_def by (metis fst_conv)
  show "g_Backends (fst (with_log now p h g skip)) = g_Backends g"
    using b by (simp add: with_log_def p split: go.split option.split)
  show "choice_ok h g skip hopped a" if "with_log now p h g skip = (g', Returned (Some a))" for g' a
  proof -
    from that p have "r = Returned (Some a)" by (auto simp: with_log_def split: go.splits option.splits)
    with p assms show ?thesis unfolding good_pick_def by (metis snd_conv)
  qed
qed

lemma pick_backend_alt:
  "pick_backend env hopped s =
   or_else (\<lambda>h g skip. pickHealthy h g skip (\<not> hopped) []) (with_log (se_now env) (\<lambda>h g skip. pickAny h g skip (\<not> hopped) []))
     (f_heap s) (f_group s) (f_tried s)"
  by (simp add: pick_backend_def or_else_def with_log_def split: prod.split go.split option.split)

lemma abPick_alt:
  "abPick env h g tried (\<not> hopped) own failover =
   (let F = (\<lambda>pick h g skip. if failover = [] then (g, Returned None) else pick h g skip (\<not> hopped) failover)
    in or_else (\<lambda>h g skip. pickHealthy h g skip (\<not> hopped) own)
         (or_else (F pickHealthy)
           (or_else (with_log (se_now env) (\<lambda>h g skip. pickAny h g skip (\<not> hopped) own)) (with_log (se_now env) (F pickAny)))) h g tried)"
  by (simp add: abPick_def or_else_def with_log_def Let_def split: prod.split go.split option.split)

lemma good_pick_backend: "good_pick (\<lambda>h g skip. pick_backend env hopped (s\<lparr>f_heap := h, f_group := g, f_tried := skip\<rparr>)) hopped"
  by (simp add: pick_backend_alt good_or_else good_with_log good_pickHealthy good_pickAny)

lemma good_abPick: "good_pick (\<lambda>h g skip. abPick env h g skip (\<not> hopped) own failover) hopped"
proof -
  have "good_pick (\<lambda>h g skip. if failover = [] then (g, Returned None) else pickHealthy h g skip (\<not> hopped) failover) hopped"
    "good_pick (\<lambda>h g skip. if failover = [] then (g, Returned None) else pickAny h g skip (\<not> hopped) failover) hopped"
    by (cases "failover = []"; simp add: good_none good_pickHealthy good_pickAny)+
  then show ?thesis
    by (simp add: abPick_alt Let_def good_or_else good_with_log good_pickHealthy good_pickAny)
qed

lemma sticky_pinned_choice:
  assumes "sticky_pinned P s = Some a" and "\<not> hopped" and "f_tried s = []"
  shows "choice_ok (f_heap s) (f_group s) (f_tried s) hopped a"
  using assms
  by (auto simp: sticky_pinned_def choice_ok_def healthy_def backendByStickyID_def Let_def find_Some_iff split: if_splits option.splits)

text \<open>Both loops: the pinned backend, or the pick.\<close>

definition pin_or :: "(Backend \<Rightarrow> bool) \<Rightarrow> fwd \<Rightarrow> RouteGroup \<times> baddr option go \<Rightarrow> RouteGroup \<times> baddr option go" where
  "pin_or P s r = (case sticky_pinned P s of Some a \<Rightarrow> (f_group s, Returned (Some a)) | None \<Rightarrow> r)"

lemma pin_or_choice:
  assumes "good_pick pick hopped" and "f_pin s \<noteq> [] \<longrightarrow> \<not> hopped \<and> f_tried s = []"
    and "pin_or P s (pick (f_heap s) (f_group s) (f_tried s)) = (g1, choice)"
  shows "g_Backends g1 = g_Backends (f_group s)" "choice = Returned (Some a) \<Longrightarrow> choice_ok (f_heap s) (f_group s) (f_tried s) hopped a"
proof -
  have g: "g_Backends (fst (pick h g skip)) = g_Backends g" "snd (pick h g skip) = Returned (Some a) \<Longrightarrow> choice_ok h g skip hopped a" for h g skip a
    using assms(1) unfolding good_pick_def by blast+
  show "g_Backends g1 = g_Backends (f_group s)"
    using assms(3) g(1) by (auto simp: pin_or_def split: option.splits) (metis fst_conv g(1))
  assume c: "choice = Returned (Some a)"
  show "choice_ok (f_heap s) (f_group s) (f_tried s) hopped a"
  proof (cases "sticky_pinned P s")
    case None
    with assms(3) c show ?thesis using g(2) by (simp add: pin_or_def)
  next
    case (Some a')
    then have "f_pin s \<noteq> []" by (auto simp: sticky_pinned_def)
    moreover have "a' = a" using Some assms(3) c by (simp add: pin_or_def)
    ultimately show ?thesis using sticky_pinned_choice [OF Some, of hopped] assms(2) by simp
  qed
qed

subsection \<open>The log of a forwarded request\<close>

definition entry_ok :: "baddr list \<Rightarrow> bool \<Rightarrow> string \<Rightarrow> sent \<Rightarrow> bool" where
  "entry_ok bs hopped body e \<longleftrightarrow> sn_to e \<in> set bs \<and> \<not> b_DockerUnhealthy (sn_backend e) \<and> \<not> b_draining (sn_backend e) \<and>
     (hopped \<longrightarrow> \<not> b_Learned (sn_backend e)) \<and> sn_body e = body"

definition replayable :: "string \<Rightarrow> rbody \<Rightarrow> bool" where
  "replayable body bd \<longleftrightarrow> (case bd_getBody bd of Some buf \<Rightarrow> buf = body | None \<Rightarrow> body = [] \<and> bd_rest bd = [])"

definition fwd_inv :: "baddr list \<Rightarrow> bool \<Rightarrow> string \<Rightarrow> bool \<Rightarrow> nat \<Rightarrow> fwd \<Rightarrow> bool" where
  "fwd_inv bs hopped body retryable n s \<longleftrightarrow>
     g_Backends (f_group s) = bs \<and> distinct (map sn_to (f_log s)) \<and> set (map sn_to (f_log s)) \<subseteq> set (f_tried s) \<and>
     (\<forall>e\<in>set (f_log s). entry_ok bs hopped body e) \<and> length (f_log s) \<le> n \<and>
     (f_pin s \<noteq> [] \<longrightarrow> n = 0 \<and> \<not> hopped) \<and> (n = 0 \<longrightarrow> f_tried s = [] \<and> bd_rest (f_body s) = body) \<and>
     (0 < n \<longrightarrow> retryable) \<and> (retryable \<longrightarrow> replayable body (f_body s))"

definition fwd_post :: "baddr list \<Rightarrow> bool \<Rightarrow> string \<Rightarrow> nat \<Rightarrow> fwd \<Rightarrow> bool" where
  "fwd_post bs hopped body m s \<longleftrightarrow> distinct (map sn_to (f_log s)) \<and> length (f_log s) \<le> m \<and> (\<forall>e\<in>set (f_log s). entry_ok bs hopped body e)"

lemma prepareRetryBody_ok:
  assumes "prepareRetryBody bd = (bd1, retryable)" "bd_getBody bd = None" "bd_present bd \<or> bd_rest bd = []"
  shows "bd_rest bd1 = bd_rest bd" "retryable \<Longrightarrow> replayable (bd_rest bd) bd1"
  using assms by (auto simp: prepareRetryBody_def replayable_def Let_def split: if_splits)

lemma rewind_replayable: "replayable body bd \<Longrightarrow> bd_rest (rewindBody bd) = body" "replayable body bd \<Longrightarrow> replayable body (rewindBody bd)"
  by (auto simp: replayable_def rewindBody_def split: option.splits)

lemma consumed_replayable: "replayable body bd \<Longrightarrow> replayable body (consumed bd)"
  by (auto simp: replayable_def consumed_def split: option.splits)

lemma queue_sticky_frame [simp]:
  "f_heap (queue_sticky env hopped s i) = f_heap s" "f_group (queue_sticky env hopped s i) = f_group s"
  "f_tried (queue_sticky env hopped s i) = f_tried s" "f_log (queue_sticky env hopped s i) = f_log s"
  "f_body (queue_sticky env hopped s i) = f_body s" "f_pin (queue_sticky env hopped s i) = f_pin s"
  "f_req (queue_sticky env hopped s i) = f_req s" "f_run (queue_sticky env hopped s i) = f_run s"
  by (simp_all add: queue_sticky_def Let_def)

lemma begin_attempt_frame [simp]:
  "f_heap (begin_attempt env hopped n s a) = f_heap s" "f_group (begin_attempt env hopped n s a) = f_group s"
  "f_tried (begin_attempt env hopped n s a) = a # f_tried s" "f_log (begin_attempt env hopped n s a) = f_log s"
  "f_pin (begin_attempt env hopped n s a) = f_pin s" "f_req (begin_attempt env hopped n s a) = f_req s"
  "f_run (begin_attempt env hopped n s a) = f_run s"
  "f_body (begin_attempt env hopped n s a) = (if 0 < n then rewindBody (f_body s) else f_body s)"
  by (simp_all add: begin_attempt_def Let_def)

lemma interfere_frame [simp]:
  "g_Backends (f_group (interfere env n s)) = g_Backends (f_group s)" "f_tried (interfere env n s) = f_tried s"
  "f_log (interfere env n s) = f_log s" "f_pin (interfere env n s) = f_pin s" "f_body (interfere env n s) = f_body s"
  "f_req (interfere env n s) = f_req s" "f_run (interfere env n s) = f_run s" "f_wr (interfere env n s) = f_wr s"
  by (simp_all add: interfere_def)

definition attempt_entry :: "serve_env \<Rightarrow> bool \<Rightarrow> nat \<Rightarrow> fwd \<Rightarrow> baddr \<Rightarrow> sent" where
  "attempt_entry env stamped n s a =
     \<lparr>sn_to = a, sn_backend = f_heap s a, sn_attempt = n, sn_request = outgoing (f_heap s a) stamped (f_req s), sn_body = bd_rest (f_body s)\<rparr>"

lemma attempt_frame:
  assumes "attempt env stamped ops w n s a = (s1, w1, r)"
  shows "f_group s1 = f_group s" "f_tried s1 = f_tried s" "f_pin s1 = f_pin s" "f_req s1 = f_req s" "f_run s1 = f_run s" "f_wr s1 = f_wr s"
    "f_log s1 = f_log s \<or> f_log s1 = f_log s @ [attempt_entry env stamped n s a]"
    "f_body s1 = f_body s \<or> f_body s1 = consumed (f_body s)"
  using assms by (auto simp: attempt_def attempt_entry_def Let_def split: prod.splits if_splits)

text \<open>An attempt that is well chosen keeps the log in order.\<close>

lemma attempt_log:
  assumes "attempt env stamped ops w n s a = (s1, w1, r)"
    and "distinct (map sn_to (f_log s))" "a \<notin> set (map sn_to (f_log s))" "\<forall>e\<in>set (f_log s). entry_ok bs hopped body e"
    and "choice_ok (f_heap s) g skip hopped a" "g_Backends g = bs" "bd_rest (f_body s) = body"
  shows "distinct (map sn_to (f_log s1))" "\<forall>e\<in>set (f_log s1). entry_ok bs hopped body e"
    "set (map sn_to (f_log s1)) \<subseteq> insert a (set (map sn_to (f_log s)))" "length (f_log s1) \<le> Suc (length (f_log s))"
proof -
  have "entry_ok bs hopped body (attempt_entry env stamped n s a)"
    using assms(5-7) by (simp add: entry_ok_def attempt_entry_def choice_ok_def)
  moreover have "sn_to (attempt_entry env stamped n s a) = a" by (simp add: attempt_entry_def)
  ultimately show "distinct (map sn_to (f_log s1))" "\<forall>e\<in>set (f_log s1). entry_ok bs hopped body e"
    "set (map sn_to (f_log s1)) \<subseteq> insert a (set (map sn_to (f_log s)))" "length (f_log s1) \<le> Suc (length (f_log s))"
    using attempt_frame(7) [OF assms(1)] assms(2-4) by auto
qed

text \<open>The state between the choice of a backend and its attempt.\<close>

definition ready :: "baddr list \<Rightarrow> bool \<Rightarrow> string \<Rightarrow> bool \<Rightarrow> nat \<Rightarrow> fwd \<Rightarrow> baddr \<Rightarrow> bool" where
  "ready bs hopped body retryable n s a \<longleftrightarrow>
     g_Backends (f_group s) = bs \<and> distinct (map sn_to (f_log s)) \<and> set (map sn_to (f_log s)) \<subseteq> set (f_tried s) - {a} \<and> a \<in> set (f_tried s) \<and>
     (\<forall>e\<in>set (f_log s). entry_ok bs hopped body e) \<and> length (f_log s) \<le> n \<and> f_pin s = [] \<and>
     (\<exists>skip. choice_ok (f_heap s) (f_group s) skip hopped a) \<and> bd_rest (f_body s) = body \<and> (retryable \<longrightarrow> replayable body (f_body s))"

lemma ready_begin:
  assumes "fwd_inv bs hopped body retryable n s" and "good_pick pick hopped"
    and "pin_or P (interfere env n s) (pick (f_heap (interfere env n s)) (f_group (interfere env n s)) (f_tried s)) = (g1, Returned (Some a))"
  shows "ready bs hopped body retryable n (begin_attempt env hopped n ((interfere env n s)\<lparr>f_group := g1, f_pin := []\<rparr>) a) a"
proof -
  let ?s0 = "interfere env n s"
  have p: "f_pin ?s0 \<noteq> [] \<longrightarrow> \<not> hopped \<and> f_tried ?s0 = []" using assms(1) by (auto simp: fwd_inv_def)
  have pick: "pin_or P ?s0 (pick (f_heap ?s0) (f_group ?s0) (f_tried ?s0)) = (g1, Returned (Some a))" using assms(3) by simp
  have g: "g_Backends g1 = g_Backends (f_group ?s0)" by (rule pin_or_choice(1) [OF assms(2) p pick])
  have c: "choice_ok (f_heap ?s0) (f_group ?s0) (f_tried ?s0) hopped a" by (rule pin_or_choice(2) [OF assms(2) p pick refl])
  then have "a \<notin> set (f_tried s)" by (simp add: choice_ok_def)
  moreover have "choice_ok (f_heap ?s0) g1 (f_tried s) hopped a" using c g by (simp add: choice_ok_def)
  moreover have "bd_rest (if 0 < n then rewindBody (f_body s) else f_body s) = body"
    using assms(1) by (auto simp: fwd_inv_def rewind_replayable)
  ultimately show ?thesis using assms(1) g by (auto simp: ready_def fwd_inv_def rewind_replayable)
qed

lemma ready_attempt:
  assumes "ready bs hopped body retryable n s a" and "attempt env stamped ops w n s a = (s1, w1, r)"
  shows "fwd_post bs hopped body (Suc n) s1" "retryable \<Longrightarrow> fwd_inv bs hopped body retryable (Suc n) s1"
proof -
  obtain skip where c: "choice_ok (f_heap s) (f_group s) skip hopped a" using assms(1) by (auto simp: ready_def)
  note log = attempt_log [OF assms(2) _ _ _ c]
  have pre: "distinct (map sn_to (f_log s))" "a \<notin> set (map sn_to (f_log s))" "\<forall>e\<in>set (f_log s). entry_ok bs hopped body e"
    "g_Backends (f_group s) = bs" "bd_rest (f_body s) = body" "length (f_log s) \<le> n"
    using assms(1) by (auto simp: ready_def)
  note L = log [OF pre(1-5)]
  show "fwd_post bs hopped body (Suc n) s1" using L(1,2,4) pre(6) by (simp add: fwd_post_def)
  assume r: "retryable"
  have "replayable body (f_body s1)"
    using attempt_frame(8) [OF assms(2)] assms(1) r consumed_replayable by (auto simp: ready_def)
  moreover have "set (map sn_to (f_log s1)) \<subseteq> set (f_tried s1)"
    using L(3) assms(1) attempt_frame(2) [OF assms(2)] by (auto simp: ready_def)
  ultimately show "fwd_inv bs hopped body retryable (Suc n) s1"
    using L(1,2,4) pre assms(1) r attempt_frame [OF assms(2)] by (simp add: fwd_inv_def ready_def)
qed

subsection \<open>Loops of attempts\<close>

text \<open>What the loop over attempts gives for any step that keeps an invariant while it asks for another attempt.\<close>

locale attempt_loop =
  fixes step :: "nat \<Rightarrow> 's \<Rightarrow> 's \<times> fwd_status" and inv :: "nat \<Rightarrow> 's \<Rightarrow> bool" and post :: "fwd_status \<Rightarrow> 's \<Rightarrow> bool" and N :: nat
  assumes step_next: "n < N \<Longrightarrow> inv n s \<Longrightarrow> step n s = (s1, Next) \<Longrightarrow> inv (Suc n) s1"
    and step_stop: "n < N \<Longrightarrow> inv n s \<Longrightarrow> step n s = (s1, st) \<Longrightarrow> st \<noteq> Next \<Longrightarrow> post st s1"
    and inv_post: "n \<le> N \<Longrightarrow> inv n s \<Longrightarrow> post Break s"
begin

lemma loop_post: "inv n s \<Longrightarrow> n + k \<le> N \<Longrightarrow> post (snd (retry_loop step n k s)) (fst (retry_loop step n k s))"
proof (induction k arbitrary: n s)
  case 0
  then show ?case using inv_post by simp
next
  case (Suc k)
  obtain s1 st where s: "step n s = (s1, st)" by (rule prod.exhaust)
  show ?case
  proof (cases "st = Next")
    case True
    then show ?thesis using Suc.IH [of "Suc n" s1] Suc.prems step_next [of n s s1] s by simp
  next
    case False
    then show ?thesis using step_stop [of n s s1 st] Suc.prems s by (cases st) simp_all
  qed
qed

lemma loop_from_start: "inv 0 s \<Longrightarrow> post (snd (retry_loop step 0 N s)) (fst (retry_loop step 0 N s))"
  using loop_post [of 0 s N] by simp

end

lemma fwd_inv_post: "fwd_inv bs hopped body retryable n s \<Longrightarrow> n \<le> m \<Longrightarrow> fwd_post bs hopped body m s"
  by (simp add: fwd_inv_def fwd_post_def)

lemma fwd_post_mono: "fwd_post bs hopped body n s \<Longrightarrow> n \<le> m \<Longrightarrow> fwd_post bs hopped body m s"
  by (simp add: fwd_post_def)

lemma fwd_post_log: "f_log s = f_log s' \<Longrightarrow> fwd_post bs hopped body m s \<longleftrightarrow> fwd_post bs hopped body m s'"
  by (simp add: fwd_post_def)

lemma fwd_inv_wr [simp]: "fwd_inv bs hopped body retryable n (s\<lparr>f_wr := w\<rparr>) \<longleftrightarrow> fwd_inv bs hopped body retryable n s"
  by (simp add: fwd_inv_def)

lemma fwd_inv_run [simp]: "fwd_inv bs hopped body retryable n (s\<lparr>f_run := u\<rparr>) \<longleftrightarrow> fwd_inv bs hopped body retryable n s"
  by (simp add: fwd_inv_def)

lemma serve_log [simp]: "f_log (serveBodyNotReplayable s reqHost) = f_log s" "f_log (serve503 s reqHost) = f_log s"
  "f_heap (serve503 s reqHost) = f_heap s" "f_group (serve503 s reqHost) = f_group s"
  by (simp_all add: serveBodyNotReplayable_def serve503_def)

lemma proxy_step_cases:
  assumes "proxy_step env reqHost hopped retryable n s = (s', st)" "fwd_inv bs hopped body retryable n s"
  shows "(st = Next \<longrightarrow> fwd_inv bs hopped body retryable (Suc n) s') \<and> fwd_post bs hopped body (Suc n) s'"
proof -
  let ?s0 = "interfere env n s"
  define pick where "pick = (\<lambda>h g skip. pick_backend env hopped (?s0\<lparr>f_heap := h, f_group := g, f_tried := skip\<rparr>))"
  have gp: "good_pick pick hopped" unfolding pick_def by (rule good_pick_backend)
  obtain g1 choice where c: "pin_or (\<lambda>b. True) ?s0 (pick (f_heap ?s0) (f_group ?s0) (f_tried s)) = (g1, choice)" by (rule prod.exhaust)
  have s0: "?s0\<lparr>f_heap := f_heap ?s0, f_group := f_group ?s0, f_tried := f_tried s\<rparr> = ?s0" by (simp add: interfere_def)
  have step: "proxy_step env reqHost hopped retryable n s =
     (let s1 = ?s0\<lparr>f_group := g1, f_pin := []\<rparr>
      in case choice of Panicked \<Rightarrow> (s1, Panic) | Returned None \<Rightarrow> (s1, Break)
       | Returned (Some a) \<Rightarrow>
           (let s2 = begin_attempt env hopped n s1 a; (s3, w, r) = attempt env False plain_ops (f_wr s2) n s2 a; s4 = s3\<lparr>f_wr := w\<rparr>
            in case r of TryPanicked \<Rightarrow> (s4, Panic) | TryDone \<Rightarrow> (s4, Done)
               | TryFailed \<Rightarrow> if retryable then (s4, Next) else (serveBodyNotReplayable s4 reqHost, Done)))"
    using c unfolding proxy_step_def pin_or_def pick_def s0 Let_def by (simp only: prod.case)
  have keep: "fwd_post bs hopped body (Suc n) (?s0\<lparr>f_group := g1, f_pin := []\<rparr>)"
    using assms(2) by (simp add: fwd_inv_def fwd_post_def)
  show ?thesis
  proof (cases "\<exists>a. choice = Returned (Some a)")
    case True
    then obtain a where ch: "choice = Returned (Some a)" by blast
    let ?s2 = "begin_attempt env hopped n (?s0\<lparr>f_group := g1, f_pin := []\<rparr>) a"
    obtain s3 w r where at: "attempt env False plain_ops (f_wr ?s2) n ?s2 a = (s3, w, r)" by (metis prod.exhaust)
    have "ready bs hopped body retryable n ?s2 a" by (rule ready_begin [OF assms(2) gp c [unfolded ch]])
    note R = ready_attempt [OF this at]
    show ?thesis using assms(1) R unfolding step by (auto simp: ch at Let_def fwd_post_log [of "s3\<lparr>f_wr := w\<rparr>" s3]
          fwd_post_log [of "serveBodyNotReplayable (s3\<lparr>f_wr := w\<rparr>) reqHost" s3] split: try_result.splits if_splits)
  next
    case False
    then have "choice = Panicked \<or> choice = Returned None" by (metis go.exhaust option.exhaust)
    then show ?thesis using assms(1) keep unfolding step by (auto simp: Let_def)
  qed
qed

interpretation plain_path: attempt_loop "proxy_step env reqHost hopped retryable" "fwd_inv bs hopped body retryable" "\<lambda>_. fwd_post bs hopped body maxRetries" maxRetries
proof unfold_locales
  show "fwd_inv bs hopped body retryable (Suc n) s1"
    if "fwd_inv bs hopped body retryable n s" "proxy_step env reqHost hopped retryable n s = (s1, Next)" for n s s1
    using proxy_step_cases [OF that(2,1)] by simp
  show "fwd_post bs hopped body maxRetries s1"
    if "n < maxRetries" "fwd_inv bs hopped body retryable n s" "proxy_step env reqHost hopped retryable n s = (s1, st)" for n s s1 st
    using proxy_step_cases [OF that(3,2)] that(1) fwd_post_mono [of bs hopped body "Suc n" s1 maxRetries] by simp
  show "fwd_post bs hopped body maxRetries s" if "n \<le> maxRetries" "fwd_inv bs hopped body retryable n s" for n s
    using fwd_inv_post that by blast
qed

text \<open>A forwarding starts with nothing sent, a body that has not been read, and no pin for a hopped request.\<close>

definition fwd_start :: "bool \<Rightarrow> fwd \<Rightarrow> bool" where
  "fwd_start hopped s \<longleftrightarrow> f_log s = [] \<and> bd_getBody (f_body s) = None \<and> (bd_present (f_body s) \<or> bd_rest (f_body s) = []) \<and>
     (hopped \<longrightarrow> f_pin s = [])"

lemma fwd_start_inv:
  assumes "fwd_start hopped s" "prepareRetryBody (f_body s) = (bd, retryable)"
  shows "fwd_inv (g_Backends (f_group s)) hopped (bd_rest (f_body s)) retryable 0 (s\<lparr>f_body := bd, f_tried := []\<rparr>)"
  using assms prepareRetryBody_ok [OF assms(2)] by (auto simp: fwd_start_def fwd_inv_def)

lemma proxyToGroup_log:
  assumes "fwd_start hopped s"
  shows "fwd_post (g_Backends (f_group s)) hopped (bd_rest (f_body s)) maxRetries (fst (proxyToGroup env reqHost hopped s))"
proof -
  obtain bd rt where p: "prepareRetryBody (f_body s) = (bd, rt)" by (rule prod.exhaust)
  obtain s1 st where l: "retry_loop (proxy_step env reqHost hopped rt) 0 maxRetries (s\<lparr>f_body := bd, f_tried := []\<rparr>) = (s1, st)" by (rule prod.exhaust)
  have "fwd_post (g_Backends (f_group s)) hopped (bd_rest (f_body s)) maxRetries s1"
    using plain_path.loop_from_start [OF fwd_start_inv [OF assms p], of env reqHost] l by simp
  then show ?thesis using p l by (auto simp: proxyToGroup_def fwd_post_log [of "serve503 s1 reqHost" s1] split: fwd_status.split)
qed

subsection \<open>The A/B loop\<close>

lemma set_request_header_frame [simp]:
  "f_heap (set_request_header s h) = f_heap s" "f_group (set_request_header s h) = f_group s" "f_tried (set_request_header s h) = f_tried s"
  "f_log (set_request_header s h) = f_log s" "f_pin (set_request_header s h) = f_pin s" "f_body (set_request_header s h) = f_body s"
  "f_wr (set_request_header s h) = f_wr s" "f_run (set_request_header s h) = f_run s" "rq_Header (f_req (set_request_header s h)) = h"
  by (simp_all add: set_request_header_def)

lemma ready_header [simp]: "ready bs hopped body retryable n (set_request_header s h) a \<longleftrightarrow> ready bs hopped body retryable n s a"
  by (simp add: ready_def)

lemma hop_error_frame [simp]: "f_log (hop_error b s) = f_log s" "f_heap (hop_error b s) = f_heap s"
  "fwd_inv bs hopped body retryable m (hop_error b s) \<longleftrightarrow> fwd_inv bs hopped body retryable m s"
  by (simp_all add: hop_error_def)

lemma record_transport_log [simp]: "f_log (record_transport env d s) = f_log s" "f_heap (record_transport env d s) = f_heap s"
  by (simp_all add: record_transport_def)

lemma replay_404_log [simp]: "f_log (replay_404 s h) = f_log s"
  by (simp add: replay_404_def Let_def)

text \<open>The fallback's own attempt, on a backend that has not been tried.\<close>

lemma abStaticFallback_post:
  assumes "abStaticFallback env hopped d n s h404 = (s', st)" and "fwd_inv bs hopped body True (Suc n) s"
  shows "fwd_post bs hopped body (Suc (Suc n)) s' \<and> st \<noteq> Next"
proof -
  let ?o = "abOther (d_variant d)"
  let ?pick = "or_else (\<lambda>h g skip. pickHealthy h g skip (\<not> hopped) ?o) (\<lambda>h g skip. pickAny h g skip (\<not> hopped) ?o)"
  obtain g1 choice where c: "?pick (f_heap s) (f_group s) (f_tried s) = (g1, choice)" by (rule prod.exhaust)
  have gp: "good_pick ?pick hopped" by (simp add: good_or_else good_pickHealthy good_pickAny)
  have step: "abStaticFallback env hopped d n s h404 =
     (let s1 = s\<lparr>f_group := g1\<rparr>
      in case choice of Panicked \<Rightarrow> (s1, Panic) | Returned None \<Rightarrow> (replay_404 s1 h404, Done)
       | Returned (Some a) \<Rightarrow>
             (let b = f_heap s1 a;
                  s2 = s1\<lparr>f_run := addStaticFallback (f_run s1), f_wr := (f_wr s1)\<lparr>wr_backend := b_URL b\<rparr>\<rparr>;
                  s3 = set_request_header s2 (h_del (h_set (rq_Header (f_req s2)) abVariantHeader (variantName b)) abFailoverHeader);
                  s4 = s3\<lparr>f_body := rewindBody (f_body s3)\<rparr>;
                  (s5, w, r) = attempt env True plain_ops (f_wr s4) (Suc n) s4 a;
                  s6 = s5\<lparr>f_wr := w\<rparr>
              in case r of TryPanicked \<Rightarrow> (s6, Panic) | TryDone \<Rightarrow> (s6, Done) | TryFailed \<Rightarrow> (replay_404 s6 h404, Done)))"
    using c unfolding abStaticFallback_def or_else_def Let_def by (simp only: prod.case)
  have keep: "fwd_post bs hopped body (Suc (Suc n)) s" using assms(2) fwd_inv_post by fastforce
  show ?thesis
  proof (cases "\<exists>a. choice = Returned (Some a)")
    case True
    then obtain a where ch: "choice = Returned (Some a)" by blast
    define s4 where "s4 = (let b = f_heap s a; s2 = s\<lparr>f_group := g1, f_run := addStaticFallback (f_run s), f_wr := (f_wr s)\<lparr>wr_backend := b_URL b\<rparr>\<rparr>;
        s3 = set_request_header s2 (h_del (h_set (rq_Header (f_req s2)) abVariantHeader (variantName b)) abFailoverHeader)
        in s3\<lparr>f_body := rewindBody (f_body s3)\<rparr>)"
    have f4: "f_log s4 = f_log s" "f_heap s4 = f_heap s" "f_body s4 = rewindBody (f_body s)" by (simp_all add: s4_def Let_def)
    obtain s5 w r where at: "attempt env True plain_ops (f_wr s4) (Suc n) s4 a = (s5, w, r)" by (metis prod.exhaust)
    have co: "choice_ok (f_heap s) (f_group s) (f_tried s) hopped a"
      using gp c ch unfolding good_pick_def by (metis snd_conv)
    then have "a \<notin> set (map sn_to (f_log s4))" using assms(2) f4 by (auto simp: fwd_inv_def choice_ok_def)
    moreover have "distinct (map sn_to (f_log s4))" "\<forall>e\<in>set (f_log s4). entry_ok bs hopped body e" "g_Backends (f_group s) = bs"
      "length (f_log s4) \<le> Suc n" using assms(2) f4 by (simp_all add: fwd_inv_def)
    moreover have "bd_rest (f_body s4) = body" using assms(2) f4 rewind_replayable by (simp add: fwd_inv_def)
    ultimately have "fwd_post bs hopped body (Suc (Suc n)) s5"
      using attempt_log [OF at, of bs hopped body "f_group s" "f_tried s"] co f4 by (simp add: fwd_post_def)
    moreover have "abStaticFallback env hopped d n s h404 =
        (case r of TryPanicked \<Rightarrow> (s5\<lparr>f_wr := w\<rparr>, Panic) | TryDone \<Rightarrow> (s5\<lparr>f_wr := w\<rparr>, Done) | TryFailed \<Rightarrow> (replay_404 (s5\<lparr>f_wr := w\<rparr>) h404, Done))"
      using at unfolding step ch Let_def s4_def by simp
    ultimately show ?thesis using assms(1) by (auto simp: fwd_post_def split: try_result.splits)
  next
    case False
    then have "choice = Panicked \<or> choice = Returned None" by (metis go.exhaust option.exhaust)
    then show ?thesis using assms(1) keep unfolding step by (auto simp: Let_def fwd_post_def)
  qed
qed

lemma ab_static_attempt_post:
  assumes "ab_static_attempt env hopped d n s a = (s', st)" and "ready bs hopped body True n s a"
  shows "(st = Next \<longrightarrow> fwd_inv bs hopped body True (Suc n) s') \<and> fwd_post bs hopped body (Suc (Suc n)) s'"
proof -
  let ?w0 = "\<lparr>st_under = f_wr s, st_h = [], st_forwarded = False, st_swallowed = False\<rparr>"
  obtain s1 stw r where at: "attempt env True static_ops ?w0 n s a = (s1, stw, r)" by (metis prod.exhaust)
  have inv: "fwd_inv bs hopped body True (Suc n) s1" by (rule ready_attempt(2) [OF assms(2) at TrueI])
  then have post: "fwd_post bs hopped body (Suc (Suc n)) s1" using fwd_inv_post by fastforce
  show ?thesis
  proof (cases "r = TryDone \<and> st_swallowed stw")
    case True
    then have "abStaticFallback env hopped d n (s1\<lparr>f_wr := st_under stw\<rparr>) (st_h stw) = (s', st)"
      using assms(1) at by (simp add: ab_static_attempt_def Let_def)
    from abStaticFallback_post [OF this] inv show ?thesis by simp
  next
    case False
    then show ?thesis using assms(1) inv post
      by (auto simp: ab_static_attempt_def Let_def at fwd_post_def split: try_result.splits if_splits)
  qed
qed

lemma ab_plain_attempt_post:
  assumes "ab_plain_attempt env reqHost retryable d n s a = (s', st)" and "ready bs hopped body retryable n s a"
  shows "(st = Next \<longrightarrow> fwd_inv bs hopped body retryable (Suc n) s') \<and> fwd_post bs hopped body (Suc (Suc n)) s'"
proof -
  obtain s1 w r where at: "attempt env True plain_ops (f_wr s) n s a = (s1, w, r)" by (metis prod.exhaust)
  have "fwd_post bs hopped body (Suc (Suc n)) s1" using ready_attempt(1) [OF assms(2) at] fwd_post_mono by fastforce
  then show ?thesis using assms(1) ready_attempt(2) [OF assms(2) at]
    by (auto simp: ab_plain_attempt_def Let_def at fwd_post_def split: try_result.splits if_splits)
qed

lemma ab_step_cases:
  assumes "ab_step env reqHost hopped retryable staticRetry d n s = (s', st)" "fwd_inv bs hopped body retryable n s"
    and "staticRetry \<longrightarrow> retryable"
  shows "(st = Next \<longrightarrow> fwd_inv bs hopped body retryable (Suc n) s') \<and> fwd_post bs hopped body (Suc (Suc n)) s'"
proof -
  let ?s0 = "interfere env n s" and ?P = "\<lambda>b. variantName b = d_variant d"
  let ?pick = "\<lambda>h g skip. abPick env h g skip (\<not> hopped) (d_variant d) (d_failover d)"
  obtain g1 choice where c: "pin_or ?P ?s0 (?pick (f_heap ?s0) (f_group ?s0) (f_tried s)) = (g1, choice)" by (rule prod.exhaust)
  have step: "ab_step env reqHost hopped retryable staticRetry d n s =
     (let s1 = ?s0\<lparr>f_group := g1, f_pin := []\<rparr>
      in case choice of Panicked \<Rightarrow> (s1, Panic) | Returned None \<Rightarrow> (s1, Break)
       | Returned (Some a) \<Rightarrow>
             (let s2 = begin_attempt env hopped n s1 a;
                  s3 = set_request_header s2 (stamp_variant d (f_heap s2 a) (rq_Header (f_req s2)))
              in if staticRetry then ab_static_attempt env hopped d n s3 a
                 else ab_plain_attempt env reqHost retryable d n s3 a))"
    using c unfolding ab_step_def pin_or_def Let_def interfere_frame by (simp only: prod.case)
  have keep: "fwd_post bs hopped body (Suc (Suc n)) (?s0\<lparr>f_group := g1, f_pin := []\<rparr>)"
    using assms(2) by (simp add: fwd_inv_def fwd_post_def)
  show ?thesis
  proof (cases "\<exists>a. choice = Returned (Some a)")
    case True
    then obtain a where ch: "choice = Returned (Some a)" by blast
    let ?s2 = "begin_attempt env hopped n (?s0\<lparr>f_group := g1, f_pin := []\<rparr>) a"
    let ?s3 = "set_request_header ?s2 (stamp_variant d (f_heap ?s2 a) (rq_Header (f_req ?s2)))"
    have "ready bs hopped body retryable n ?s2 a" by (rule ready_begin [OF assms(2) good_abPick c [unfolded ch]])
    then have R: "ready bs hopped body retryable n ?s3 a" by simp
    have s': "(if staticRetry then ab_static_attempt env hopped d n ?s3 a else ab_plain_attempt env reqHost retryable d n ?s3 a) = (s', st)"
      using assms(1) unfolding step ch by (simp add: Let_def)
    show ?thesis
    proof (cases staticRetry)
      case True
      with s' R assms(3) ab_static_attempt_post [of env hopped d n ?s3 a s' st bs body] show ?thesis by simp
    next
      case False
      with s' R ab_plain_attempt_post [of env reqHost retryable d n ?s3 a s' st bs hopped body] show ?thesis by simp
    qed
  next
    case False
    then have "choice = Panicked \<or> choice = Returned None" by (metis go.exhaust option.exhaust)
    then show ?thesis using assms(1) keep unfolding step by (auto simp: Let_def)
  qed
qed

interpretation ab_path: attempt_loop "ab_step env reqHost hopped retryable (retryable \<and> st) d" "fwd_inv bs hopped body retryable"
  "\<lambda>_. fwd_post bs hopped body (Suc maxRetries)" maxRetries
proof unfold_locales
  show "fwd_inv bs hopped body retryable (Suc n) s1"
    if "fwd_inv bs hopped body retryable n s" "ab_step env reqHost hopped retryable (retryable \<and> st) d n s = (s1, Next)" for n s s1
    using ab_step_cases [OF that(2,1)] by simp
  show "fwd_post bs hopped body (Suc maxRetries) s1"
    if "n < maxRetries" "fwd_inv bs hopped body retryable n s" "ab_step env reqHost hopped retryable (retryable \<and> st) d n s = (s1, r)" for n s s1 r
    using ab_step_cases [OF that(3,2)] that(1) fwd_post_mono [of bs hopped body "Suc (Suc n)" s1 "Suc maxRetries"] by simp
  show "fwd_post bs hopped body (Suc maxRetries) s" if "n \<le> maxRetries" "fwd_inv bs hopped body retryable n s" for n s
    using fwd_inv_post that by (metis le_SucI)
qed

lemma abProxyToGroup_log:
  assumes "fwd_start hopped s"
  shows "fwd_post (g_Backends (f_group s)) hopped (bd_rest (f_body s)) (Suc maxRetries) (fst (abProxyToGroup env reqHost hopped d s))"
proof -
  obtain bd rt where p: "prepareRetryBody (f_body s) = (bd, rt)" by (rule prod.exhaust)
  let ?sr = "d_static d \<and> (rq_Method (f_req s) = ''GET'' \<or> rq_Method (f_req s) = ''HEAD'') \<and> hasVariant (f_heap s) (f_group s) (abOther (d_variant d))"
  let ?s = "s\<lparr>f_body := bd, f_tried := [], f_wr := (f_wr s)\<lparr>wr_status := 0\<rparr>\<rparr>"
  obtain s1 st where l: "retry_loop (ab_step env reqHost hopped rt (rt \<and> ?sr) d) 0 maxRetries ?s = (s1, st)" by (rule prod.exhaust)
  have "fwd_inv (g_Backends (f_group s)) hopped (bd_rest (f_body s)) rt 0 ?s" using fwd_start_inv [OF assms p] by (simp add: fwd_inv_def)
  then have "fwd_post (g_Backends (f_group s)) hopped (bd_rest (f_body s)) (Suc maxRetries) s1"
    using ab_path.loop_from_start [of "g_Backends (f_group s)" hopped "bd_rest (f_body s)" rt ?s env reqHost ?sr d] l by simp
  then show ?thesis using p l
    by (auto simp: abProxyToGroup_def fwd_post_def split: fwd_status.split list.split)
qed

text \<open>
  (C27) What a request can reach, over all retries and whatever probes, drains and other requests do in between: no backend gets it twice,
  a plain route tries at most three backends and an A/B route one more (the static fallback), each of them a member of the route that, when it was chosen, was
  neither draining nor unhealthy for Docker, never a peer if a peer forwarded the request, and every
  one of them is sent the complete request body.
\<close>

theorem forwarding_sound:
  assumes "f_log s = []" and "bd_getBody (f_body s) = None" and "bd_present (f_body s) \<or> bd_rest (f_body s) = []" and "hopped \<longrightarrow> f_pin s = []"
    and "s' \<in> {fst (proxyToGroup env reqHost hopped s), fst (abProxyToGroup env reqHost hopped d s)}"
  shows "distinct (map sn_to (f_log s')) \<and> length (f_log s') \<le> maxRetries + 1 \<and>
    (s' = fst (proxyToGroup env reqHost hopped s) \<longrightarrow> length (f_log s') \<le> maxRetries) \<and>
    (\<forall>e\<in>set (f_log s'). sn_to e \<in> set (g_Backends (f_group s)) \<and> \<not> b_DockerUnhealthy (sn_backend e) \<and> \<not> b_draining (sn_backend e) \<and>
       (hopped \<longrightarrow> \<not> b_Learned (sn_backend e)) \<and> sn_body e = bd_rest (f_body s))"
proof -
  have s: "fwd_start hopped s" using assms(1-4) by (simp add: fwd_start_def)
  have "fwd_post (g_Backends (f_group s)) hopped (bd_rest (f_body s)) (Suc maxRetries) s'"
    using assms(5) fwd_post_mono [OF proxyToGroup_log [OF s, of env reqHost], of "Suc maxRetries"] abProxyToGroup_log [OF s, of env reqHost d] by auto
  moreover have "s' = fst (proxyToGroup env reqHost hopped s) \<longrightarrow> length (f_log s') \<le> maxRetries"
    using proxyToGroup_log [OF s, of env reqHost] by (auto simp: fwd_post_def)
  ultimately show ?thesis by (auto simp: fwd_post_def entry_ok_def)
qed

definition ex_fwd_env :: serve_env where
  "ex_fwd_env = \<lparr>se_sha = (\<lambda>s. s), se_now = 0, se_latency = 0, se_flags = (\<lambda>n a. None), se_ticks = (\<lambda>n. 0),
     se_roundTrip = (\<lambda>n a rq body. if a = 1 then \<lparr>rt_info = [], rt_final = RTError False\<rparr>
                                 else \<lparr>rt_info = [], rt_final = RTResponse 200 [] [''ok''] True\<rparr>)\<rparr>"

definition ex_fwd :: fwd where
  "ex_fwd = \<lparr>f_heap = (\<lambda>a. makeBackend (\<lambda>s. s) (if a = 1 then ''http://a'' else ''http://b'') 1 [] [] ''h''),
     f_group = zeroGroup\<lparr>g_Host := ''h'', g_Backends := [1, 2]\<rparr>,
     f_wr = new_wr [] None,
     f_req = \<lparr>rq_Method = ''POST'', rq_Host = ''h'', rq_Path = ''/x'', rq_RawQuery = [], rq_Header = [], rq_RemoteAddr = ''9.9.9.9:1''\<rparr>,
     f_body = \<lparr>bd_present = True, bd_length = 3, bd_rest = ''abc'', bd_fails = False, bd_getBody = None\<rparr>,
     f_tried = [], f_pin = [], f_run = newABRun [] [] 0, f_log = []\<rparr>"

theorem forwarding_sound_witness:
  "fwd_start False ex_fwd \<and> distinct (map sn_to (f_log (fst (proxyToGroup ex_fwd_env ''h'' False ex_fwd)))) \<and>
   list_all (\<lambda>e. sn_to e \<in> {1, 2} \<and> sn_body e = ''abc'') (f_log (fst (proxyToGroup ex_fwd_env ''h'' False ex_fwd)))"
  using forwarding_sound [of ex_fwd False "fst (proxyToGroup ex_fwd_env ''h'' False ex_fwd)" ex_fwd_env "''h''"]
  by (auto simp: ex_fwd_def fwd_start_def list_all_iff)

subsection \<open>Failover succeeds\<close>

lemma unat_add_le: "unat (a + b :: 64 word) \<le> unat a + unat b"
  by (simp add: unat_word_ariths)

lemma pickWith_cursor: "unat (g_cursor (fst (pickWith ig h g skip ap v))) \<le> Suc (unat (g_cursor g))"
proof -
  have "unat (g_cursor (fst (rr_pick g pool))) \<le> Suc (unat (g_cursor g))" for pool
    using unat_add_le [of "g_cursor g" 1] by (simp add: rr_pick_def)
  then show ?thesis using pickWith_cases [of ig h g skip ap v] by (metis fst_conv le_SucI order_refl)
qed

text \<open>A backend that may be used in panic mode keeps the choice from running dry.\<close>

lemma pick_backend_total:
  assumes "unat (g_cursor (f_group s)) < 2 ^ 63" and "a \<in> set (g_Backends (f_group s))" "a \<notin> set (f_tried s)"
    and "\<not> b_DockerUnhealthy (f_heap s a)" "\<not> b_draining (f_heap s a)" "b_Learned (f_heap s a) \<longrightarrow> \<not> hopped"
  shows "\<exists>g' a'. pick_backend env hopped s = (g', Returned (Some a')) \<and> unat (g_cursor g') \<le> Suc (unat (g_cursor (f_group s)))"
proof -
  let ?p = "\<lambda>ig. pickWith ig (f_heap s) (f_group s) (f_tried s) (\<not> hopped) []"
  obtain g1 r1 where p1: "?p False = (g1, r1)" by (rule prod.exhaust)
  obtain g2 r2 where p2: "?p True = (g2, r2)" by (rule prod.exhaust)
  have "r1 \<noteq> Panicked" "r2 \<noteq> Panicked" using pickWith_no_panic [OF assms(1)] p1 p2 by (metis snd_conv)+
  moreover have "r2 \<noteq> Returned None"
  proof
    assume "r2 = Returned None"
    with p2 pickWith_None [of True "f_heap s" "f_group s" "f_tried s" "\<not> hopped" "[]" g2 a]
    show False using assms by (simp add: pickable_def inVariant_def excludedFrom_def)
  qed
  ultimately obtain a2 where r2: "r2 = Returned (Some a2)" by (metis go.exhaust option.exhaust)
  have c: "unat (g_cursor g1) \<le> Suc (unat (g_cursor (f_group s)))" "unat (g_cursor g2) \<le> Suc (unat (g_cursor (f_group s)))"
    using pickWith_cursor p1 p2 by (metis fst_conv)+
  show ?thesis
  proof (cases "r1 = Returned None")
    case True
    then have "g1 = f_group s" using pickWith_None p1 by blast
    with True p1 p2 r2 c show ?thesis by (simp add: pick_backend_def pickWith_def logPanicOnce_def)
  next
    case False
    then obtain a1 where "r1 = Returned (Some a1)" using \<open>r1 \<noteq> Panicked\<close> by (metis go.exhaust option.exhaust)
    with p1 c show ?thesis by (simp add: pick_backend_def pickWith_def)
  qed
qed

text \<open>A backend that answers every request in full, and one that answers or fails cleanly.\<close>

definition full_answer :: "round_trip \<Rightarrow> bool" where
  "full_answer rt \<longleftrightarrow> rt_info rt = [] \<and> (case rt_final rt of RTResponse _ _ _ whole \<Rightarrow> whole | _ \<Rightarrow> False)"

definition clean :: "round_trip \<Rightarrow> bool" where
  "clean rt \<longleftrightarrow> full_answer rt \<or> rt = \<lparr>rt_info = [], rt_final = RTError False\<rparr>"

lemma tryProxy_clean:
  assumes "clean rt" and "b_proxy b \<noteq> None"
  shows "(full_answer rt \<and> (\<exists>code h chunks. rt_final rt = RTResponse code h chunks True \<and>
            tryProxy plain_ops w b rt = (send_response plain_ops w code h chunks, b, TryDone))) \<or>
         (\<not> full_answer rt \<and> tryProxy plain_ops w b rt = (w, markHealthy b False, TryFailed))"
proof (cases "full_answer rt")
  case True
  then obtain code h chunks where "rt_info rt = []" "rt_final rt = RTResponse code h chunks True"
    by (auto simp: full_answer_def split: final.splits)
  with True assms(2) show ?thesis by (auto simp: tryProxy_def reverse_proxy_def wroteHeader_def)
next
  case False
  with assms(1) have "rt = \<lparr>rt_info = [], rt_final = RTError False\<rparr>" by (simp add: clean_def)
  with False assms(2) show ?thesis by (auto simp: tryProxy_def reverse_proxy_def wroteHeader_def newBackendErrorHandler_def)
qed

lemma h_index_set: "h_index (h_set h k v) k' = (if k' = canonicalKey k then [v] else h_index h k')"
  by (simp add: h_index_def h_set_def)

lemma canonical_peer [simp]: "canonicalKey PeerHopHeader = PeerHopHeader" "canonicalKey PeerAuthHeader = PeerAuthHeader"
  by code_simp+

lemma connection_not_peer [simp]: "''Connection'' \<noteq> PeerHopHeader" "''Connection'' \<noteq> PeerAuthHeader"
  by (simp_all add: PeerHopHeader_def PeerAuthHeader_def)

lemma director_connection: "h_index (rq_Header (apply_director b st rq)) ''Connection'' = h_index (rq_Header rq) ''Connection''"
  by (simp add: apply_director_def rewriteRequestURL_def Let_def h_index_set split: option.split director.split)

lemma no_connection_upgrade_ok: "h_index (rq_Header rq) ''Connection'' = [] \<Longrightarrow> upgrade_ok b st rq"
  by (simp add: upgrade_ok_def upgradeType_def director_connection values_contain_token_def is_print_def)

lemma retry_loop_done:
  assumes step: "\<And>n s. n < N \<Longrightarrow> J n s \<Longrightarrow> \<exists>s1. (step n s = (s1, Next) \<and> J (Suc n) s1) \<or> (step n s = (s1, Done) \<and> post s1)"
    and stuck: "\<And>s. \<not> J N s"
  shows "J n s \<Longrightarrow> n + k = N \<Longrightarrow> \<exists>s1. retry_loop step n k s = (s1, Done) \<and> post s1"
proof (induction k arbitrary: n s)
  case 0
  then show ?case using stuck by simp
next
  case (Suc k)
  then obtain s1 where "(step n s = (s1, Next) \<and> J (Suc n) s1) \<or> (step n s = (s1, Done) \<and> post s1)" using step [of n s] by auto
  then show ?case using Suc.IH [of "Suc n" s1] Suc.prems(2) by auto
qed

definition fo_inv :: "baddr \<Rightarrow> baddr list \<Rightarrow> bool \<Rightarrow> write_event list \<Rightarrow> nat \<Rightarrow> fwd \<Rightarrow> bool" where
  "fo_inv a bs hopped es n s \<longleftrightarrow>
     g_Backends (f_group s) = bs \<and> a \<in> set bs \<and> distinct (f_tried s) \<and> length (f_tried s) = n \<and> set (f_tried s) \<subseteq> set bs - {a} \<and>
     \<not> b_DockerUnhealthy (f_heap s a) \<and> \<not> b_draining (f_heap s a) \<and> (hopped \<longrightarrow> \<not> b_Learned (f_heap s a)) \<and>
     (\<forall>b\<in>set bs. b_proxy (f_heap s b) \<noteq> None) \<and> unat (g_cursor (f_group s)) \<le> 2 ^ 60 + n * (2 ^ 60 + 1) \<and>
     wr_events (f_wr s) = es \<and> h_index (rq_Header (f_req s)) ''Connection'' = [] \<and> (f_pin s \<noteq> [] \<longrightarrow> n = 0 \<and> \<not> hopped)"

definition fo_post :: "serve_env \<Rightarrow> write_event list \<Rightarrow> fwd \<Rightarrow> bool" where
  "fo_post env es s \<longleftrightarrow> (\<exists>e es' w code h chunks. f_log s = es' @ [e] \<and>
     rt_final (se_roundTrip env (sn_attempt e) (sn_to e) (sn_request e) (sn_body e)) = RTResponse code h chunks True \<and>
     wr_events w = es \<and> f_wr s = send_response plain_ops w code h chunks)"

lemma queue_sticky_events [simp]: "wr_events (f_wr (queue_sticky env hopped s i)) = wr_events (f_wr s)"
  by (simp add: queue_sticky_def Let_def)

lemma begin_attempt_events [simp]: "wr_events (f_wr (begin_attempt env hopped n s a)) = wr_events (f_wr s)"
  by (simp add: begin_attempt_def Let_def)

lemma clean_attempt:
  assumes "clean (se_roundTrip env n a (outgoing (f_heap s a) False (f_req s)) (bd_rest (f_body s)))"
    and "b_proxy (f_heap s a) \<noteq> None" and "upgrade_ok (f_heap s a) False (f_req s)"
    and "attempt env False plain_ops (f_wr s) n s a = (s1, w, r)"
  shows "(r = TryDone \<and> fo_post env (wr_events (f_wr s)) (s1\<lparr>f_wr := w\<rparr>)) \<or>
    (r = TryFailed \<and> w = f_wr s \<and> f_heap s1 = (f_heap s)(a := markHealthy (f_heap s a) False) \<and>
     \<not> full_answer (se_roundTrip env n a (outgoing (f_heap s a) False (f_req s)) (bd_rest (f_body s))))"
proof -
  let ?rt = "se_roundTrip env n a (outgoing (f_heap s a) False (f_req s)) (bd_rest (f_body s))"
  have log: "f_log s1 = f_log s @ [attempt_entry env False n s a]"
    using assms(2-4) by (auto simp: attempt_def attempt_entry_def Let_def split: prod.splits)
  have t: "tryProxy plain_ops (f_wr s) (f_heap s a) ?rt = (w, f_heap s1 a, r)" "f_heap s1 = (f_heap s)(a := f_heap s1 a)"
    using assms(3,4) by (auto simp: attempt_def Let_def split: prod.splits)
  from tryProxy_clean [OF assms(1,2), of "f_wr s"] show ?thesis
  proof (elim disjE conjE exE)
    fix code h chunks
    assume "rt_final ?rt = RTResponse code h chunks True"
      "tryProxy plain_ops (f_wr s) (f_heap s a) ?rt = (send_response plain_ops (f_wr s) code h chunks, f_heap s a, TryDone)"
    with t log show ?thesis by (auto simp: fo_post_def attempt_entry_def)
  next
    assume "\<not> full_answer ?rt" "tryProxy plain_ops (f_wr s) (f_heap s a) ?rt = (f_wr s, markHealthy (f_heap s a) False, TryFailed)"
    with t show ?thesis by auto
  qed
qed

lemma fo_interfere:
  assumes "fo_inv a bs hopped es n s" and "\<forall>f dr. se_flags env n a = Some (f, dr) \<longrightarrow> \<not> dr" and "unat (se_ticks env n) \<le> 2 ^ 60"
  shows "\<not> b_DockerUnhealthy (f_heap (interfere env n s) a)" "\<not> b_draining (f_heap (interfere env n s) a)"
    "hopped \<longrightarrow> \<not> b_Learned (f_heap (interfere env n s) a)" "\<forall>b\<in>set bs. b_proxy (f_heap (interfere env n s) b) \<noteq> None"
    "unat (g_cursor (f_group (interfere env n s))) \<le> 2 ^ 60 + n * (2 ^ 60 + 1) + 2 ^ 60"
proof -
  show "unat (g_cursor (f_group (interfere env n s))) \<le> 2 ^ 60 + n * (2 ^ 60 + 1) + 2 ^ 60"
    using assms(1,3) unat_add_le [of "g_cursor (f_group s)" "se_ticks env n"] by (simp add: interfere_def fo_inv_def)
qed (use assms in \<open>auto simp: interfere_def fo_inv_def split: option.split\<close>)

lemma interfere_same [simp]: "(interfere env n s)\<lparr>f_tried := f_tried s\<rparr> = interfere env n s"
  by (simp add: interfere_def)

lemma fo_step:
  assumes inv: "fo_inv a bs hopped es n s" and "n < 3"
    and "\<forall>f dr. se_flags env n a = Some (f, dr) \<longrightarrow> \<not> dr" and "unat (se_ticks env n) \<le> 2 ^ 60"
    and clean: "\<And>b rq body. b \<in> set bs \<Longrightarrow> clean (se_roundTrip env n b rq body)"
    and ans: "\<And>rq body. full_answer (se_roundTrip env n a rq body)"
  shows "\<exists>s1. (proxy_step env reqHost hopped True n s = (s1, Next) \<and> fo_inv a bs hopped es (Suc n) s1) \<or>
    (proxy_step env reqHost hopped True n s = (s1, Done) \<and> fo_post env es s1)"
proof -
  let ?s0 = "interfere env n s"
  note I = fo_interfere [OF inv assms(3,4)]
  have members: "g_Backends (f_group ?s0) = bs" "a \<in> set bs" "a \<notin> set (f_tried ?s0)" using inv by (auto simp: fo_inv_def)
  have cur: "unat (g_cursor (f_group ?s0)) < 2 ^ 63"
  proof -
    have "n * (2 ^ 60 + 1) \<le> 2 * (2 ^ 60 + 1)" using assms(2) by (intro mult_right_mono) auto
    with I(5) show ?thesis by simp
  qed
  obtain gp ap where pk: "pick_backend env hopped ?s0 = (gp, Returned (Some ap))" "unat (g_cursor gp) \<le> Suc (unat (g_cursor (f_group ?s0)))"
    using pick_backend_total [of ?s0 a hopped env] cur members I by auto
  define r where "r = pin_or (\<lambda>b. True) ?s0 (pick_backend env hopped ?s0)"
  obtain g1 a1 where r: "r = (g1, Returned (Some a1))" "unat (g_cursor g1) \<le> Suc (unat (g_cursor (f_group ?s0)))"
    using pk by (cases "sticky_pinned (\<lambda>b. True) ?s0") (auto simp: r_def pin_or_def)
  have "f_pin ?s0 \<noteq> [] \<longrightarrow> \<not> hopped \<and> f_tried ?s0 = []" using inv by (auto simp: fo_inv_def)
  from pin_or_choice [OF good_pick_backend [of env hopped ?s0] this, of "\<lambda>b. True" g1 "Returned (Some a1)"]
  have g1: "g_Backends g1 = bs" and c: "choice_ok (f_heap ?s0) (f_group ?s0) (f_tried ?s0) hopped a1"
    using r(1) members by (simp_all add: r_def)
  let ?s1 = "?s0\<lparr>f_group := g1, f_pin := []\<rparr>" and ?s2 = "begin_attempt env hopped n (?s0\<lparr>f_group := g1, f_pin := []\<rparr>) a1"
  obtain s3 w t where at: "attempt env False plain_ops (f_wr ?s2) n ?s2 a1 = (s3, w, t)" by (metis prod.exhaust)
  have a1: "a1 \<in> set bs" "a1 \<notin> set (f_tried s)" using c members by (auto simp: choice_ok_def)
  have "upgrade_ok (f_heap ?s2 a1) False (f_req ?s2)" using inv by (intro no_connection_upgrade_ok) (simp add: fo_inv_def)
  from clean_attempt [OF clean [OF a1(1)] _ this at] I(4) a1
  have fate: "(t = TryDone \<and> fo_post env (wr_events (f_wr ?s2)) (s3\<lparr>f_wr := w\<rparr>)) \<or>
     (t = TryFailed \<and> w = f_wr ?s2 \<and> f_heap s3 = (f_heap ?s2)(a1 := markHealthy (f_heap ?s2 a1) False) \<and> a1 \<noteq> a)"
    using ans by auto
  have ev: "wr_events (f_wr ?s2) = es" using inv by (simp add: fo_inv_def)
  have step: "proxy_step env reqHost hopped True n s =
      (case t of TryPanicked \<Rightarrow> (s3\<lparr>f_wr := w\<rparr>, Panic) | TryDone \<Rightarrow> (s3\<lparr>f_wr := w\<rparr>, Done) | TryFailed \<Rightarrow> (s3\<lparr>f_wr := w\<rparr>, Next))"
    using r(1) at by (simp add: r_def pin_or_def proxy_step_def Let_def)
  show ?thesis
  proof (cases "t = TryDone")
    case True
    with fate step ev show ?thesis by auto
  next
    case False
    with fate have f: "t = TryFailed" "w = f_wr ?s2" "f_heap s3 = (f_heap ?s2)(a1 := markHealthy (f_heap ?s2 a1) False)" "a1 \<noteq> a" by auto
    have "fo_inv a bs hopped es (Suc n) (s3\<lparr>f_wr := w\<rparr>)"
      using inv I f a1 g1 r(2) ev attempt_frame [OF at] by (auto simp: fo_inv_def markHealthy_def)
    with step f(1) show ?thesis by auto
  qed
qed



subsection \<open>Each request is counted once\<close>

text \<open>A run whose hop errors and static fallbacks may have been counted up.\<close>

definition bumped :: "abRun \<Rightarrow> abRun \<Rightarrow> bool" where
  "bumped r r' \<longleftrightarrow> r'\<lparr>r_hopErrors := 0, r_staticFallbacks := 0\<rparr> = r\<lparr>r_hopErrors := 0, r_staticFallbacks := 0\<rparr>"

lemma bumped_refl [simp]: "bumped r r"
  by (simp add: bumped_def)

lemma bumped_hop [intro]: "bumped r r' \<Longrightarrow> bumped r (addHopError r')"
  by (auto simp: bumped_def addHopError_def)

lemma bumped_static [intro]: "bumped r r' \<Longrightarrow> bumped r (addStaticFallback r')"
  by (auto simp: bumped_def addStaticFallback_def)

definition counted :: "abDecision \<Rightarrow> abRun \<Rightarrow> abRun \<Rightarrow> bool" where
  "counted d run run' \<longleftrightarrow> (\<exists>r. bumped run r \<and>
     (run' = r \<or> d_record d \<and> (\<exists>out st lat now. run' = run_record r (abIdx (recordVariant d)) out st lat now)))"

lemma bumped_counted: "bumped run run' \<Longrightarrow> counted d run run'"
  by (auto simp: counted_def)

lemma counted_record: "bumped run r \<Longrightarrow> d_record d \<Longrightarrow> counted d run (run_record r (abIdx (recordVariant d)) out st lat now)"
  unfolding counted_def by blast

lemma abRecordServed_counted: "bumped run r \<Longrightarrow> counted d run (abRecordServed r d b status lat now)"
proof -
  assume b: "bumped run r"
  let ?r = "if b_Learned b \<and> 500 \<le> status then addHopError r else r"
  have br: "bumped run ?r" using b by auto
  have "recordVariant d = d_variant d" if "d_failoverFrom d = []" using that by (simp add: recordVariant_def)
  with counted_record [OF br, of d] bumped_counted [OF br, of d] show ?thesis
    by (auto simp: abRecordServed_def Let_def)
qed

lemma abStaticFallback_run:
  assumes "abStaticFallback env hopped d n s h404 = (s', st)" "bumped run (f_run s)"
  shows "bumped run (f_run s') \<and> st \<noteq> Next"
  using assms
  by (auto simp: abStaticFallback_def Let_def replay_404_def bumped_static dest!: attempt_frame(5)
      split: prod.splits go.splits option.splits try_result.splits if_splits)

lemma ab_static_attempt_run:
  assumes "ab_static_attempt env hopped d n s a = (s', st)" "bumped run (f_run s)"
  shows "(st = Next \<longrightarrow> bumped run (f_run s')) \<and> counted d run (f_run s')"
proof -
  obtain s1 stw r where at: "attempt env True static_ops \<lparr>st_under = f_wr s, st_h = [], st_forwarded = False, st_swallowed = False\<rparr> n s a = (s1, stw, r)"
    by (metis prod.exhaust)
  have b: "bumped run (f_run (s1\<lparr>f_wr := st_under stw\<rparr>))" using attempt_frame(5) [OF at] assms(2) by simp
  show ?thesis
  proof (cases "r = TryDone \<and> st_swallowed stw")
    case True
    then have "abStaticFallback env hopped d n (s1\<lparr>f_wr := st_under stw\<rparr>) (st_h stw) = (s', st)"
      using assms(1) at by (simp add: ab_static_attempt_def Let_def)
    from abStaticFallback_run [OF this b] show ?thesis by (auto intro: bumped_counted)
  next
    case False
    then show ?thesis using assms(1) b
      by (auto simp: ab_static_attempt_def Let_def at hop_error_def abRecordServed_counted bumped_counted bumped_hop split: try_result.splits if_splits)
  qed
qed

lemma ab_plain_attempt_run:
  assumes "ab_plain_attempt env reqHost retryable d n s a = (s', st)" "bumped run (f_run s)"
  shows "(st = Next \<longrightarrow> bumped run (f_run s')) \<and> counted d run (f_run s')"
proof -
  obtain s1 w r where at: "attempt env True plain_ops (f_wr s) n s a = (s1, w, r)" by (metis prod.exhaust)
  have b: "bumped run (f_run s1)" using attempt_frame(5) [OF at] assms(2) by simp
  then have h: "bumped run (f_run (hop_error (f_heap s a) (s1\<lparr>f_wr := w\<rparr>)))" by (auto simp: hop_error_def)
  show ?thesis
  proof (cases r)
    case TryFailed
    then show ?thesis using assms(1) h counted_record [OF h, of d] bumped_counted [OF h, of d]
      by (auto simp: ab_plain_attempt_def Let_def at serveBodyNotReplayable_def record_transport_def split: if_splits)
  qed (use assms(1) b in \<open>auto simp: ab_plain_attempt_def Let_def at abRecordServed_counted bumped_counted\<close>)
qed

lemma ab_attempt_no_break:
  "ab_static_attempt env hopped d n s a = (s1, st) \<Longrightarrow> st \<noteq> Break" "ab_plain_attempt env reqHost retryable d n s a = (s1, st) \<Longrightarrow> st \<noteq> Break"
  by (auto simp: ab_static_attempt_def ab_plain_attempt_def abStaticFallback_def Let_def
      split: prod.splits go.splits option.splits try_result.splits if_splits)

lemma ab_attempt_run:
  assumes "ab_static_attempt env hopped d n s a = (s1, st) \<or> ab_plain_attempt env reqHost retryable d n s a = (s1, st)" "bumped run (f_run s)"
  shows "(st = Next \<or> st = Break \<longrightarrow> bumped run (f_run s1)) \<and> counted d run (f_run s1)"
  using assms(1) ab_attempt_no_break ab_static_attempt_run [OF _ assms(2)] ab_plain_attempt_run [OF _ assms(2)] by metis

interpretation ab_count: attempt_loop "ab_step env reqHost hopped retryable staticRetry d" "\<lambda>n s. bumped run (f_run s)"
  "\<lambda>st s. (st = Break \<longrightarrow> bumped run (f_run s)) \<and> counted d run (f_run s)" N
proof unfold_locales
  have step: "(st = Next \<or> st = Break \<longrightarrow> bumped run (f_run s1)) \<and> counted d run (f_run s1)"
    if "bumped run (f_run s)" "ab_step env reqHost hopped retryable staticRetry d n s = (s1, st)" for n s s1 st
    using that by (auto simp: ab_step_def Let_def bumped_counted split: prod.splits go.splits option.splits if_splits
        dest!: ab_attempt_run [OF disjI1, where run = run] ab_attempt_run [OF disjI2, where run = run])
  show "bumped run (f_run s1)" if "bumped run (f_run s)" "ab_step env reqHost hopped retryable staticRetry d n s = (s1, Next)" for n s s1
    using step [OF that] by simp
  show "(st = Break \<longrightarrow> bumped run (f_run s1)) \<and> counted d run (f_run s1)"
    if "bumped run (f_run s)" "ab_step env reqHost hopped retryable staticRetry d n s = (s1, st)" for n s s1 st
    using step [OF that] by simp
  show "(Break = Break \<longrightarrow> bumped run (f_run s)) \<and> counted d run (f_run s)" if "bumped run (f_run s)" for s using that by (simp add: bumped_counted)
qed

lemma retry_loop_stops: "snd (retry_loop step n k s) \<noteq> Next"
  by (induction step n k s rule: retry_loop.induct) (auto split: prod.split fwd_status.split)

text \<open>
  (C30) An A/B request is counted at most once at this proxy, whatever is retried: the run afterwards is the run before, up to the hop errors and
  static fallbacks counted on the side, with at most one record added, under the variant the session belongs to; and nothing is
  recorded for a request that the assignment excluded from the statistics.
\<close>

theorem ab_counted_once:
  "\<exists>r. r\<lparr>r_hopErrors := 0, r_staticFallbacks := 0\<rparr> = (f_run s)\<lparr>r_hopErrors := 0, r_staticFallbacks := 0\<rparr> \<and>
     (f_run (fst (abProxyToGroup env reqHost hopped d s)) = r \<or>
      d_record d \<and> (\<exists>out st lat now. f_run (fst (abProxyToGroup env reqHost hopped d s)) =
        run_record r (abIdx (if d_failoverFrom d \<noteq> [] then d_failoverFrom d else d_variant d)) out st lat now))"
proof -
  obtain bd rt where p: "prepareRetryBody (f_body s) = (bd, rt)" by (rule prod.exhaust)
  let ?sr = "rt \<and> d_static d \<and> (rq_Method (f_req s) = ''GET'' \<or> rq_Method (f_req s) = ''HEAD'') \<and> hasVariant (f_heap s) (f_group s) (abOther (d_variant d))"
  let ?s = "s\<lparr>f_body := bd, f_tried := [], f_wr := (f_wr s)\<lparr>wr_status := 0\<rparr>\<rparr>"
  obtain s1 st where l: "retry_loop (ab_step env reqHost hopped rt ?sr d) 0 maxRetries ?s = (s1, st)" by (rule prod.exhaust)
  have c: "st = Break \<longrightarrow> bumped (f_run s) (f_run s1)" "counted d (f_run s) (f_run s1)"
    using ab_count.loop_from_start [of "f_run s" ?s env reqHost hopped rt ?sr d maxRetries] l by auto
  have "st \<noteq> Next" using l retry_loop_stops by (metis snd_conv)
  have "counted d (f_run s) (f_run (fst (abProxyToGroup env reqHost hopped d s)))"
  proof (cases "st = Break")
    case True
    with c have b: "bumped (f_run s) (f_run s1)" by simp
    from True p l counted_record [OF b, of d] bumped_counted [OF b, of d] show ?thesis
      by (auto simp: abProxyToGroup_def serve503_def record_transport_def split: list.split)
  next
    case False
    with p l c(2) \<open>st \<noteq> Next\<close> show ?thesis by (cases st) (simp_all add: abProxyToGroup_def)
  qed
  then show ?thesis unfolding counted_def bumped_def recordVariant_def by metis
qed

subsection \<open>What a client can do with connection headers\<close>

lemma h_get_foldl_del: "h_get (foldl h_del h ks) k = (if \<exists>t\<in>set ks. canonicalKey t = canonicalKey k then [] else h_get h k)"
  by (induction ks arbitrary: h) (auto simp: h_get_del)

lemma image_iff_ex: "x \<in> f ` A \<longleftrightarrow> (\<exists>t\<in>A. f t = x)"
  by auto

lemma outgoing_get:
  assumes "canonicalKey k \<notin> set proxyHopHeaders" "canonicalKey k \<notin> {''X-Forwarded-For'', ''User-Agent''}"
  shows "h_get (rq_Header (outgoing b st rq)) k =
    (if \<exists>t\<in>set (connection_tokens (rq_Header rq)). canonicalKey t = canonicalKey k then [] else h_get (rq_Header (apply_director b st rq)) k)"
proof -
  have ct: "connection_tokens (rq_Header (apply_director b st rq)) = connection_tokens (rq_Header rq)"
    by (simp add: connection_tokens_def director_connection)
  have can: "canonicalKey t = t" if "t \<in> set proxyHopHeaders" for t
  proof -
    have "list_all (\<lambda>t. canonicalKey t = t) proxyHopHeaders" by code_simp
    with that show ?thesis by (simp add: list_all_iff)
  qed
  have c2: "canonicalKey ''Te'' = ''Te''" "canonicalKey ''Connection'' = ''Connection''" "canonicalKey ''Upgrade'' = ''Upgrade''"
    "canonicalKey ''X-Forwarded-For'' = ''X-Forwarded-For''" "canonicalKey ''User-Agent'' = ''User-Agent''" by code_simp+
  have ne: "canonicalKey k \<noteq> ''Te''" "canonicalKey k \<noteq> ''Connection''" "canonicalKey k \<noteq> ''Upgrade''"
    using assms(1) by (auto simp: proxyHopHeaders_def)
  have hop: "\<not> (\<exists>t\<in>set proxyHopHeaders. canonicalKey t = canonicalKey k)" using assms(1) can by metis
  show ?thesis
    using assms(2) ne hop
    by (auto simp: outgoing_def Let_def h_get_set c2 removeHopByHop_def h_get_foldl_del ct split: option.split)
qed

text \<open>
  A client can take the proxy's own headers off a forwarded request. The reverse proxy removes what the client's \<^verbatim>\<open>Connection\<close> header names after the
  director has added the hop mark, so a peer sees the mark exactly if the client did not name it, and the backend sees the signed attribution
  header exactly if the client did not name that.
\<close>

theorem connection_strips_proxy_headers:
  assumes "b_proxy b = Some (PeerDirector host prefix strip hopAuth)" and "b_proxy b' = Some (LocalDirector host')"
  shows "h_get (rq_Header (outgoing b st rq)) PeerHopHeader =
      (if PeerHopHeader \<in> canonicalKey ` set (connection_tokens (rq_Header rq)) then [] else ''1'') \<and>
    h_get (rq_Header (outgoing b' st rq)) ActorHeader =
      (if canonicalKey ActorHeader \<in> canonicalKey ` set (connection_tokens (rq_Header rq)) then [] else h_get (rq_Header rq) ActorHeader)"
proof
  have "h_get (rq_Header (apply_director b st rq)) PeerHopHeader = ''1''"
    using assms(1) by (simp add: apply_director_def Let_def h_get_set) (simp add: PeerHopHeader_def PeerAuthHeader_def)
  moreover have "PeerHopHeader \<notin> set proxyHopHeaders" "PeerHopHeader \<notin> {''X-Forwarded-For'', ''User-Agent''}"
    by (simp_all add: PeerHopHeader_def proxyHopHeaders_def)
  ultimately show "h_get (rq_Header (outgoing b st rq)) PeerHopHeader =
      (if PeerHopHeader \<in> canonicalKey ` set (connection_tokens (rq_Header rq)) then [] else ''1'')"
    using outgoing_get [of PeerHopHeader b st rq] by (simp add: image_iff_ex)
  have "h_get (rq_Header (apply_director b' st rq)) ActorHeader = h_get (rq_Header rq) ActorHeader"
    using assms(2) by (simp add: apply_director_def rewriteRequestURL_def Let_def)
  moreover have "canonicalKey ActorHeader = ActorHeader" by code_simp
  moreover have "ActorHeader \<notin> set proxyHopHeaders" "ActorHeader \<notin> {''X-Forwarded-For'', ''User-Agent''}"
    by (simp_all add: ActorHeader_def proxyHopHeaders_def)
  ultimately show "h_get (rq_Header (outgoing b' st rq)) ActorHeader =
      (if canonicalKey ActorHeader \<in> canonicalKey ` set (connection_tokens (rq_Header rq)) then [] else h_get (rq_Header rq) ActorHeader)"
    using outgoing_get [of ActorHeader b' st rq] by (simp add: image_iff_ex)
qed

theorem connection_strips_proxy_headers_witness:
  "let rq = (f_req ex_fwd)\<lparr>rq_Header := [(''Connection'', [''x-pmgr-peer-hop, x-pmgr-actor'']), (''X-Pmgr-Actor'', [''bob''])]\<rparr>;
       b = zeroBackend\<lparr>b_proxy := Some (PeerDirector [] [] False [])\<rparr>; b' = zeroBackend\<lparr>b_proxy := Some (LocalDirector [])\<rparr>
   in h_get (rq_Header (outgoing b False rq)) PeerHopHeader = [] \<and> h_get (rq_Header (outgoing b' False rq)) ActorHeader = [] \<and>
      h_get (rq_Header rq) ActorHeader = ''bob''"
proof -
  let ?h = "[(''Connection'', [''x-pmgr-peer-hop, x-pmgr-actor'']), (''X-Pmgr-Actor'', [''bob''])]"
  have "map canonicalKey (connection_tokens ?h) = [PeerHopHeader, canonicalKey ActorHeader]" by code_simp
  then have "PeerHopHeader \<in> canonicalKey ` set (connection_tokens ?h)" "canonicalKey ActorHeader \<in> canonicalKey ` set (connection_tokens ?h)"
    by (metis list.set_intros set_map)+
  moreover have "h_get ?h ActorHeader = ''bob''" by code_simp
  ultimately show ?thesis
    using connection_strips_proxy_headers [of "zeroBackend\<lparr>b_proxy := Some (PeerDirector [] [] False [])\<rparr>" "[]" "[]" False "[]"
        "zeroBackend\<lparr>b_proxy := Some (LocalDirector [])\<rparr>" "[]" False "(f_req ex_fwd)\<lparr>rq_Header := ?h\<rparr>"]
    by (simp add: Let_def)
qed

text \<open>
  A client can mark healthy backends down. A request whose \<^verbatim>\<open>Upgrade\<close> value is not printable goes to the error handler before anything is sent: the attempt
  fails, nothing reaches the backend, its health flag is cleared all the same, and the loop goes on to the next backend.
\<close>

theorem invalid_upgrade_marks_down:
  assumes "b_proxy (f_heap s a) \<noteq> None" and "\<not> upgrade_ok (f_heap s a) stamped (f_req s)"
    and "attempt env stamped ops w n s a = (s1, w1, r)"
  shows "r = TryFailed \<and> w1 = w \<and> f_log s1 = f_log s \<and> \<not> healthy (f_heap s1 a)"
  using assms
  by (auto simp: attempt_def Let_def tryProxy_def reverse_proxy_def newBackendErrorHandler_def wroteHeader_def markHealthy_def healthy_def split: prod.splits)

theorem invalid_upgrade_marks_down_witness:
  "let s = ex_fwd\<lparr>f_req := (f_req ex_fwd)\<lparr>rq_Header := [(''Connection'', [''Upgrade'']), (''Upgrade'', [[char_of (255 :: nat)]])]\<rparr>\<rparr>;
       r = attempt ex_fwd_env False plain_ops (f_wr s) 0 s 2
   in snd (snd r) = TryFailed \<and> \<not> healthy (f_heap (fst r) 2)"
proof -
  let ?s = "ex_fwd\<lparr>f_req := (f_req ex_fwd)\<lparr>rq_Header := [(''Connection'', [''Upgrade'']), (''Upgrade'', [[char_of (255 :: nat)]])]\<rparr>\<rparr>"
  obtain s1 w1 r where a: "attempt ex_fwd_env False plain_ops (f_wr ?s) 0 ?s 2 = (s1, w1, r)" by (metis prod.exhaust)
  have "\<not> upgrade_ok (makeBackend (\<lambda>s. s) ''http://b'' 1 [] [] ''h'') False (f_req ?s)" by code_simp
  then have "\<not> upgrade_ok (f_heap ?s 2) False (f_req ?s)" by (simp add: ex_fwd_def)
  moreover have "b_proxy (f_heap ?s 2) \<noteq> None" by (simp add: ex_fwd_def makeBackend_def)
  ultimately show ?thesis using invalid_upgrade_marks_down [OF _ _ a] a by (simp add: Let_def)
qed

lemma send_info_status: "fst ch < 200 \<Longrightarrow> wr_status (send_info plain_ops w ch) = wr_status w"
  by (auto simp: send_info_def plain_ops_def wr_writeHeader_def Let_def split: option.split prod.split)

lemma send_infos_status: "\<forall>ch\<in>set chs. fst ch < 200 \<Longrightarrow> wr_status (foldl (send_info plain_ops) w chs) = wr_status w"
  by (induction chs arbitrary: w) (simp_all add: send_info_status)

text \<open>
  A failure after an informational response is not retried. When a backend sends an informational status and then fails, the attempt counts as served:
  no other backend is tried, and the client never gets a final status from the proxy (the recorded status is still the one before).
\<close>

theorem early_hint_failure_not_retried:
  assumes "b_proxy b \<noteq> None" and "rt_info rt \<noteq> []" and "\<forall>ch\<in>set (rt_info rt). fst ch < 200" and "rt_final rt = RTError False"
  shows "\<exists>w'. tryProxy plain_ops w b rt = (w', markHealthy b False, TryDone) \<and> wr_status w' = wr_status w"
  using assms by (simp add: tryProxy_def reverse_proxy_def newBackendErrorHandler_def wroteHeader_def send_infos_status)

theorem early_hint_failure_not_retried_witness:
  "\<exists>w'. tryProxy plain_ops (new_wr [] None) (zeroBackend\<lparr>b_proxy := Some (LocalDirector [])\<rparr>) \<lparr>rt_info = [(103, [])], rt_final = RTError False\<rparr> =
     (w', markHealthy (zeroBackend\<lparr>b_proxy := Some (LocalDirector [])\<rparr>) False, TryDone) \<and> wr_status w' = 0"
  using early_hint_failure_not_retried [of "zeroBackend\<lparr>b_proxy := Some (LocalDirector [])\<rparr>" "\<lparr>rt_info = [(103, [])], rt_final = RTError False\<rparr>" "new_wr [] None"]
  by (simp add: new_wr_def)

end
