(* ===== verification/ForwardInv.thy ===== *)
theory ForwardInv
  imports ForwardLaws
begin

section \<open>Invariants of forwarding\<close>

text \<open>
  The locale \<open>forward_invariant\<close> carries a fact about the forwarding state through both loops; its instances say that a route
  stays as configured and what every request that reaches a backend satisfies.
\<close>

subsection \<open>What a forwarding keeps\<close>

text \<open>A group as it was configured: only the cursor and the time of the last panic log move.\<close>

definition same_route :: "RouteGroup \<Rightarrow> RouteGroup \<Rightarrow> bool" where
  "same_route g g' \<longleftrightarrow> g'\<lparr>g_cursor := 0, g_panicLogAt := 0\<rparr> = g\<lparr>g_cursor := 0, g_panicLogAt := 0\<rparr>"

lemma same_route_refl [simp]: "same_route g g"
  by (simp add: same_route_def)

lemma same_route_trans: "same_route g g' \<Longrightarrow> same_route g' g'' \<Longrightarrow> same_route g g''"
  by (simp add: same_route_def)

lemma same_routeD:
  assumes "same_route g g'"
  shows "g_Host g' = g_Host g" "g_PathPrefix g' = g_PathPrefix g" "g_limiter g' = g_limiter g" "g_cache g' = g_cache g" "g_Backends g' = g_Backends g"
    "g_AuthRequired g' = g_AuthRequired g" "g_ab g' = g_ab g" "g_abCfg g' = g_abCfg g" "g_RateRPM g' = g_RateRPM g" "g_AuthMode g' = g_AuthMode g"
  using assms unfolding same_route_def by (cases g; cases g'; simp)+

lemma same_route_cursor [simp]: "same_route g (g\<lparr>g_cursor := c\<rparr>)"
  by (simp add: same_route_def)

definition keeps_route :: "(bheap \<Rightarrow> RouteGroup \<Rightarrow> baddr list \<Rightarrow> RouteGroup \<times> baddr option go) \<Rightarrow> bool" where
  "keeps_route pick \<longleftrightarrow> (\<forall>h g skip. same_route g (fst (pick h g skip)))"

lemma keeps_pickWith: "keeps_route (\<lambda>h g skip. pickWith ig h g skip ap v)"
proof -
  have "same_route g (fst (rr_pick g pool))" for g pool by (simp add: rr_pick_def)
  then show ?thesis unfolding keeps_route_def by (metis fst_conv pickWith_cases same_route_refl)
qed

lemmas keeps_pickHealthy = keeps_pickWith [of False, unfolded pickWith_def, simplified]
  and keeps_pickAny = keeps_pickWith [of True, unfolded pickWith_def, simplified]

lemma keeps_or_else: "keeps_route p \<Longrightarrow> keeps_route q \<Longrightarrow> keeps_route (or_else p q)"
  unfolding keeps_route_def or_else_def
  by (auto split: prod.split go.split option.split) (metis fst_conv same_route_trans)+

lemma keeps_with_log: "keeps_route p \<Longrightarrow> keeps_route (with_log now p)"
proof -
  assume p: "keeps_route p"
  have "same_route g (fst (logPanicOnce g now))" for g by (simp add: logPanicOnce_def same_route_def)
  with p show ?thesis unfolding keeps_route_def with_log_def
    by (auto split: prod.split go.split option.split) (metis fst_conv same_route_trans)+
qed

lemma keeps_if: "keeps_route p \<Longrightarrow> keeps_route (\<lambda>h g skip. if b then (g, Returned None) else p h g skip)"
  by (simp add: keeps_route_def)

lemma pick_backend_route: "same_route (f_group s) (fst (pick_backend env hopped s))"
proof -
  have "keeps_route (or_else (\<lambda>h g skip. pickHealthy h g skip (\<not> hopped) []) (with_log (se_now env) (\<lambda>h g skip. pickAny h g skip (\<not> hopped) [])))"
    by (intro keeps_or_else keeps_with_log keeps_pickHealthy keeps_pickAny)
  then show ?thesis by (simp add: pick_backend_alt keeps_route_def)
qed

lemma abPick_route: "same_route g (fst (abPick env h g tried (\<not> hopped) own failover))"
proof -
  let ?F = "\<lambda>pick h g skip. if failover = [] then (g, Returned None) else pick h g skip (\<not> hopped) failover"
  have "keeps_route (or_else (\<lambda>h g skip. pickHealthy h g skip (\<not> hopped) own)
         (or_else (?F pickHealthy)
           (or_else (with_log (se_now env) (\<lambda>h g skip. pickAny h g skip (\<not> hopped) own)) (with_log (se_now env) (?F pickAny)))))"
    by (intro keeps_or_else keeps_with_log keeps_pickHealthy keeps_pickAny keeps_if)
  then show ?thesis by (simp add: abPick_alt Let_def keeps_route_def)
qed

lemma interfere_route: "same_route (f_group s) (f_group (interfere env n s))"
  by (simp add: interfere_def)

text \<open>
  A fact about the state of a forwarding that does not depend on the writer, the body, what was tried or the run, and that a
  move of the group, the stamping of the variant and an attempt keep, is kept by both ways of forwarding.
\<close>

locale forward_invariant =
  fixes I :: "fwd \<Rightarrow> bool" and env :: serve_env
  assumes I_interfere: "I s \<Longrightarrow> I (interfere env n s)"
    and I_group: "I s \<Longrightarrow> same_route (f_group s) g \<Longrightarrow> I (s\<lparr>f_group := g\<rparr>)"
    and I_pin: "I (s\<lparr>f_pin := p\<rparr>) \<longleftrightarrow> I s" and I_body: "I (s\<lparr>f_body := bd\<rparr>) \<longleftrightarrow> I s" and I_tried: "I (s\<lparr>f_tried := t\<rparr>) \<longleftrightarrow> I s"
    and I_wr: "I (s\<lparr>f_wr := w\<rparr>) \<longleftrightarrow> I s" and I_run: "I (s\<lparr>f_run := u\<rparr>) \<longleftrightarrow> I s"
    and I_stamp: "I s \<Longrightarrow> I (set_request_header s (stamp_variant d b (rq_Header (f_req s))))"
    and I_restamp: "I s \<Longrightarrow> I (set_request_header s (h_del (h_set (rq_Header (f_req s)) abVariantHeader v) abFailoverHeader))"
    and I_attempt: "I s \<Longrightarrow> attempt env st plain_ops w n s a = (s1, w1, r) \<Longrightarrow> I s1"
    and I_static: "I s \<Longrightarrow> attempt env st static_ops w2 n s a = (s1, w3, r) \<Longrightarrow> I s1"
begin

lemma I_begin: "I s \<Longrightarrow> I (begin_attempt env hopped n s a)"
  by (simp add: begin_attempt_def queue_sticky_def Let_def I_body I_wr I_tried)

lemma I_serve: "I (serveBodyNotReplayable s reqHost) \<longleftrightarrow> I s" "I (serve503 s reqHost) \<longleftrightarrow> I s" "I (replay_404 s h) \<longleftrightarrow> I s"
  "I (hop_error b s) \<longleftrightarrow> I s" "I (record_transport env' d s) \<longleftrightarrow> I s"
  by (simp_all add: serveBodyNotReplayable_def serve503_def replay_404_def hop_error_def record_transport_def Let_def I_wr I_run)

lemma I_proxy_step: "I s \<Longrightarrow> proxy_step env reqHost hopped retryable n s = (s', st) \<Longrightarrow> I s'"
proof -
  assume s: "I s" and st: "proxy_step env reqHost hopped retryable n s = (s', st)"
  let ?s0 = "interfere env n s"
  obtain g1 c where c: "(case sticky_pinned (\<lambda>b. True) ?s0 of Some a \<Rightarrow> (f_group ?s0, Returned (Some a)) | None \<Rightarrow> pick_backend env hopped ?s0) = (g1, c)"
    by (rule prod.exhaust)
  have "same_route (f_group ?s0) g1" using c pick_backend_route [of ?s0 env hopped] by (auto split: option.splits)
  then have 1: "I (?s0\<lparr>f_group := g1, f_pin := []\<rparr>)" by (simp add: I_pin I_group I_interfere s)
  show "I s'" using st I_attempt [OF I_begin [OF 1]]
    by (auto simp: proxy_step_def Let_def c I_wr I_serve 1 split: go.splits option.splits prod.splits try_result.splits if_splits)
qed

lemma I_fallback: "I s \<Longrightarrow> abStaticFallback env hopped d n s h404 = (s', st) \<Longrightarrow> I s'"
proof -
  assume s: "I s" and st: "abStaticFallback env hopped d n s h404 = (s', st)"
  let ?o = "abOther (d_variant d)"
  obtain g1 c where c: "(case pickHealthy (f_heap s) (f_group s) (f_tried s) (\<not> hopped) ?o of
      (g', Returned None) \<Rightarrow> pickAny (f_heap s) g' (f_tried s) (\<not> hopped) ?o | r \<Rightarrow> r) = (g1, c)" by (rule prod.exhaust)
  have "keeps_route (or_else (\<lambda>h g skip. pickHealthy h g skip (\<not> hopped) ?o) (\<lambda>h g skip. pickAny h g skip (\<not> hopped) ?o))"
    by (intro keeps_or_else keeps_pickHealthy keeps_pickAny)
  then have "same_route (f_group s) (fst (or_else (\<lambda>h g skip. pickHealthy h g skip (\<not> hopped) ?o) (\<lambda>h g skip. pickAny h g skip (\<not> hopped) ?o)
      (f_heap s) (f_group s) (f_tried s)))" unfolding keeps_route_def by blast
  then have "same_route (f_group s) g1" unfolding or_else_def c by simp
  then have 1: "I (s\<lparr>f_group := g1\<rparr>)" by (rule I_group [OF s])
  have 2: "I (set_request_header (s\<lparr>f_group := g1, f_run := u, f_wr := w\<rparr>) (h_del (h_set (rq_Header (f_req s)) abVariantHeader v) abFailoverHeader))" for u w v
    using I_restamp [of "s\<lparr>f_group := g1, f_run := u, f_wr := w\<rparr>" v] 1 by (simp add: I_run I_wr)
  show "I s'" using st 1 I_attempt [OF iffD2 [OF I_body 2]]
    by (auto simp: abStaticFallback_def Let_def c I_wr I_serve split: go.splits option.splits prod.splits try_result.splits)
qed

lemma I_ab_step: "I s \<Longrightarrow> ab_step env reqHost hopped retryable staticRetry d n s = (s', st) \<Longrightarrow> I s'"
proof -
  assume s: "I s" and st: "ab_step env reqHost hopped retryable staticRetry d n s = (s', st)"
  let ?s0 = "interfere env n s"
  obtain g1 c where c: "(case sticky_pinned (\<lambda>b. variantName b = d_variant d) ?s0 of Some a \<Rightarrow> (f_group ?s0, Returned (Some a))
      | None \<Rightarrow> abPick env (f_heap ?s0) (f_group ?s0) (f_tried ?s0) (\<not> hopped) (d_variant d) (d_failover d)) = (g1, c)" by (rule prod.exhaust)
  have "same_route (f_group ?s0) g1" using c abPick_route by (auto split: option.splits) (metis fst_conv)
  then have 1: "I (?s0\<lparr>f_group := g1, f_pin := []\<rparr>)" by (simp add: I_pin I_group I_interfere s)
  have plain: "I s2" if "ab_plain_attempt env reqHost retryable d n s1 a = (s2, st2)" "I s1" for s1 s2 st2 a
    using that I_attempt [OF that(2)]
    by (auto simp: ab_plain_attempt_def Let_def I_wr I_run I_serve split: prod.splits try_result.splits if_splits)
  have static: "I s2" if "ab_static_attempt env hopped d n s1 a = (s2, st2)" "I s1" for s1 s2 st2 a
    using that I_static [OF that(2)]
    by (auto simp: ab_static_attempt_def Let_def I_wr I_run I_serve dest!: I_fallback [rotated] split: prod.splits try_result.splits if_splits)
  show "I s'" using st 1 I_stamp [OF I_begin [OF 1]]
    by (auto simp: ab_step_def Let_def c [simplified] dest: plain static split: go.splits option.splits prod.splits if_splits)
qed

lemma I_loop: "I s \<Longrightarrow> (\<And>n s s' st. I s \<Longrightarrow> step n s = (s', st) \<Longrightarrow> I s') \<Longrightarrow> I (fst (retry_loop step n k s))"
  by (induction step n k s rule: retry_loop.induct) (auto split: prod.splits fwd_status.splits)

lemma I_proxyToGroup: "I s \<Longrightarrow> I (fst (proxyToGroup env reqHost hopped s))"
proof -
  assume s: "I s"
  obtain bd rt where p: "prepareRetryBody (f_body s) = (bd, rt)" by (rule prod.exhaust)
  have "I (fst (retry_loop (proxy_step env reqHost hopped rt) 0 maxRetries (s\<lparr>f_body := bd, f_tried := []\<rparr>)))"
    by (rule I_loop) (use s I_proxy_step in \<open>auto simp: I_body I_tried\<close>)
  then show ?thesis by (auto simp: proxyToGroup_def p I_serve split: prod.split fwd_status.split)
qed

lemma I_abProxyToGroup: "I s \<Longrightarrow> I (fst (abProxyToGroup env reqHost hopped d s))"
proof -
  assume s: "I s"
  obtain bd rt where p: "prepareRetryBody (f_body s) = (bd, rt)" by (rule prod.exhaust)
  have "I (fst (retry_loop (ab_step env reqHost hopped rt sr d) 0 maxRetries (s\<lparr>f_body := bd, f_tried := [], f_wr := (f_wr s)\<lparr>wr_status := 0\<rparr>\<rparr>)))" for sr
    by (rule I_loop) (use s I_ab_step in \<open>auto simp: I_body I_tried I_wr\<close>)
  then show ?thesis by (auto simp: abProxyToGroup_def p I_serve Let_def split: prod.split fwd_status.split list.split) (metis fst_conv)+
qed

end

text \<open>A route stays as it was configured.\<close>

lemma attempt_group: "attempt env st ops w n s a = (s1, w1, r) \<Longrightarrow> f_group s1 = f_group s"
  by (rule attempt_frame(1))

interpretation route_kept: forward_invariant "\<lambda>s. same_route g (f_group s)" env
  by unfold_locales (auto simp: attempt_group intro: same_route_trans interfere_route)

text \<open>
  A property \<open>P\<close> of the request that the stamping of the variant keeps, and a property \<open>R\<close> of what is sent to a backend that follows from it, hold for
  everything that is sent.
\<close>

locale request_filter =
  fixes P :: "request \<Rightarrow> bool" and R :: "Backend \<Rightarrow> request \<Rightarrow> bool"
  assumes P_stamp: "P rq \<Longrightarrow> P (rq\<lparr>rq_Header := stamp_variant d b (rq_Header rq)\<rparr>)"
    and P_restamp: "P rq \<Longrightarrow> P (rq\<lparr>rq_Header := h_del (h_set (rq_Header rq) abVariantHeader v) abFailoverHeader\<rparr>)"
    and P_sent: "P rq \<Longrightarrow> R b (outgoing b st rq)"
begin

definition filtered :: "fwd \<Rightarrow> bool" where
  "filtered s \<longleftrightarrow> P (f_req s) \<and> (\<forall>e\<in>set (f_log s). R (sn_backend e) (sn_request e))"

lemma filtered_attempt:
  assumes "filtered s" "attempt env st ops w n s a = (s1, w1, r)"
  shows "filtered s1"
  using assms attempt_frame(4,7) [OF assms(2)] P_sent by (auto simp: filtered_def attempt_entry_def)

end

sublocale request_filter < fi: forward_invariant filtered env for env
proof unfold_locales
  show "filtered (set_request_header s (stamp_variant d b (rq_Header (f_req s))))" if "filtered s" for s d b
    using that P_stamp by (simp add: filtered_def set_request_header_def)
  show "filtered (set_request_header s (h_del (h_set (rq_Header (f_req s)) abVariantHeader v) abFailoverHeader))" if "filtered s" for s v
    using that P_restamp by (simp add: filtered_def set_request_header_def)
  show "filtered s1" if "filtered s" "attempt env st plain_ops w n s a = (s1, w1, r)" for s st w n a s1 w1 r
    using filtered_attempt that .
  show "filtered s1" if "filtered s" "attempt env st static_ops w n s a = (s1, w1, r)" for s st w n a s1 w1 r
    using filtered_attempt that .
qed (simp_all add: filtered_def)

text \<open>The attribution a backend sees is the one the request had, or none.\<close>

lemma canonical_actor [simp]: "canonicalKey ActorHeader = ActorHeader" "ActorHeader \<noteq> canonicalKey abFailoverHeader"
  "ActorHeader \<noteq> canonicalKey abVariantHeader" by code_simp+

lemma stamp_actor: "h_get (stamp_variant d b h) ActorHeader = h_get h ActorHeader"
  using canonical_actor by (auto simp: stamp_variant_def Let_def h_get_set h_get_del)

interpretation actor: request_filter "\<lambda>rq. h_get (rq_Header rq) ActorHeader \<in> {[], v}" "\<lambda>b rq. h_get (rq_Header rq) ActorHeader \<in> {[], v}"
proof unfold_locales
  have ne: "ActorHeader \<notin> set proxyHopHeaders" "ActorHeader \<notin> {''X-Forwarded-For'', ''User-Agent''}"
    by (simp_all add: ActorHeader_def proxyHopHeaders_def)
  have dir: "h_get (rq_Header (apply_director b st rq)) ActorHeader = h_get (rq_Header rq) ActorHeader" for b st rq
    by (simp add: apply_director_def rewriteRequestURL_def Let_def h_get_set split: option.split director.split)
      (simp add: ActorHeader_def PeerHopHeader_def PeerAuthHeader_def)
  show "h_get (rq_Header (outgoing b st rq)) ActorHeader \<in> {[], v}" if "h_get (rq_Header rq) ActorHeader \<in> {[], v}" for b st rq
    using that outgoing_get [of ActorHeader b st rq] ne by (simp add: dir)
qed (use canonical_actor in \<open>auto simp: stamp_actor h_get_set h_get_del\<close>)

text \<open>What is sent to a peer carries the hop mark, unless the client's \<^verbatim>\<open>Connection\<close> header names it.\<close>

lemma stamp_connection: "h_index (stamp_variant d b h) ''Connection'' = h_index h ''Connection''"
proof -
  have "canonicalKey abVariantHeader \<noteq> ''Connection''" "canonicalKey abFailoverHeader \<noteq> ''Connection''" by code_simp+
  then show ?thesis by (auto simp: stamp_variant_def Let_def h_index_set h_index_del)
qed

lemma hop_not_auth: "PeerHopHeader \<noteq> PeerAuthHeader"
  by (simp add: PeerHopHeader_def PeerAuthHeader_def)

definition names_hop :: "request \<Rightarrow> bool" where
  "names_hop rq \<longleftrightarrow> PeerHopHeader \<in> canonicalKey ` set (connection_tokens (rq_Header rq))"

definition is_peer :: "Backend \<Rightarrow> bool" where
  "is_peer b \<longleftrightarrow> (case b_proxy b of Some (PeerDirector _ _ _ _) \<Rightarrow> True | _ \<Rightarrow> False)"

interpretation hop_mark: request_filter "\<lambda>rq. \<not> names_hop rq" "\<lambda>b rq. is_peer b \<longrightarrow> h_get (rq_Header rq) PeerHopHeader = ''1''"
proof unfold_locales
  have 2: "canonicalKey abVariantHeader \<noteq> ''Connection''" "canonicalKey abFailoverHeader \<noteq> ''Connection''" by code_simp+
  then show "\<not> names_hop (rq\<lparr>rq_Header := h_del (h_set (rq_Header rq) abVariantHeader v) abFailoverHeader\<rparr>)" if "\<not> names_hop rq" for rq v
    using that by (simp add: names_hop_def connection_tokens_def h_index_set h_index_del)
  show "is_peer b \<longrightarrow> h_get (rq_Header (outgoing b st rq)) PeerHopHeader = ''1''" if "\<not> names_hop rq" for b st rq
  proof
    assume "is_peer b"
    then have "h_get (rq_Header (apply_director b st rq)) PeerHopHeader = ''1''"
      using hop_not_auth by (auto simp: is_peer_def apply_director_def Let_def h_get_set split: option.splits director.splits)
    moreover have "PeerHopHeader \<notin> set proxyHopHeaders" "PeerHopHeader \<notin> {''X-Forwarded-For'', ''User-Agent''}"
      by (simp_all add: PeerHopHeader_def proxyHopHeaders_def)
    ultimately show "h_get (rq_Header (outgoing b st rq)) PeerHopHeader = ''1''"
      using outgoing_get [of PeerHopHeader b st rq] that by (simp add: names_hop_def image_iff_ex)
  qed
qed (simp add: names_hop_def connection_tokens_def stamp_connection)

end
