(* ===== verification/Serve.thy ===== *)
theory Serve
  imports ForwardInv
begin

section \<open>Serving a request (\<^verbatim>\<open>ServeHTTP\<close> in \<^verbatim>\<open>cmd/proxy/router.go\<close>)\<close>

text \<open>
  The pipeline of a request: the headers only the proxy may set are stripped, the OAuth metadata is answered, the longest
  matching route is found, tombstones answer 503, unrouted and routed requests are charged to their limiter, the
  auth gate decides, the A/B test assigns a variant, the cache answers or is filled, and the request is
  forwarded. A request is one step on the router's state, apart from what the environment of the forwarding says of other goroutines, and
  from the fill another request is waiting for.
\<close>

subsection \<open>Keys of the limiters\<close>

definition maskRLKey :: "ip \<Rightarrow> string" where
  "maskRLKey a = (case to4 a of Some v4 \<Rightarrow> ip_string v4 | None \<Rightarrow> ip_string (ip_mask a (cidrMask 64 16)))"

definition rlKey :: "request \<Rightarrow> ipnet list \<Rightarrow> string" where
  "rlKey rq xffTrusted =
     (case realClientIP rq xffTrusted of
        Some a \<Rightarrow> maskRLKey a
      | None \<Rightarrow> (let host = remote_host rq in case parseIP host of Some a \<Rightarrow> maskRLKey a | None \<Rightarrow> host))"

definition retryAfterSeconds :: "int \<Rightarrow> int" where
  "retryAfterSeconds rpm =
     (let r = (if rpm \<le> 0 then defaultRateRPM else rpm); secs = \<lceil>60 / rat_of_int r\<rceil> in if secs < 1 then 1 else secs)"

subsection \<open>Hops\<close>

definition peerHopAuthToken :: "mac \<Rightarrow> string \<Rightarrow> string" where
  "peerHopAuthToken mac secret = (if secret = [] then [] else hex_encode (mac secret ''pmgr-ab-hop/v1''))"

definition hopAuthOK :: "'l Router \<Rightarrow> string \<Rightarrow> bool" where
  "hopAuthOK r v \<longleftrightarrow> rt_peerHopAuth r \<noteq> [] \<and> v = rt_peerHopAuth r"

subsection \<open>Matching\<close>

definition route_match :: "string \<Rightarrow> string \<Rightarrow> RouteGroup \<Rightarrow> bool" where
  "route_match reqHost path g \<longleftrightarrow>
     equal_fold reqHost (g_Host g) \<and> (g_PathPrefix g = [] \<or> has_prefix path (g_PathPrefix g))"

fun find_route :: "nat \<Rightarrow> string \<Rightarrow> string \<Rightarrow> RouteGroup list \<Rightarrow> (nat \<times> RouteGroup) option" where
  "find_route i reqHost path [] = None"
| "find_route i reqHost path (g # gs) = (if route_match reqHost path g then Some (i, g) else find_route (Suc i) reqHost path gs)"

definition tombstoned :: "instant \<Rightarrow> routeTombstone list \<Rightarrow> string \<Rightarrow> string \<Rightarrow> RouteGroup option \<Rightarrow> bool" where
  "tombstoned now tombs host path grp \<longleftrightarrow>
     list_ex (\<lambda>t. equal_fold host (tb_host t) \<and> (tb_path t = [] \<or> has_prefix path (tb_path t)) \<and> \<not> tb_until t < now \<and>
       (case grp of None \<Rightarrow> True | Some g \<Rightarrow> length (g_PathPrefix g) < length (tb_path t))) tombs"

definition handleOAuthWellKnown :: "authGate option \<Rightarrow> header \<Rightarrow> request \<Rightarrow> RouteGroup list \<Rightarrow> string \<Rightarrow> response option" where
  "handleOAuthWellKnown auth h rq groups reqHost =
     (case auth of
        None \<Rightarrow> None
      | Some a \<Rightarrow>
          (let path = rq_Path rq;
               isPRM = has_prefix path protectedResourcePath;
               isLegacyAS = (has_prefix path ''/.well-known/oauth-authorization-server'' \<or> has_prefix path ''/.well-known/openid-configuration'')
           in if \<not> has_prefix path ''/.well-known/'' then None
              else if \<not> isPRM \<and> \<not> isLegacyAS then None
              else if \<not> list_ex (\<lambda>g. equal_fold reqHost (g_Host g) \<and> g_AuthMode g = ''oauth'') groups then None
              else Some (if isPRM then serveProtectedResourceMetadata a h rq else redirectASMetadata a h rq)))"

subsection \<open>Dispatch and cache\<close>

text \<open>
  \<open>he_later\<close> is the clock after a fill or a wait. \<open>he_wait\<close> is how a wait for another request's fill ends: with what that
  request and others did to the cache meanwhile, or with the client gone.
\<close>

record http_env =
  he_fwd :: serve_env
  he_auth :: auth_env
  he_rnd :: random_values
  he_later :: instant
  he_wait :: "(responseCache \<Rightarrow> responseCache) option"

record 'l served =
  sv_router :: "'l Router"
  sv_wr :: wr
  sv_log :: "sent list"
  sv_returned :: bool

text \<open>What the pipeline has decided about a request when it is dispatched.\<close>

record routed =
  ro_index :: nat
  ro_group :: RouteGroup
  ro_req :: request
  ro_body :: rbody
  ro_host :: string
  ro_hopped :: bool
  ro_pin :: string
  ro_ab :: "abDecision option"

definition ab_run :: "'l Router \<Rightarrow> RouteGroup \<Rightarrow> abRun" where
  "ab_run r g = (case g_ab g of
     None \<Rightarrow> newABRun [] [] 0
   | Some svc \<Rightarrow> (case map_of (rt_abRuns r) svc of None \<Rightarrow> newABRun [] [] 0 | Some run \<Rightarrow> run))"

definition start_fwd :: "'l Router \<Rightarrow> routed \<Rightarrow> wr \<Rightarrow> fwd" where
  "start_fwd r q w =
     \<lparr>f_heap = rt_heap r, f_group = ro_group q, f_wr = w, f_req = ro_req q, f_body = ro_body q, f_tried = [], f_pin = ro_pin q,
      f_run = ab_run r (ro_group q), f_log = []\<rparr>"

definition dispatch :: "http_env \<Rightarrow> 'l Router \<Rightarrow> routed \<Rightarrow> wr \<Rightarrow> 'l served" where
  "dispatch env r q w =
     (let (s, ok) = (case ro_ab q of
                       Some d \<Rightarrow> abProxyToGroup (he_fwd env) (ro_host q) (ro_hopped q) d (start_fwd r q w)
                     | None \<Rightarrow> proxyToGroup (he_fwd env) (ro_host q) (ro_hopped q) (start_fwd r q w));
          r1 = r\<lparr>rt_heap := f_heap s, rt_groups := (rt_groups r)[ro_index q := f_group s]\<rparr>;
          r2 = (case (ro_ab q, g_ab (ro_group q)) of
                  (Some d, Some svc) \<Rightarrow> r1\<lparr>rt_abRuns := AList.update svc (f_run s) (rt_abRuns r1)\<rparr>
                | _ \<Rightarrow> r1)
      in \<lparr>sv_router = r2, sv_wr = f_wr s, sv_log = f_log s, sv_returned = ok\<rparr>)"

definition put_cache :: "'l Router \<Rightarrow> nat \<Rightarrow> responseCache \<Rightarrow> 'l Router" where
  "put_cache r ca c = r\<lparr>rt_cacheObjs := AList.update ca c (rt_cacheObjs r)\<rparr>"

text \<open>The deferred actions of a fill: the store if the handler completed, then the release of the waiters.\<close>

definition store_entry :: "http_env \<Rightarrow> string \<Rightarrow> bool \<Rightarrow> wr \<Rightarrow> responseCache \<Rightarrow> responseCache option" where
  "store_entry env key completed w c =
     (if \<not> completed then Some c
      else case wr_rec w of
        None \<Rightarrow> Some c
      | Some rec \<Rightarrow> (case recEntry rec of
                      None \<Rightarrow> Some c
                    | Some e \<Rightarrow> cache_put c key (e\<lparr>ce_storedAt := he_later env\<rparr>) (he_later env)))"

definition fill :: "http_env \<Rightarrow> 'l Router \<Rightarrow> routed \<Rightarrow> wr \<Rightarrow> nat \<Rightarrow> string \<Rightarrow> nat option \<Rightarrow> 'l served" where
  "fill env r q w ca key claim =
     (let sv = dispatch env r q (w\<lparr>wr_rec := Some (newCacheRecorder ''MISS'' True)\<rparr>)
      in case map_of (rt_cacheObjs (sv_router sv)) ca of
           None \<Rightarrow> sv
         | Some c \<Rightarrow>
             (case store_entry env key (sv_returned sv) (sv_wr sv) c of
                None \<Rightarrow> sv\<lparr>sv_returned := False\<rparr>
              | Some c1 \<Rightarrow>
                  (case claim of
                     None \<Rightarrow> sv\<lparr>sv_router := put_cache (sv_router sv) ca c1\<rparr>
                   | Some f \<Rightarrow> (case endFill c1 key f of
                                 None \<Rightarrow> sv\<lparr>sv_router := put_cache (sv_router sv) ca c1, sv_returned := False\<rparr>
                               | Some c2 \<Rightarrow> sv\<lparr>sv_router := put_cache (sv_router sv) ca c2\<rparr>))))"

definition answer :: "'l Router \<Rightarrow> wr \<Rightarrow> response \<Rightarrow> 'l served" where
  "answer r w rs = \<lparr>sv_router = r, sv_wr = wr_respond w rs, sv_log = [], sv_returned = True\<rparr>"

definition serveWithCache :: "http_env \<Rightarrow> 'l Router \<Rightarrow> routed \<Rightarrow> wr \<Rightarrow> nat \<Rightarrow> responseCache \<Rightarrow> bool \<Rightarrow> string \<Rightarrow> 'l served" where
  "serveWithCache env r q w ca c cacheable key =
     (let now = se_now (he_fwd env); bypass = w\<lparr>wr_rec := Some (newCacheRecorder ''BYPASS'' False)\<rparr>;
          hit = (\<lambda>r e t. answer r w (serveCached (wr_header w) (rq_Method (ro_req q)) e t))
      in if \<not> cacheable then dispatch env r q bypass
         else case cache_get c key now of
           (c1, Some e) \<Rightarrow> hit (put_cache r ca c1) e now
         | (c1, None) \<Rightarrow>
             if rq_Method (ro_req q) = ''HEAD'' then dispatch env (put_cache r ca c1) q bypass
             else (case beginFill c1 key of
                     (c2, f, True) \<Rightarrow> fill env (put_cache r ca c2) q w ca key (Some f)
                   | (c2, f, False) \<Rightarrow>
                       (case he_wait env of
                          None \<Rightarrow> \<lparr>sv_router = put_cache r ca c2, sv_wr = w, sv_log = [], sv_returned = True\<rparr>
                        | Some others \<Rightarrow>
                            (case cache_get (others c2) key (he_later env) of
                               (c3, Some e) \<Rightarrow> hit (put_cache r ca c3) e (he_later env)
                             | (c3, None) \<Rightarrow> fill env (put_cache r ca c3) q w ca key None))))"

subsection \<open>The pipeline\<close>

definition strip_prefix :: "RouteGroup \<Rightarrow> string \<Rightarrow> string" where
  "strip_prefix g path =
     (if g_StripPrefix g \<and> g_PathPrefix g \<noteq> []
      then (let p = trim_prefix path (g_PathPrefix g) in if has_prefix p ''/'' then p else ''/'' @ p)
      else path)"

definition sticky_pin :: "serve_env \<Rightarrow> RouteGroup \<Rightarrow> bool \<Rightarrow> request \<Rightarrow> string" where
  "sticky_pin env g hopped rq =
     (if g_Sticky g \<and> \<not> hopped
      then (case req_cookie rq (stickyCookieName (se_sha env) g) of None \<Rightarrow> [] | Some v \<Rightarrow> v) else [])"

text \<open>The A/B assignment of a group with a test: it may change the run, the queued headers and the request.\<close>

definition assign_variant :: "http_env \<Rightarrow> 'l Router \<Rightarrow> RouteGroup \<Rightarrow> bool \<Rightarrow> bool \<Rightarrow> bool \<Rightarrow> request \<Rightarrow> string \<Rightarrow> wr \<Rightarrow>
    'l Router \<times> wr \<times> request \<times> abDecision option" where
  "assign_variant env r g hopped authHop failoverHop rq origPath w =
     (case (g_ab g, g_abCfg g) of
        (Some svc, Some cfg) \<Rightarrow>
          (let (cx, d) = abAssign (se_sha (he_fwd env)) (he_rnd env) (se_now (he_fwd env)) (ab_run r g) cfg (wr_header w) rq origPath
                           hopped authHop failoverHop
           in (r\<lparr>rt_abRuns := AList.update svc (cx_run cx) (rt_abRuns r)\<rparr>, w\<lparr>wr_header := cx_header cx\<rparr>, cx_request cx, Some d))
      | _ \<Rightarrow> (r, w, rq, None))"

text \<open>From the point where the request is admitted: \<open>rq\<close> is what the gate lets through, \<open>w\<close> has the headers queued so far.\<close>

definition serve_admitted :: "http_env \<Rightarrow> 'l Router \<Rightarrow> nat \<Rightarrow> RouteGroup \<Rightarrow> string \<Rightarrow> bool \<Rightarrow> bool \<Rightarrow> bool \<Rightarrow> request \<Rightarrow> rbody \<Rightarrow> wr \<Rightarrow> 'l served" where
  "serve_admitted env r i g reqHost hopped authHop failoverHop rq body w =
     (let origPath = rq_Path rq; origQuery = rq_RawQuery rq;
          rq1 = rq\<lparr>rq_Path := strip_prefix g origPath\<rparr>;
          pin = sticky_pin (he_fwd env) g hopped rq1;
          (r1, w1, rq2, ab) = assign_variant env r g hopped authHop failoverHop rq1 origPath w;
          cacheable = (cacheRequestEligible rq2 (g_cache g \<noteq> None) (g_CacheTTL g) (g_CachePaths g) origPath \<and>
                       (case ab of None \<Rightarrow> True | Some d \<Rightarrow> d_static d));
          key = cacheKey (g_Host g) origPath origQuery (h_get (rq_Header rq2) ''Accept-Encoding'');
          rq3 = rq2\<lparr>rq_Header := foldl h_del (rq_Header rq2) (g_DropHeaders g)\<rparr>;
          q = \<lparr>ro_index = i, ro_group = g, ro_req = rq3, ro_body = body, ro_host = reqHost, ro_hopped = hopped, ro_pin = pin, ro_ab = ab\<rparr>
      in case g_cache g of
           None \<Rightarrow> dispatch env r1 q w1
         | Some ca \<Rightarrow> (case map_of (rt_cacheObjs r1) ca of
                         None \<Rightarrow> dispatch env r1 q w1
                       | Some c \<Rightarrow> serveWithCache env r1 q w1 ca c cacheable key))"

definition charge :: "'l limiter_ops \<Rightarrow> 'l Router \<Rightarrow> RouteGroup \<Rightarrow> string \<Rightarrow> instant \<Rightarrow> 'l Router \<times> bool" where
  "charge ops r g key now =
     (case g_limiter g of
        None \<Rightarrow> (r, True)
      | Some a \<Rightarrow> (case map_of (rt_limObjs r) a of
                    None \<Rightarrow> (r, False)
                  | Some l \<Rightarrow> (let (l1, ok) = lo_allow ops l key now in (r\<lparr>rt_limObjs := AList.update a l1 (rt_limObjs r)\<rparr>, ok))))"

definition too_many :: "wr \<Rightarrow> int \<Rightarrow> response" where
  "too_many w rpm = http_error (h_set (wr_header w) ''Retry-After'' (itoa (retryAfterSeconds rpm))) ''rate limit exceeded'' 429"

definition serve_unrouted :: "http_env \<Rightarrow> 'l Router \<Rightarrow> request \<Rightarrow> string \<Rightarrow> wr \<Rightarrow> 'l served" where
  "serve_unrouted env r rq reqHost w =
     (let (r1, ok) = (case rt_unrouted r of
                        None \<Rightarrow> (r, True)
                      | Some l \<Rightarrow> (let (l1, ok) = Allow l (rlKey rq (rt_xffTrusted r)) (se_now (he_fwd env)) in (r\<lparr>rt_unrouted := Some l1\<rparr>, ok)))
      in if ok then answer r1 w (serveUnavailable (wr_header w) 404 reqHost unavailable_reason)
         else answer r1 w (too_many w defaultRateRPM))"

definition serve_routed :: "'l limiter_ops \<Rightarrow> http_env \<Rightarrow> 'l Router \<Rightarrow> nat \<Rightarrow> RouteGroup \<Rightarrow> string \<Rightarrow> bool \<Rightarrow> bool \<Rightarrow> bool \<Rightarrow> request \<Rightarrow> rbody \<Rightarrow> wr \<Rightarrow> 'l served" where
  "serve_routed ops env r i g reqHost hopped authHop failoverHop rq body w =
     (let (r1, ok) = charge ops r g (rlKey rq (rt_xffTrusted r)) (se_now (he_fwd env))
      in if \<not> ok then answer r1 w (too_many w (g_RateRPM g))
         else if \<not> g_AuthRequired g then serve_admitted env r1 i g reqHost hopped authHop failoverHop rq body w
         else case rt_auth r1 of
           None \<Rightarrow> answer r1 w (serveUnavailable (wr_header w) 503 reqHost unavailable_reason)
         | Some a \<Rightarrow>
             (case authorize (he_auth env) (se_now (he_fwd env)) a (wr_header w) rq g of
                (a1, Denied rs) \<Rightarrow> answer (r1\<lparr>rt_auth := Some a1\<rparr>) w rs
              | (a1, Allowed rq1) \<Rightarrow> serve_admitted env (r1\<lparr>rt_auth := Some a1\<rparr>) i g reqHost hopped authHop failoverHop rq1 body w))"

text \<open>The headers only the proxy may set, removed from every inbound request.\<close>

definition strip_inbound :: "request \<Rightarrow> request" where
  "strip_inbound rq =
     rq\<lparr>rq_Header := h_del (h_del (h_del (h_del (rq_Header rq) ActorHeader) PeerHopHeader) PeerAuthHeader) abFailoverHeader\<rparr>"

definition ServeHTTP :: "'l limiter_ops \<Rightarrow> http_env \<Rightarrow> 'l Router \<Rightarrow> request \<Rightarrow> rbody \<Rightarrow> 'l served" where
  "ServeHTTP ops env r rq body =
     (let h1 = h_del (rq_Header rq) ActorHeader;
          hopped = (h_get h1 PeerHopHeader \<noteq> []);
          authHop = (hopped \<and> hopAuthOK r (h_get h1 PeerAuthHeader));
          failoverHop = (authHop \<and> h_get h1 abFailoverHeader = ''1'');
          rq1 = strip_inbound rq;
          reqHost = hostOnly (rq_Host rq1); w = new_wr [] None; m = find_route 0 reqHost (rq_Path rq1) (rt_groups r)
      in case handleOAuthWellKnown (rt_auth r) (wr_header w) rq1 (rt_groups r) reqHost of
           Some rs \<Rightarrow> answer r w rs
         | None \<Rightarrow>
             if tombstoned (se_now (he_fwd env)) (rt_tombstones r) reqHost (rq_Path rq1) (map_option snd m)
             then answer r w (serveUnavailableRetry (wr_header w) 503 reqHost unavailable_reason transientRetryAfter)
             else (case m of
                     None \<Rightarrow> serve_unrouted env r rq1 reqHost w
                   | Some (i, g) \<Rightarrow> serve_routed ops env r i g reqHost hopped authHop failoverHop rq1 body w))"

record RouteRateLimitSnapshot =
  rs_Host :: string
  rs_Path :: string
  rs_RPM :: int
  rs_Buckets :: "bucketSnapshot list"

definition RateLimitSnapshot :: "rateLimiter Router \<Rightarrow> instant \<Rightarrow> RouteRateLimitSnapshot list" where
  "RateLimitSnapshot r now =
     List.map_filter (\<lambda>g. if \<not> g_RateLimit g then None
        else case g_limiter g of
          None \<Rightarrow> None
        | Some a \<Rightarrow> map_option (\<lambda>l. \<lparr>rs_Host = g_Host g, rs_Path = g_PathPrefix g, rs_RPM = g_RateRPM g, rs_Buckets = Snapshot l now\<rparr>)
                      (map_of (rt_limObjs r) a)) (rt_groups r)"

subsection \<open>Routing\<close>

lemma find_route_Some:
  "find_route i reqHost path gs = Some (j, g) \<Longrightarrow> i \<le> j \<and> j - i < length gs \<and> gs ! (j - i) = g \<and> route_match reqHost path g"
proof (induction gs arbitrary: i)
  case (Cons x gs)
  show ?case
  proof (cases "route_match reqHost path x")
    case True
    with Cons.prems show ?thesis by auto
  next
    case False
    with Cons have "Suc i \<le> j \<and> j - Suc i < length gs \<and> gs ! (j - Suc i) = g \<and> route_match reqHost path g" by simp
    then show ?thesis by (auto simp: nth_Cons')
  qed
qed simp

lemma find_route_find: "map_option snd (find_route i reqHost path gs) = find (route_match reqHost path) gs"
  by (induction gs arbitrary: i) simp_all

text \<open>
  (C29) The longest matching route wins. After every refresh a request goes to a route of the table that matches its host and path and whose path prefix is at least as
  long as that of every other matching route, and it is unrouted only if no route matches.
\<close>

theorem longest_route_wins:
  assumes "Set ops r now groups = Some (r', stale)"
  shows "case find_route 0 reqHost path (rt_groups r') of
      Some (i, g) \<Rightarrow> i < length (rt_groups r') \<and> rt_groups r' ! i = g \<and> route_match reqHost path g \<and>
        (\<forall>g'\<in>set (rt_groups r'). route_match reqHost path g' \<longrightarrow> length (g_PathPrefix g') \<le> length (g_PathPrefix g))
    | None \<Rightarrow> \<forall>g'\<in>set (rt_groups r'). \<not> route_match reqHost path g'"
proof -
  have "map g_PathPrefix (rt_groups r') = map g_PathPrefix (sort_longest g_PathPrefix groups)"
    using assms by (rule Set_parts) (rule map_core_eqD [OF _ core_eqD(2)])
  moreover have "sorted_wrt (\<lambda>x y. length y \<le> length x) (map g_PathPrefix (sort_longest g_PathPrefix groups))"
    using sorted_sort_longest [of g_PathPrefix groups] by (simp add: sorted_wrt_map)
  ultimately have "sorted_wrt (\<lambda>x y. length y \<le> length x) (map g_PathPrefix (rt_groups r'))" by (simp only:)
  then have s: "sorted_wrt (\<lambda>x y. length (g_PathPrefix y) \<le> length (g_PathPrefix x)) (rt_groups r')"
    by (simp add: sorted_wrt_map)
  note f = find_route_find [of 0 reqHost path "rt_groups r'"]
  show ?thesis
  proof (cases "find_route 0 reqHost path (rt_groups r')")
    case None
    with f have "find (route_match reqHost path) (rt_groups r') = None" by simp
    with None show ?thesis by (auto simp: find_None_iff)
  next
    case (Some ig)
    obtain i g where ig: "ig = (i, g)" by (cases ig)
    have "length (g_PathPrefix g') \<le> length (g_PathPrefix g)" if "g' \<in> set (rt_groups r')" "route_match reqHost path g'" for g'
      using find_first_longest [OF s, of "route_match reqHost path" g g'] f Some ig that by simp
    with Some ig find_route_Some [of 0 reqHost path "rt_groups r'" i g] show ?thesis by simp
  qed
qed

theorem longest_route_wins_witness:
  "\<exists>r' stale. Set mem_ops (newRouter (\<lambda>a. zeroBackend)) 0 [zeroGroup\<lparr>g_Host := ''h''\<rparr>, zeroGroup\<lparr>g_Host := ''h'', g_PathPrefix := ''/api''\<rparr>] = Some (r', stale) \<and>
    (case find_route 0 ''H'' ''/api/x'' (rt_groups r') of Some (i, g) \<Rightarrow> route_match ''H'' ''/api/x'' g
     | None \<Rightarrow> list_all (\<lambda>g'. \<not> route_match ''H'' ''/api/x'' g') (rt_groups r'))"
proof -
  let ?r = "newRouter (\<lambda>a. zeroBackend) :: rateLimiter Router"
  let ?gs = "[zeroGroup\<lparr>g_Host := ''h''\<rparr>, zeroGroup\<lparr>g_Host := ''h'', g_PathPrefix := ''/api''\<rparr>]"
  have "limiters_ok ?r" by (simp add: limiters_ok_def newRouter_def)
  then obtain p where "reconcileLimiters mem_ops ?r (sort_longest g_PathPrefix ?gs) = Some p"
    using mem.reconcileLimiters_inv by (metis limiters_ok_iff)
  from Set_total [OF this] obtain r' stale where s: "Set mem_ops ?r 0 ?gs = Some (r', stale)" by blast
  from longest_route_wins [OF s, of "''H''" "''/api/x''"] s show ?thesis by (auto simp: list_all_iff split: option.splits)
qed

subsection \<open>What dispatch changes\<close>

lemma dispatch_frame [simp]:
  "rt_limObjs (sv_router (dispatch env r q w)) = rt_limObjs r" "rt_cacheObjs (sv_router (dispatch env r q w)) = rt_cacheObjs r"
  "rt_limiters (sv_router (dispatch env r q w)) = rt_limiters r" "rt_xffTrusted (sv_router (dispatch env r q w)) = rt_xffTrusted r"
  by (simp_all add: dispatch_def Let_def case_prod_unfold split: option.split)

definition forwarded :: "http_env \<Rightarrow> 'l Router \<Rightarrow> routed \<Rightarrow> wr \<Rightarrow> fwd" where
  "forwarded env r q w = fst (case ro_ab q of
       Some d \<Rightarrow> abProxyToGroup (he_fwd env) (ro_host q) (ro_hopped q) d (start_fwd r q w)
     | None \<Rightarrow> proxyToGroup (he_fwd env) (ro_host q) (ro_hopped q) (start_fwd r q w))"

lemma dispatch_log: "sv_log (dispatch env r q w) = f_log (forwarded env r q w)"
  "rt_groups (sv_router (dispatch env r q w)) = (rt_groups r)[ro_index q := f_group (forwarded env r q w)]"
  by (auto simp: dispatch_def forwarded_def Let_def case_prod_unfold split: option.split)

lemma forwarded_route: "same_route (ro_group q) (f_group (forwarded env r q w))"
proof -
  have "same_route (ro_group q) (f_group (start_fwd r q w))" by (simp add: start_fwd_def)
  then show ?thesis unfolding forwarded_def
    by (auto simp: route_kept.I_proxyToGroup route_kept.I_abProxyToGroup split: option.split)
qed

text \<open>Every request that is sent satisfies what a filter promises.\<close>

context request_filter
begin

lemma forwarded_sent:
  assumes "P (ro_req q)"
  shows "\<forall>e\<in>set (f_log (forwarded env r q w)). R (sn_backend e) (sn_request e)"
proof -
  have "filtered (start_fwd r q w)" using assms by (simp add: filtered_def start_fwd_def)
  then have "filtered (forwarded env r q w)"
    by (auto simp: forwarded_def fi.I_proxyToGroup fi.I_abProxyToGroup split: option.split)
  then show ?thesis by (simp add: filtered_def)
qed

end

lemma fill_log: "sv_log (fill env r q w ca key claim) = sv_log (dispatch env r q (w\<lparr>wr_rec := Some (newCacheRecorder ''MISS'' True)\<rparr>))"
  by (simp add: fill_def Let_def split: option.split)

lemma put_cache_heap [simp]: "rt_heap (put_cache r ca c) = rt_heap r" "rt_limObjs (put_cache r ca c) = rt_limObjs r"
  "rt_groups (put_cache r ca c) = rt_groups r" "rt_xffTrusted (put_cache r ca c) = rt_xffTrusted r"
  by (simp_all add: put_cache_def)

text \<open>With or without a cache, what is sent is what one dispatch of the request sends, or nothing.\<close>

definition sends_by :: "http_env \<Rightarrow> 'l Router \<Rightarrow> routed \<Rightarrow> sent list \<Rightarrow> bool" where
  "sends_by env (r :: 'l Router) q l \<longleftrightarrow> l = [] \<or> (\<exists>(r' :: 'l Router) w. rt_heap r' = rt_heap r \<and> l = sv_log (dispatch env r' q w))"

lemma sends_by_dispatch: "rt_heap (r' :: 'l Router) = rt_heap (r :: 'l Router) \<Longrightarrow> sends_by env r q (sv_log (dispatch env r' q w))"
  by (auto simp: sends_by_def)

lemma sends_by_fill: "rt_heap (r' :: 'l Router) = rt_heap (r :: 'l Router) \<Longrightarrow> sends_by env r q (sv_log (fill env r' q w ca key claim))"
  by (simp add: fill_log sends_by_dispatch)

lemma sends_by_answer: "sends_by env r q (sv_log (answer r' w rs))"
  by (simp add: answer_def sends_by_def)

lemma serveWithCache_sends: "sends_by env r q (sv_log (serveWithCache env r q w ca c cacheable key))"
  by (auto simp: serveWithCache_def Let_def sends_by_dispatch sends_by_fill sends_by_answer sends_by_def [of _ _ _ "[]"]
      split: prod.split option.split bool.split)

lemma ab_unpinned_request:
  "\<exists>qs. cx_request (fst (ab_unpinned sha rnd now ph c hopped cx d)) = (cx_request cx)\<lparr>rq_RawQuery := qs\<rparr>"
proof -
  have same: "\<exists>qs. rq = rq\<lparr>rq_RawQuery := qs\<rparr>" for rq :: request by (rule exI [of _ "rq_RawQuery rq"]) simp
  have newPin: "ab_newPin sha rnd now ph c cx d v src = (a, b) \<Longrightarrow> cx_request a = cx_request cx" for cx d v src a b
    by (metis ab_newPin_simps(1) fst_conv)
  have "cx_request (fst (ab_newSession sha rnd now ph c cx d)) = cx_request cx" for cx d
    by (auto simp: ab_newSession_def Let_def split: option.split dest: newPin)
  then show ?thesis
    by (auto simp: ab_unpinned_def Let_def case_prod_unfold same split: option.split)
qed

lemma abAssign_request:
  "rq_Header (cx_request (fst (abAssign sha rnd now run cfg h rq origPath hopped authHop failoverHop))) = h_del (rq_Header rq) abVariantHeader"
  "rq_Method (cx_request (fst (abAssign sha rnd now run cfg h rq origPath hopped authHop failoverHop))) = rq_Method rq"
proof -
  have "rq_Header (cx_request (fst (ab_unpinned sha rnd now ph c hopped cx d))) = rq_Header (cx_request cx) \<and>
      rq_Method (cx_request (fst (ab_unpinned sha rnd now ph c hopped cx d))) = rq_Method (cx_request cx)" for ph c cx d
    using ab_unpinned_request [of sha rnd now ph c hopped cx d] by auto
  then show
    "rq_Header (cx_request (fst (abAssign sha rnd now run cfg h rq origPath hopped authHop failoverHop))) = h_del (rq_Header rq) abVariantHeader"
    "rq_Method (cx_request (fst (abAssign sha rnd now run cfg h rq origPath hopped authHop failoverHop))) = rq_Method rq"
    by (auto simp: abAssign_def Let_def case_prod_unfold split: option.split)
qed

text \<open>The request that an admitted request turns into when it is dispatched.\<close>

definition derived :: "RouteGroup \<Rightarrow> bool \<Rightarrow> rbody \<Rightarrow> request \<Rightarrow> routed \<Rightarrow> bool" where
  "derived g hopped body rq q \<longleftrightarrow> ro_group q = g \<and> ro_hopped q = hopped \<and> ro_body q = body \<and> (hopped \<longrightarrow> ro_pin q = []) \<and>
     (\<exists>ks. rq_Header (ro_req q) = foldl h_del (rq_Header rq) ks)"

lemma assign_variant_frame:
  assumes "assign_variant env r g hopped authHop failoverHop rq origPath w = (r1, w1, rq2, ab)"
  shows "rt_heap r1 = rt_heap r" "rt_limObjs r1 = rt_limObjs r" "rt_cacheObjs r1 = rt_cacheObjs r" "rt_groups r1 = rt_groups r" "rt_xffTrusted r1 = rt_xffTrusted r"
    "\<exists>ks. rq_Header rq2 = foldl h_del (rq_Header rq) ks \<and> set ks \<subseteq> {abVariantHeader}"
proof -
  show "rt_heap r1 = rt_heap r" "rt_limObjs r1 = rt_limObjs r" "rt_cacheObjs r1 = rt_cacheObjs r" "rt_groups r1 = rt_groups r" "rt_xffTrusted r1 = rt_xffTrusted r"
    using assms by (auto simp: assign_variant_def Let_def case_prod_unfold split: option.splits)
  have "rq2 = rq \<or> rq_Header rq2 = h_del (rq_Header rq) abVariantHeader"
    using assms abAssign_request(1) by (auto simp: assign_variant_def Let_def case_prod_unfold split: option.splits)
  then show "\<exists>ks. rq_Header rq2 = foldl h_del (rq_Header rq) ks \<and> set ks \<subseteq> {abVariantHeader}"
  proof
    assume "rq2 = rq"
    then show ?thesis by (intro exI [of _ "[]"]) simp
  next
    assume "rq_Header rq2 = h_del (rq_Header rq) abVariantHeader"
    then show ?thesis by (intro exI [of _ "[abVariantHeader]"]) simp
  qed
qed

lemma serve_admitted_sends:
  "\<exists>q. derived g hopped body rq q \<and> sends_by env r q (sv_log (serve_admitted env r i g reqHost hopped authHop failoverHop rq body w))"
proof -
  let ?rq1 = "rq\<lparr>rq_Path := strip_prefix g (rq_Path rq)\<rparr>"
  obtain r1 w1 rq2 ab where x: "assign_variant env r g hopped authHop failoverHop ?rq1 (rq_Path rq) w = (r1, w1, rq2, ab)" by (metis prod.exhaust)
  note f = assign_variant_frame [OF x]
  let ?q = "\<lparr>ro_index = i, ro_group = g, ro_req = rq2\<lparr>rq_Header := foldl h_del (rq_Header rq2) (g_DropHeaders g)\<rparr>, ro_body = body,
      ro_host = reqHost, ro_hopped = hopped, ro_pin = sticky_pin (he_fwd env) g hopped ?rq1, ro_ab = ab\<rparr>"
  obtain ks where "rq_Header rq2 = foldl h_del (rq_Header rq) ks" using f(6) by auto
  then have "foldl h_del (rq_Header rq2) (g_DropHeaders g) = foldl h_del (rq_Header rq) (ks @ g_DropHeaders g)" by simp
  then have "\<exists>ks. foldl h_del (rq_Header rq2) (g_DropHeaders g) = foldl h_del (rq_Header rq) ks" by (rule exI)
  then have "derived g hopped body rq ?q" by (simp add: derived_def sticky_pin_def)
  moreover have "sends_by env r1 ?q (sv_log (serve_admitted env r i g reqHost hopped authHop failoverHop rq body w))"
    by (auto simp: serve_admitted_def Let_def x sends_by_dispatch serveWithCache_sends split: option.split)
  ultimately show ?thesis using f(1) by (auto simp: sends_by_def)
qed

end
