(* ===== verification/ServeLaws.thy ===== *)
theory ServeLaws
  imports Serve
begin

section \<open>Properties of the pipeline\<close>

text \<open>
  What a request must pass before anything of it reaches a backend (route, limiter, gate), what the backends are told of it, and what the
  pipeline leaves alone.
\<close>

subsection \<open>What is sent\<close>

text \<open>The decision of the limiter and of the gate for a routed request; \<open>rq'\<close> is what goes on.\<close>

definition admitted :: "'l limiter_ops \<Rightarrow> http_env \<Rightarrow> 'l Router \<Rightarrow> RouteGroup \<Rightarrow> request \<Rightarrow> request \<Rightarrow> bool" where
  "admitted ops env r g rq rq' \<longleftrightarrow>
     snd (charge ops r g (rlKey rq (rt_xffTrusted r)) (se_now (he_fwd env))) \<and>
     (if g_AuthRequired g
      then (\<exists>a a1. rt_auth r = Some a \<and> authorize (he_auth env) (se_now (he_fwd env)) a [] rq g = (a1, Allowed rq'))
      else rq' = rq)"

lemma charge_frame [simp]:
  "rt_auth (fst (charge ops r g key now)) = rt_auth r" "rt_heap (fst (charge ops r g key now)) = rt_heap r"
  "rt_groups (fst (charge ops r g key now)) = rt_groups r" "rt_cacheObjs (fst (charge ops r g key now)) = rt_cacheObjs r"
  "rt_limiters (fst (charge ops r g key now)) = rt_limiters r" "rt_abRuns (fst (charge ops r g key now)) = rt_abRuns r" "rt_xffTrusted (fst (charge ops r g key now)) = rt_xffTrusted r"
  by (simp_all add: charge_def Let_def case_prod_unfold split: option.split)

lemma new_wr_header [simp]: "wr_header (new_wr h rec) = h"
  by (simp add: new_wr_def)

lemma answer_log [simp]: "sv_log (answer r w rs) = []" "sv_router (answer r w rs) = r"
  by (simp_all add: answer_def)

lemma serve_routed_sends:
  fixes r :: "'l Router"
  assumes "e \<in> set (sv_log (serve_routed ops env r i g reqHost hopped authHop failoverHop rq body (new_wr [] None)))"
  obtains rq' and r' :: "'l Router" where "admitted ops env r g rq rq'" "rt_heap r' = rt_heap r"
    "e \<in> set (sv_log (serve_admitted env r' i g reqHost hopped authHop failoverHop rq' body (new_wr [] None)))"
proof -
  let ?c = "charge ops r g (rlKey rq (rt_xffTrusted r)) (se_now (he_fwd env))"
  obtain r1 ok where c: "?c = (r1, ok)" by (rule prod.exhaust)
  have f: "rt_auth r1 = rt_auth r" "rt_heap r1 = rt_heap r"
    using charge_frame(1,2) [of ops r g "rlKey rq (rt_xffTrusted r)" "se_now (he_fwd env)"] c by simp_all
  show ?thesis
  proof (cases "g_AuthRequired g")
    case False
    with assms c have "ok" "e \<in> set (sv_log (serve_admitted env r1 i g reqHost hopped authHop failoverHop rq body (new_wr [] None)))"
      by (auto simp: serve_routed_def split: if_splits)
    with False c f show ?thesis by (intro that [of rq r1]) (simp_all add: admitted_def)
  next
    case True
    obtain a a1 rq' where "ok" "rt_auth r = Some a" "authorize (he_auth env) (se_now (he_fwd env)) a [] rq g = (a1, Allowed rq')"
      "e \<in> set (sv_log (serve_admitted env (r1\<lparr>rt_auth := Some a1\<rparr>) i g reqHost hopped authHop failoverHop rq' body (new_wr [] None)))"
      using assms c f True by (auto simp: serve_routed_def split: if_splits option.splits prod.splits auth_result.splits)
    with True c f show ?thesis by (intro that [of rq' "r1\<lparr>rt_auth := Some a1\<rparr>"]) (simp_all add: admitted_def)
  qed
qed

text \<open>One entry of what an admitted request sends.\<close>

definition body_ok :: "rbody \<Rightarrow> bool" where
  "body_ok bd \<longleftrightarrow> bd_getBody bd = None \<and> (bd_present bd \<or> bd_rest bd = [])"

lemma dispatch_entry_ok:
  assumes "e \<in> set (sv_log (dispatch env r q w))" "body_ok (ro_body q)" "ro_hopped q \<longrightarrow> ro_pin q = []"
  shows "entry_ok (g_Backends (ro_group q)) (ro_hopped q) (bd_rest (ro_body q)) e"
proof -
  have s: "fwd_start (ro_hopped q) (start_fwd r q w)" using assms(2,3) by (simp add: fwd_start_def start_fwd_def body_ok_def)
  have "e \<in> set (f_log (forwarded env r q w))" using assms(1) by (simp add: dispatch_log)
  then show ?thesis using proxyToGroup_log [OF s, of "he_fwd env" "ro_host q"] abProxyToGroup_log [OF s, of "he_fwd env" "ro_host q"]
    by (auto simp: forwarded_def fwd_post_def start_fwd_def split: option.splits)
qed

lemma serve_admitted_entry:
  fixes r :: "'l Router"
  assumes "e \<in> set (sv_log (serve_admitted env r i g reqHost hopped authHop failoverHop rq body w))"
  shows "body_ok body \<Longrightarrow> entry_ok (g_Backends g) hopped (bd_rest body) e"
    and "h_get (rq_Header (sn_request e)) ActorHeader \<in> {[], h_get (rq_Header rq) ActorHeader}"
    and "\<not> names_hop rq \<Longrightarrow> is_peer (sn_backend e) \<Longrightarrow> h_get (rq_Header (sn_request e)) PeerHopHeader = ''1''"
proof -
  obtain q where q: "derived g hopped body rq q" "sends_by env r q (sv_log (serve_admitted env r i g reqHost hopped authHop failoverHop rq body w))"
    using serve_admitted_sends by blast
  obtain r' :: "'l Router" and w' where d: "e \<in> set (sv_log (dispatch env r' q w'))" using q(2) assms by (auto simp: sends_by_def)
  obtain ks where ks: "rq_Header (ro_req q) = foldl h_del (rq_Header rq) ks" using q(1) by (auto simp: derived_def)
  show "entry_ok (g_Backends g) hopped (bd_rest body) e" if "body_ok body"
    using dispatch_entry_ok [OF d] that q(1) by (simp add: derived_def)
  show "h_get (rq_Header (sn_request e)) ActorHeader \<in> {[], h_get (rq_Header rq) ActorHeader}"
  proof -
    have "h_get (rq_Header (ro_req q)) ActorHeader \<in> {[], h_get (rq_Header rq) ActorHeader}" by (simp add: ks h_get_foldl_del)
    from actor.forwarded_sent [OF this, of env r' w'] d show ?thesis by (simp add: dispatch_log)
  qed
  show "h_get (rq_Header (sn_request e)) PeerHopHeader = ''1''" if "\<not> names_hop rq" "is_peer (sn_backend e)"
  proof -
    have "h_index (rq_Header (ro_req q)) ''Connection'' \<in> {[], h_index (rq_Header rq) ''Connection''}"
      unfolding ks by (induction ks arbitrary: rq rule: rev_induct) (auto simp: h_index_del)
    then have "\<not> names_hop (ro_req q)" using that(1) by (elim insertE) (simp_all add: names_hop_def connection_tokens_def)
    from hop_mark.forwarded_sent [OF this, of env r' w'] d that(2) show ?thesis by (auto simp: dispatch_log)
  qed
qed

lemma strip_inbound_frame [simp]:
  "rq_Host (strip_inbound rq) = rq_Host rq" "rq_Path (strip_inbound rq) = rq_Path rq" "rq_RemoteAddr (strip_inbound rq) = rq_RemoteAddr rq"
  "rq_Method (strip_inbound rq) = rq_Method rq" "rq_RawQuery (strip_inbound rq) = rq_RawQuery rq"
  by (simp_all add: strip_inbound_def)

lemma strip_inbound_actor: "h_get (rq_Header (strip_inbound rq)) ActorHeader = []"
  by (simp add: strip_inbound_def h_get_del)

text \<open>Whether a request came from a peer.\<close>

definition is_hopped :: "request \<Rightarrow> bool" where
  "is_hopped rq \<longleftrightarrow> h_get (rq_Header rq) PeerHopHeader \<noteq> []"

lemma actor_not_hop: "PeerHopHeader \<noteq> ActorHeader"
  by (simp add: PeerHopHeader_def ActorHeader_def)

definition auth_hop :: "'l Router \<Rightarrow> request \<Rightarrow> bool" where
  "auth_hop r rq \<longleftrightarrow> is_hopped rq \<and> hopAuthOK r (h_get (rq_Header rq) PeerAuthHeader)"

definition failover_hop :: "'l Router \<Rightarrow> request \<Rightarrow> bool" where
  "failover_hop r rq \<longleftrightarrow> auth_hop r rq \<and> h_get (rq_Header rq) abFailoverHeader = ''1''"

lemma hop_flags:
  "h_get (h_del (rq_Header rq) ActorHeader) PeerHopHeader = h_get (rq_Header rq) PeerHopHeader"
  "h_get (h_del (rq_Header rq) ActorHeader) PeerAuthHeader = h_get (rq_Header rq) PeerAuthHeader"
  "h_get (h_del (rq_Header rq) ActorHeader) abFailoverHeader = h_get (rq_Header rq) abFailoverHeader"
proof -
  have "PeerAuthHeader \<noteq> ActorHeader" by (simp add: PeerAuthHeader_def ActorHeader_def)
  with actor_not_hop canonical_actor(2) [symmetric] show
    "h_get (h_del (rq_Header rq) ActorHeader) PeerHopHeader = h_get (rq_Header rq) PeerHopHeader"
    "h_get (h_del (rq_Header rq) ActorHeader) PeerAuthHeader = h_get (rq_Header rq) PeerAuthHeader"
    "h_get (h_del (rq_Header rq) ActorHeader) abFailoverHeader = h_get (rq_Header rq) abFailoverHeader"
    by (simp_all add: h_get_del)
qed

text \<open>The request after the OAuth metadata.\<close>

lemma ServeHTTP_after_metadata:
  assumes "handleOAuthWellKnown (rt_auth r) [] (strip_inbound rq) (rt_groups r) (hostOnly (rq_Host rq)) = None"
  shows "ServeHTTP ops env r rq body =
    (let h = hostOnly (rq_Host rq); m = find_route 0 h (rq_Path rq) (rt_groups r)
     in if tombstoned (se_now (he_fwd env)) (rt_tombstones r) h (rq_Path rq) (map_option snd m)
        then answer r (new_wr [] None) (serveUnavailableRetry [] 503 h unavailable_reason transientRetryAfter)
        else case m of
            None \<Rightarrow> serve_unrouted env r (strip_inbound rq) h (new_wr [] None)
          | Some (i, g) \<Rightarrow> serve_routed ops env r i g h (is_hopped rq) (auth_hop r rq) (failover_hop r rq) (strip_inbound rq) body (new_wr [] None))"
  using assms by (simp add: ServeHTTP_def Let_def hop_flags is_hopped_def auth_hop_def failover_hop_def split: option.split)

lemma ServeHTTP_metadata:
  "handleOAuthWellKnown (rt_auth r) [] (strip_inbound rq) (rt_groups r) (hostOnly (rq_Host rq)) = Some rs \<Longrightarrow>
   ServeHTTP ops env r rq body = answer r (new_wr [] None) rs"
  by (simp add: ServeHTTP_def Let_def)

lemma ServeHTTP_sends:
  assumes "e \<in> set (sv_log (ServeHTTP ops env r rq body))"
  obtains i g where "find_route 0 (hostOnly (rq_Host rq)) (rq_Path rq) (rt_groups r) = Some (i, g)"
    "e \<in> set (sv_log (serve_routed ops env r i g (hostOnly (rq_Host rq)) (is_hopped rq) (auth_hop r rq) (failover_hop r rq) (strip_inbound rq) body (new_wr [] None)))"
proof (cases "handleOAuthWellKnown (rt_auth r) [] (strip_inbound rq) (rt_groups r) (hostOnly (rq_Host rq))")
  case None
  show ?thesis using assms that unfolding ServeHTTP_after_metadata [OF None]
    by (auto simp: serve_unrouted_def Let_def case_prod_unfold split: option.splits if_splits)
next
  case (Some rs)
  with assms show ?thesis by (simp add: ServeHTTP_metadata)
qed

lemma ServeHTTP_admitted:
  fixes r :: "'l Router"
  assumes "e \<in> set (sv_log (ServeHTTP ops env r rq body))"
  obtains i g authHop failoverHop rq' and r' :: "'l Router" where "find_route 0 (hostOnly (rq_Host rq)) (rq_Path rq) (rt_groups r) = Some (i, g)"
    "admitted ops env r g (strip_inbound rq) rq'"
    "e \<in> set (sv_log (serve_admitted env r' i g (hostOnly (rq_Host rq)) (is_hopped rq) authHop failoverHop rq' body (new_wr [] None)))"
  using ServeHTTP_sends [OF assms] serve_routed_sends by (metis (no_types))

subsection \<open>Admission\<close>

lemma admitted_Allowed:
  assumes "admitted ops env r g rq rq'" "g_AuthRequired g"
  obtains a where "rt_auth r = Some a"
    "(login_host a (hostOnly (rq_Host rq)) \<and> rq' = rq) \<or> (g_AuthMode g \<noteq> ''oauth'' \<and> lan_bypass a rq \<and> rq' = rq) \<or>
     (ag_secret a \<noteq> [] \<and> (\<exists>u. proven_user (he_auth env) (se_now (he_fwd env)) a rq g u \<and> userAllowed g u \<and>
        rq' = stampActor (he_auth env) (se_now (he_fwd env)) a rq u))"
  using assms authorize_Allowed by (fastforce simp: admitted_def)

text \<open>
  (C2) Everything that reaches a backend was admitted. If any request is sent on behalf of a client's request, then the client's request matched a route of the table, the route's limiter
  granted it, and, where the route requires authentication, the gate is configured and either the host is a login host, or a plain-SSO
  route is reached from a trusted network, or a proven user is on the allowlist. It is sent only to members of that route that are not draining, with the complete body, and never to a peer if a
  peer forwarded it.
\<close>

theorem sent_only_if_admitted:
  fixes r :: "'l Router"
  assumes "e \<in> set (sv_log (ServeHTTP ops env r rq body))" and "body_ok body"
  shows "\<exists>i g. find_route 0 (hostOnly (rq_Host rq)) (rq_Path rq) (rt_groups r) = Some (i, g) \<and>
    sn_to e \<in> set (g_Backends g) \<and> \<not> b_draining (sn_backend e) \<and> \<not> b_DockerUnhealthy (sn_backend e) \<and>
    sn_body e = bd_rest body \<and> (is_hopped rq \<longrightarrow> \<not> b_Learned (sn_backend e)) \<and>
    snd (charge ops r g (rlKey (strip_inbound rq) (rt_xffTrusted r)) (se_now (he_fwd env))) \<and>
    (g_AuthRequired g \<longrightarrow> (\<exists>a. rt_auth r = Some a \<and>
       (login_host a (hostOnly (rq_Host rq)) \<or> (g_AuthMode g \<noteq> ''oauth'' \<and> lan_bypass a (strip_inbound rq)) \<or>
        (ag_secret a \<noteq> [] \<and> (\<exists>u. proven_user (he_auth env) (se_now (he_fwd env)) a (strip_inbound rq) g u \<and> userAllowed g u)))))"
proof -
  obtain i g ah fh rq' and r' :: "'l Router" where m: "find_route 0 (hostOnly (rq_Host rq)) (rq_Path rq) (rt_groups r) = Some (i, g)"
    and ad: "admitted ops env r g (strip_inbound rq) rq'"
    and e': "e \<in> set (sv_log (serve_admitted env r' i g (hostOnly (rq_Host rq)) (is_hopped rq) ah fh rq' body (new_wr [] None)))"
    using assms(1) by (rule ServeHTTP_admitted)
  have "g_AuthRequired g \<Longrightarrow> \<exists>a. rt_auth r = Some a \<and>
       (login_host a (hostOnly (rq_Host rq)) \<or> (g_AuthMode g \<noteq> ''oauth'' \<and> lan_bypass a (strip_inbound rq)) \<or>
        (ag_secret a \<noteq> [] \<and> (\<exists>u. proven_user (he_auth env) (se_now (he_fwd env)) a (strip_inbound rq) g u \<and> userAllowed g u)))"
    by (rule admitted_Allowed [OF ad]) auto
  with m ad serve_admitted_entry(1) [OF e' assms(2)] show ?thesis by (auto simp: entry_ok_def admitted_def)
qed

text \<open>
  (C3) Attribution cannot be forged. Whatever a client sends, the attribution header of anything that reaches a backend is absent or is the proxy's own signature, made for this request with the
  gate's secret, over a non-empty user that the request's credentials prove and the route allows, the client's address and the expiry.
\<close>

theorem attribution_unforgeable:
  fixes r :: "'l Router"
  assumes "e \<in> set (sv_log (ServeHTTP ops env r rq body))" and "h_get (rq_Header (sn_request e)) ActorHeader \<noteq> []"
  shows "\<exists>i g a u. find_route 0 (hostOnly (rq_Host rq)) (rq_Path rq) (rt_groups r) = Some (i, g) \<and> g_AuthRequired g \<and> rt_auth r = Some a \<and>
    ag_actorSecret a \<noteq> [] \<and> u \<noteq> [] \<and> userAllowed g u \<and>
    proven_user (he_auth env) (se_now (he_fwd env)) a (strip_inbound rq) g u \<and>
    h_get (rq_Header (sn_request e)) ActorHeader =
      SignActor (ae_mac (he_auth env)) (ae_marshalActor (he_auth env))
        \<lparr>act_Username = u, act_IP = (case realClientIP (strip_inbound rq) (ag_xffTrusted a) of None \<Rightarrow> [] | Some v \<Rightarrow> ip_string v),
         act_Exp = unix (se_now (he_fwd env) + actorTTL)\<rparr> (ag_actorSecret a)"
proof -
  obtain i g ah fh rq' and r' :: "'l Router" where m: "find_route 0 (hostOnly (rq_Host rq)) (rq_Path rq) (rt_groups r) = Some (i, g)"
    and ad: "admitted ops env r g (strip_inbound rq) rq'"
    and e': "e \<in> set (sv_log (serve_admitted env r' i g (hostOnly (rq_Host rq)) (is_hopped rq) ah fh rq' body (new_wr [] None)))"
    using assms(1) by (rule ServeHTTP_admitted)
  from serve_admitted_entry(2) [OF e'] assms(2)
  have v: "h_get (rq_Header (sn_request e)) ActorHeader = h_get (rq_Header rq') ActorHeader" "h_get (rq_Header rq') ActorHeader \<noteq> []" by auto
  then have ne: "rq' \<noteq> strip_inbound rq" using strip_inbound_actor by auto
  with ad have "g_AuthRequired g" by (auto simp: admitted_def split: if_splits)
  from admitted_Allowed [OF ad this] ne obtain a u where a: "rt_auth r = Some a" "proven_user (he_auth env) (se_now (he_fwd env)) a (strip_inbound rq) g u" "userAllowed g u"
    "rq' = stampActor (he_auth env) (se_now (he_fwd env)) a (strip_inbound rq) u"
    by metis
  moreover from a(4) ne have s: "ag_actorSecret a \<noteq> []" "u \<noteq> []" by (auto simp: stampActor_def)
  ultimately show ?thesis using m v \<open>g_AuthRequired g\<close> by (fastforce simp: stampActor_def Let_def h_get_set)
qed

text \<open>A router with one protected route, reached with a dashboard token.\<close>

definition ex_protected :: RouteGroup where
  "ex_protected = ex_auth_group\<lparr>g_Host := ''h'', g_Backends := [2]\<rparr>"

definition ex_gate1 :: authGate where
  "ex_gate1 = ex_gate\<lparr>ag_actorSecret := ''s''\<rparr>"

definition ex_router :: "rateLimiter Router" where
  "ex_router = (newRouter (\<lambda>a. makeBackend (\<lambda>s. s) ''http://b'' 1 [] [] ''h''))\<lparr>rt_groups := [ex_protected], rt_auth := Some ex_gate1\<rparr>"

definition ex_http_env :: http_env where
  "ex_http_env = \<lparr>he_fwd = ex_fwd_env, he_auth = ex_env\<lparr>ae_mac := (\<lambda>k m. [])\<rparr>, he_rnd = \<lparr>rv_hex4 = [], rv_hex8 = [], rv_int = 0\<rparr>,
     he_later = 0, he_wait = None\<rparr>"

definition ex_inbound :: request where
  "ex_inbound = \<lparr>rq_Method = ''GET'', rq_Host = ''h'', rq_Path = ''/'', rq_RawQuery = [],
     rq_Header = [(''Authorization'', [''Bearer pmt_1''])], rq_RemoteAddr = ''9:1''\<rparr>"

definition ex_stamped :: request where
  "ex_stamped = ex_inbound\<lparr>rq_Header := [(''Authorization'', [''Bearer pmt_1'']), (''X-Pmgr-Actor'', [''pmgact_YWxpY2U.''])]\<rparr>"

definition no_body :: rbody where
  "no_body = \<lparr>bd_present = False, bd_length = 0, bd_rest = [], bd_fails = False, bd_getBody = None\<rparr>"

definition ex_routed :: routed where
  "ex_routed = \<lparr>ro_index = 0, ro_group = ex_protected, ro_req = ex_stamped, ro_body = no_body,
      ro_host = ''h'', ro_hopped = False, ro_pin = [], ro_ab = None\<rparr>"

lemma ex_forwarded:
  "map (\<lambda>e. (sn_to e, h_get (rq_Header (sn_request e)) ActorHeader))
     (f_log (fst (proxyToGroup ex_fwd_env ''h'' False (start_fwd ex_router ex_routed (new_wr [] None))))) = [(2, ''pmgact_YWxpY2U.'')]"
  by code_simp

lemma ex_strip: "strip_inbound ex_inbound = ex_inbound"
  by code_simp

lemma ex_authorized: "snd (authorize (he_auth ex_http_env) 0 ex_gate1 [] ex_inbound ex_protected) = Allowed ex_stamped"
  by code_simp

lemma ex_matched: "handleOAuthWellKnown (Some ex_gate1) [] ex_inbound [ex_protected] ''h'' = None" "route_match ''h'' ''/'' ex_protected"
  "hostOnly ''h'' = ''h''" "h_get (h_del (rq_Header ex_inbound) ActorHeader) PeerHopHeader = []"
  by code_simp+

lemma ex_log: "sv_log (ServeHTTP mem_ops ex_http_env ex_router ex_inbound no_body) = f_log (fst (proxyToGroup ex_fwd_env ''h'' False (start_fwd ex_router ex_routed (new_wr [] None))))"
proof -
  obtain a1 where a: "authorize (he_auth ex_http_env) 0 ex_gate1 [] ex_inbound ex_protected = (a1, Allowed ex_stamped)"
    using ex_authorized by (metis prod.collapse)
  have r: "rt_auth ex_router = Some ex_gate1" "rt_groups ex_router = [ex_protected]" "rt_tombstones ex_router = []" "rq_Host ex_inbound = ''h''" "rq_Path ex_inbound = ''/''"
    "se_now ex_fwd_env = 0" "he_fwd ex_http_env = ex_fwd_env"
    by (simp_all add: ex_router_def newRouter_def ex_inbound_def ex_http_env_def ex_fwd_env_def)
  have g: "g_limiter ex_protected = None" "g_AuthRequired ex_protected" "g_cache ex_protected = None" "g_ab ex_protected = None" "g_DropHeaders ex_protected = []"
    "\<not> g_StripPrefix ex_protected" "\<not> g_Sticky ex_protected" by (simp_all add: ex_protected_def ex_auth_group_def ex_group_def)
  have s: "start_fwd (ex_router\<lparr>rt_auth := x\<rparr>) q w = start_fwd ex_router q w" if "g_ab (ro_group q) = None" for x q w
    using that by (simp add: start_fwd_def ab_run_def)
  have "serve_admitted ex_http_env (ex_router\<lparr>rt_auth := Some a1\<rparr>) 0 ex_protected ''h'' False ah fh ex_stamped no_body (new_wr [] None) =
      dispatch ex_http_env (ex_router\<lparr>rt_auth := Some a1\<rparr>) ex_routed (new_wr [] None)" for ah fh
    by (simp add: serve_admitted_def assign_variant_def strip_prefix_def sticky_pin_def g ex_routed_def ex_stamped_def)
  then have "ServeHTTP mem_ops ex_http_env ex_router ex_inbound no_body = dispatch ex_http_env (ex_router\<lparr>rt_auth := Some a1\<rparr>) ex_routed (new_wr [] None)"
    by (simp add: ServeHTTP_def Let_def ex_strip ex_matched r a g tombstoned_def serve_routed_def charge_def)
  moreover have "ro_ab ex_routed = None" "ro_host ex_routed = ''h''" "ro_hopped ex_routed = False" "g_ab (ro_group ex_routed) = None"
    by (simp_all add: ex_routed_def g)
  ultimately show ?thesis by (simp add: dispatch_log forwarded_def r s)
qed

lemma ex_sent: obtains e where "sv_log (ServeHTTP mem_ops ex_http_env ex_router ex_inbound no_body) = [e]" "sn_to e = 2"
  "h_get (rq_Header (sn_request e)) ActorHeader = ''pmgact_YWxpY2U.''"
  using ex_forwarded by (auto simp: ex_log map_eq_Cons_conv)

theorem sent_only_if_admitted_witness:
  "\<exists>e u. sv_log (ServeHTTP mem_ops ex_http_env ex_router ex_inbound no_body) = [e] \<and> sn_to e \<in> set (g_Backends ex_protected) \<and>
     (login_host ex_gate1 ''h'' \<or> lan_bypass ex_gate1 ex_inbound \<or>
      (proven_user (he_auth ex_http_env) 0 ex_gate1 ex_inbound ex_protected u \<and> userAllowed ex_protected u))"
proof -
  obtain e where e: "sv_log (ServeHTTP mem_ops ex_http_env ex_router ex_inbound no_body) = [e]" "sn_to e = 2" by (rule ex_sent)
  have "body_ok no_body" by (simp add: body_ok_def no_body_def)
  have "rq_Host ex_inbound = ''h''" "rq_Path ex_inbound = ''/''" "rt_groups ex_router = [ex_protected]" "rt_auth ex_router = Some ex_gate1"
    "g_AuthRequired ex_protected" "se_now (he_fwd ex_http_env) = 0"
    by (simp_all add: ex_inbound_def ex_router_def newRouter_def ex_protected_def ex_auth_group_def ex_http_env_def ex_fwd_env_def)
  with sent_only_if_admitted [OF _ \<open>body_ok no_body\<close>, of e mem_ops ex_http_env ex_router ex_inbound] e
  show ?thesis by (auto simp: ex_strip ex_matched)
qed

theorem attribution_unforgeable_witness:
  "\<exists>e u. sv_log (ServeHTTP mem_ops ex_http_env ex_router ex_inbound no_body) = [e] \<and> userAllowed ex_protected u \<and>
     h_get (rq_Header (sn_request e)) ActorHeader = ''pmgact_YWxpY2U.'' \<and>
     proven_user (he_auth ex_http_env) 0 ex_gate1 ex_inbound ex_protected u"
proof -
  obtain e where e: "sv_log (ServeHTTP mem_ops ex_http_env ex_router ex_inbound no_body) = [e]" "h_get (rq_Header (sn_request e)) ActorHeader = ''pmgact_YWxpY2U.''"
    by (rule ex_sent)
  have "rq_Host ex_inbound = ''h''" "rq_Path ex_inbound = ''/''" "rt_groups ex_router = [ex_protected]" "rt_auth ex_router = Some ex_gate1"
    "se_now (he_fwd ex_http_env) = 0"
    by (simp_all add: ex_inbound_def ex_router_def newRouter_def ex_http_env_def ex_fwd_env_def)
  with attribution_unforgeable [of e mem_ops ex_http_env ex_router ex_inbound no_body] e
  show ?thesis by (auto simp: ex_strip ex_matched)
qed

subsection \<open>A protected route without a credential\<close>

text \<open>The proxy answers by itself: nothing is sent, and backends, routes, caches and A/B runs are as before.\<close>

definition own_answer :: "'l Router \<Rightarrow> 'l served \<Rightarrow> response \<Rightarrow> bool" where
  "own_answer r sv rs \<longleftrightarrow> sv_wr sv = wr_respond (new_wr [] None) rs \<and> sv_log sv = [] \<and> sv_returned sv \<and>
     rt_heap (sv_router sv) = rt_heap r \<and> rt_groups (sv_router sv) = rt_groups r \<and> rt_cacheObjs (sv_router sv) = rt_cacheObjs r \<and>
     rt_abRuns (sv_router sv) = rt_abRuns r"

lemma own_answerI:
  "rt_heap r' = rt_heap r \<Longrightarrow> rt_groups r' = rt_groups r \<Longrightarrow> rt_cacheObjs r' = rt_cacheObjs r \<Longrightarrow> rt_abRuns r' = rt_abRuns r \<Longrightarrow>
   own_answer r (answer r' (new_wr [] None) rs) rs"
  by (simp add: own_answer_def answer_def)

lemma serve_routed_denied:
  assumes "g_AuthRequired g"
    and "\<forall>a. rt_auth r = Some a \<longrightarrow> snd (authorize (he_auth env) (se_now (he_fwd env)) a [] rq g) = Denied denial"
  shows "\<exists>rs. own_answer r (serve_routed ops env r i g h hopped ah fh rq body (new_wr [] None)) rs \<and>
      rs \<in> {too_many (new_wr [] None) (g_RateRPM g), serveUnavailable [] 503 h unavailable_reason, denial}"
proof -
  obtain r1 ok where c: "charge ops r g (rlKey rq (rt_xffTrusted r)) (se_now (he_fwd env)) = (r1, ok)" by (rule prod.exhaust)
  have f: "rt_auth r1 = rt_auth r" "rt_heap r1 = rt_heap r" "rt_groups r1 = rt_groups r" "rt_cacheObjs r1 = rt_cacheObjs r" "rt_abRuns r1 = rt_abRuns r"
    using charge_frame [of ops r g "rlKey rq (rt_xffTrusted r)" "se_now (he_fwd env)"] c by simp_all
  have a: "\<exists>a1. authorize (he_auth env) (se_now (he_fwd env)) a [] rq g = (a1, Denied denial)" if "rt_auth r = Some a" for a
    using assms(2) that by (metis prod.collapse)
  show ?thesis
    using assms(1) own_answerI [of r1 r] own_answerI [of "r1\<lparr>rt_auth := x\<rparr>" r for x]
    by (cases "rt_auth r") (auto simp: serve_routed_def c f dest!: a, (blast)+)
qed



subsection \<open>The limiter of a route over time\<close>

lemma fill_limObjs: "rt_limObjs (sv_router (fill env r q w ca key claim)) = rt_limObjs r"
  by (simp add: fill_def Let_def split: option.split)

lemma serveWithCache_limObjs: "rt_limObjs (sv_router (serveWithCache env r q w ca c cacheable key)) = rt_limObjs r"
  by (auto simp: serveWithCache_def Let_def fill_limObjs split: prod.split option.split bool.split)

lemma serve_admitted_limObjs: "rt_limObjs (sv_router (serve_admitted env r i g reqHost hopped authHop failoverHop rq body w)) = rt_limObjs r"
proof -
  let ?rq1 = "rq\<lparr>rq_Path := strip_prefix g (rq_Path rq)\<rparr>"
  obtain r1 w1 rq2 ab where x: "assign_variant env r g hopped authHop failoverHop ?rq1 (rq_Path rq) w = (r1, w1, rq2, ab)" by (metis prod.exhaust)
  from assign_variant_frame(2) [OF x] show ?thesis
    by (simp add: serve_admitted_def Let_def x serveWithCache_limObjs split: option.split)
qed

lemma serve_routed_limObjs:
  "rt_limObjs (sv_router (serve_routed ops env r i g reqHost hopped authHop failoverHop rq body w)) =
   rt_limObjs (fst (charge ops r g (rlKey rq (rt_xffTrusted r)) (se_now (he_fwd env))))"
  by (simp add: serve_routed_def Let_def case_prod_unfold serve_admitted_limObjs split: option.split auth_result.split)

text \<open>The requests that are charged to the limiter at address \<open>l\<close>.\<close>

definition charged_to :: "nat \<Rightarrow> http_env \<Rightarrow> 'l Router \<Rightarrow> request \<Rightarrow> bool" where
  "charged_to l env r rq \<longleftrightarrow>
     (let h = hostOnly (rq_Host rq); m = find_route 0 h (rq_Path rq) (rt_groups r)
      in handleOAuthWellKnown (rt_auth r) [] (strip_inbound rq) (rt_groups r) h = None \<and>
         \<not> tombstoned (se_now (he_fwd env)) (rt_tombstones r) h (rq_Path rq) (map_option snd m) \<and>
         (case m of None \<Rightarrow> False | Some (i, g) \<Rightarrow> g_limiter g = Some l))"

definition client_key :: "'l Router \<Rightarrow> request \<Rightarrow> string" where
  "client_key r rq = rlKey (strip_inbound rq) (rt_xffTrusted r)"

text \<open>A request passes if something of it is sent, or its answer is not the 429 of its route.\<close>

definition passes :: "'l limiter_ops \<Rightarrow> http_env \<Rightarrow> 'l Router \<Rightarrow> request \<Rightarrow> rbody \<Rightarrow> bool" where
  "passes ops env r rq body \<longleftrightarrow>
     (case find_route 0 (hostOnly (rq_Host rq)) (rq_Path rq) (rt_groups r) of
        None \<Rightarrow> False
      | Some (i, g) \<Rightarrow> sv_log (ServeHTTP ops env r rq body) \<noteq> [] \<or>
          sv_wr (ServeHTTP ops env r rq body) \<noteq> wr_respond (new_wr [] None) (too_many (new_wr [] None) (g_RateRPM g)))"

lemma ServeHTTP_charge:
  assumes "map_of (rt_limObjs r) l = Some o1"
  shows "map_of (rt_limObjs (sv_router (ServeHTTP ops env r rq body))) l =
      Some (if charged_to l env r rq then fst (lo_allow ops o1 (client_key r rq) (se_now (he_fwd env))) else o1)"
    and "charged_to l env r rq \<Longrightarrow> passes ops env r rq body \<Longrightarrow> snd (lo_allow ops o1 (client_key r rq) (se_now (he_fwd env)))"
proof -
  let ?h = "hostOnly (rq_Host rq)"
  let ?m = "find_route 0 ?h (rq_Path rq) (rt_groups r)" and ?w = "new_wr [] None"
  show "map_of (rt_limObjs (sv_router (ServeHTTP ops env r rq body))) l =
      Some (if charged_to l env r rq then fst (lo_allow ops o1 (client_key r rq) (se_now (he_fwd env))) else o1)"
  proof (cases "handleOAuthWellKnown (rt_auth r) [] (strip_inbound rq) (rt_groups r) ?h")
    case None
    show ?thesis using assms unfolding ServeHTTP_after_metadata [OF None]
      by (auto simp: Let_def None charged_to_def client_key_def serve_routed_limObjs charge_def serve_unrouted_def case_prod_unfold update_conv'
          split: option.splits)
  next
    case (Some rs)
    with assms show ?thesis by (simp add: ServeHTTP_metadata charged_to_def Let_def)
  qed
  assume c: "charged_to l env r rq" and p: "passes ops env r rq body"
  then obtain i g where m: "?m = Some (i, g)" "g_limiter g = Some l" by (auto simp: charged_to_def Let_def split: option.splits)
  show "snd (lo_allow ops o1 (client_key r rq) (se_now (he_fwd env)))"
  proof (rule ccontr)
    assume "\<not> ?thesis"
    then have "ServeHTTP ops env r rq body = answer (sv_router (ServeHTTP ops env r rq body)) ?w (too_many ?w (g_RateRPM g))"
      using c m assms by (simp add: charged_to_def Let_def ServeHTTP_after_metadata serve_routed_def charge_def client_key_def case_prod_unfold)
    with p m show False by (simp add: passes_def answer_def) (metis served.select_convs(2,3))
  qed
qed

text \<open>A sequence of requests, and how many of those of client \<open>k\<close> charged to the limiter at \<open>l\<close> pass.\<close>

type_synonym arrival = "http_env \<times> request \<times> rbody"

fun passed :: "nat \<Rightarrow> string \<Rightarrow> rateLimiter Router \<Rightarrow> arrival list \<Rightarrow> nat" where
  "passed l k r [] = 0"
| "passed l k r ((env, rq, body) # xs) =
     (if charged_to l env r rq \<and> client_key r rq = k \<and> passes mem_ops env r rq body then 1 else 0) +
     passed l k (sv_router (ServeHTTP mem_ops env r rq body)) xs"

fun arrive_from :: "instant \<Rightarrow> arrival list \<Rightarrow> bool" where
  "arrive_from t [] \<longleftrightarrow> True"
| "arrive_from t (x # xs) \<longleftrightarrow> t \<le> se_now (he_fwd (fst x)) \<and> arrive_from (se_now (he_fwd (fst x))) xs"

definition last_arrival :: "instant \<Rightarrow> arrival list \<Rightarrow> instant" where
  "last_arrival t xs = foldl (\<lambda>t x. se_now (he_fwd (fst x))) t xs"

lemma last_arrival_simps [simp]: "last_arrival t [] = t" "last_arrival t (x # xs) = last_arrival (se_now (he_fwd (fst x))) xs"
  by (simp_all add: last_arrival_def)

lemma passed_bound:
  "map_of (rt_limObjs r) l = Some o1 \<Longrightarrow> rl_inv o1 t \<Longrightarrow> arrive_from t xs \<Longrightarrow>
   of_nat (passed l k r xs) \<le> rl_budget o1 k t + rate o1 * seconds (last_arrival t xs - t)"
proof (induction xs arbitrary: r o1 t)
  case Nil
  then show ?case by (simp add: rl_budget_nonneg seconds_def)
next
  case (Cons x xs)
  obtain env rq body where x: "x = (env, rq, body)" by (metis prod.exhaust)
  let ?u = "se_now (he_fwd env)" and ?key = "client_key r rq" and ?c = "charged_to l env r rq"
  let ?r = "sv_router (ServeHTTP mem_ops env r rq body)" and ?T = "last_arrival (se_now (he_fwd env)) xs"
  from Cons.prems x have le: "t \<le> ?u" and from_u: "arrive_from ?u xs" by simp_all
  have inv: "rl_inv o1 ?u" using rl_inv_later Cons.prems(2) le .
  obtain o2 ok where a: "Allow o1 ?key ?u = (o2, ok)" by (rule prod.exhaust)
  define o3 where "o3 = (if ?c then o2 else o1)"
  have l3: "map_of (rt_limObjs ?r) l = Some o3"
    using ServeHTTP_charge(1) [OF Cons.prems(1), of mem_ops env rq body] a by (simp add: o3_def mem_ops_def)
  have inv3: "rl_inv o3 ?u" "rate o3 = rate o1" using Allow_inv [OF inv a] Allow_rate [OF inv a] inv by (simp_all add: o3_def)
  have "of_nat (passed l k ?r xs) \<le> rl_budget o3 k ?u + rate o1 * seconds (?T - ?u)"
    using Cons.IH [OF l3 inv3(1) from_u] inv3(2) by simp
  moreover have "?c \<Longrightarrow> passes mem_ops env r rq body \<Longrightarrow> ok"
    using ServeHTTP_charge(2) [OF Cons.prems(1), of env rq mem_ops body] a by (simp add: mem_ops_def)
  then have "rl_budget o3 k ?u + (if ?c \<and> ?key = k \<and> passes mem_ops env r rq body then 1 else 0) \<le> rl_budget o1 k ?u"
    using mem_limiter.budget_allow [OF inv a] mem_limiter.budget_other [OF inv a, of k]
    by (cases "?key = k") (auto simp: o3_def split: if_splits)
  moreover have "rl_budget o1 k ?u + rate o1 * seconds (?T - ?u) \<le> rl_budget o1 k t + rate o1 * seconds (?T - t)"
    using mem_limiter.budget_later [OF Cons.prems(2) le, of k] by (simp add: seconds_diff algebra_simps)
  ultimately show ?case by (cases "?c \<and> ?key = k \<and> passes mem_ops env r rq body") (auto simp: x)
qed

text \<open>
  (C4) The rate limit holds end to end. Over any sequence of requests of any clients to any routes, with any answers of backends, cache contents and A/B tests in between, the requests of one client key
  that a route with a fresh limiter of \<open>rpm\<close> requests per minute lets pass (forwarded, or answered other than by the limiter's 429) number at most
  \<open>rpm\<close> plus \<open>rpm / 60\<close> per second.
\<close>

theorem route_rate_bound:
  assumes "0 \<le> rpm" and "map_of (rt_limObjs r) l = Some (newRateLimiter rpm)" and "arrive_from t xs"
  shows "of_nat (passed l k r xs) \<le> of_int rpm + of_int rpm / 60 * seconds (last_arrival t xs - t)"
proof -
  have "rl_budget (newRateLimiter rpm) k t = of_int rpm" "rate (newRateLimiter rpm) = of_int rpm / 60"
    by (simp_all add: rl_budget_def newRateLimiter_def)
  with passed_bound [OF assms(2) newRateLimiter_inv [OF assms(1)] assms(3), of k] show ?thesis by simp
qed

definition ex_limited :: "rateLimiter Router" where
  "ex_limited = ex_router\<lparr>rt_groups := [ex_protected\<lparr>g_RateLimit := True, g_RateRPM := 1, g_limiter := Some 7\<rparr>], rt_limObjs := [(7, newRateLimiter 1)]\<rparr>"

theorem route_rate_bound_witness:
  "charged_to 7 ex_http_env ex_limited ex_inbound \<and>
   passed 7 ''9'' ex_limited [(ex_http_env, ex_inbound, no_body), (ex_http_env, ex_inbound, no_body)] \<le> 1"
proof -
  have "charged_to 7 ex_http_env ex_limited ex_inbound" by code_simp
  moreover have "map_of (rt_limObjs ex_limited) 7 = Some (newRateLimiter 1)" by (simp add: ex_limited_def)
  moreover have "arrive_from 0 [(ex_http_env, ex_inbound, no_body), (ex_http_env, ex_inbound, no_body)]"
    by (simp add: ex_http_env_def ex_fwd_env_def)
  ultimately show ?thesis
    using route_rate_bound [of 1 ex_limited 7 0 "[(ex_http_env, ex_inbound, no_body), (ex_http_env, ex_inbound, no_body)]" "''9''"]
    by (simp add: ex_http_env_def ex_fwd_env_def seconds_def)
qed

subsection \<open>Private requests and the caches\<close>

definition uncacheable :: "request \<Rightarrow> bool" where
  "uncacheable rq \<longleftrightarrow> (rq_Method rq \<noteq> ''GET'' \<and> rq_Method rq \<noteq> ''HEAD'') \<or> h_get (rq_Header rq) ''Authorization'' \<noteq> [] \<or>
     h_index (rq_Header rq) ''Cookie'' \<noteq> [] \<or> h_get (rq_Header rq) ''Range'' \<noteq> []"

lemma uncacheable_not_eligible: "uncacheable rq \<Longrightarrow> \<not> cacheRequestEligible rq attached ttl paths origPath"
  by (auto simp: uncacheable_def cacheRequestEligible_def)

text \<open>What is served when only the contents of the caches differ.\<close>

definition with_caches :: "(nat \<times> responseCache) list \<Rightarrow> 'l served \<Rightarrow> 'l served" where
  "with_caches cs sv = sv\<lparr>sv_router := (sv_router sv)\<lparr>rt_cacheObjs := cs\<rparr>\<rparr>"

lemma dispatch_with_caches: "dispatch env (r\<lparr>rt_cacheObjs := cs\<rparr>) q w = with_caches cs (dispatch env r q w)"
proof -
  have "start_fwd (r\<lparr>rt_cacheObjs := cs\<rparr>) q w = start_fwd r q w" by (simp add: start_fwd_def ab_run_def split: option.split)
  then show ?thesis by (simp add: dispatch_def with_caches_def Let_def case_prod_unfold split: option.split)
qed

lemma answer_with_caches: "answer (r\<lparr>rt_cacheObjs := cs\<rparr>) w rs = with_caches cs (answer r w rs)"
  by (simp add: answer_def with_caches_def)

lemma caches_last:
  "r\<lparr>rt_cacheObjs := cs, rt_auth := a\<rparr> = r\<lparr>rt_auth := a, rt_cacheObjs := cs\<rparr>"
  "r\<lparr>rt_cacheObjs := cs, rt_unrouted := u\<rparr> = r\<lparr>rt_unrouted := u, rt_cacheObjs := cs\<rparr>"
  by (cases r; simp)+

lemma charge_with_caches: "charge ops (r\<lparr>rt_cacheObjs := cs\<rparr>) g key now =
    ((fst (charge ops r g key now))\<lparr>rt_cacheObjs := cs\<rparr>, snd (charge ops r g key now))"
  by (simp add: charge_def Let_def case_prod_unfold split: option.split)

lemma assign_variant_with_caches:
  "assign_variant env (r\<lparr>rt_cacheObjs := cs\<rparr>) g hopped authHop failoverHop rq p w =
   (case assign_variant env r g hopped authHop failoverHop rq p w of (r1, x) \<Rightarrow> (r1\<lparr>rt_cacheObjs := cs\<rparr>, x))"
proof -
  have "ab_run (r\<lparr>rt_cacheObjs := cs\<rparr>) g = ab_run r g" by (simp add: ab_run_def split: option.split)
  then show ?thesis by (simp add: assign_variant_def Let_def case_prod_unfold split: option.split)
qed

definition same_cache_addresses :: "(nat \<times> responseCache) list \<Rightarrow> 'l Router \<Rightarrow> bool" where
  "same_cache_addresses cs r \<longleftrightarrow> (\<forall>ca. map_of cs ca = None \<longleftrightarrow> map_of (rt_cacheObjs r) ca = None)"

lemma assign_variant_method:
  "assign_variant env r g hopped authHop failoverHop rq p w = (r1, w1, rq2, ab) \<Longrightarrow> rq_Method rq2 = rq_Method rq"
  using abAssign_request(2) by (auto simp: assign_variant_def Let_def case_prod_unfold split: option.splits)

lemma uncacheable_cong:
  "uncacheable rq \<Longrightarrow> rq_Method rq' = rq_Method rq \<Longrightarrow> (\<And>k. k \<in> {''Authorization'', ''Cookie'', ''Range''} \<Longrightarrow> h_index (rq_Header rq') k = h_index (rq_Header rq) k) \<Longrightarrow>
   uncacheable rq'"
proof -
  have "canonicalKey ''Authorization'' = ''Authorization''" "canonicalKey ''Range'' = ''Range''" by code_simp+
  moreover assume "uncacheable rq" "rq_Method rq' = rq_Method rq"
    "\<And>k. k \<in> {''Authorization'', ''Cookie'', ''Range''} \<Longrightarrow> h_index (rq_Header rq') k = h_index (rq_Header rq) k"
  ultimately show ?thesis by (simp add: uncacheable_def h_get_def h_values_def h_index_def)
qed

lemma uncacheable_del:
  "uncacheable rq \<Longrightarrow> rq_Method rq' = rq_Method rq \<Longrightarrow> rq_Header rq' = foldl h_del (rq_Header rq) ks \<Longrightarrow>
   set ks \<subseteq> {abVariantHeader, ActorHeader, PeerHopHeader, PeerAuthHeader, abFailoverHeader} \<Longrightarrow> uncacheable rq'"
proof (induction ks arbitrary: rq)
  case Nil
  then show ?case by (auto elim!: uncacheable_cong)
next
  case (Cons x ks)
  have "canonicalKey x \<notin> {''Authorization'', ''Cookie'', ''Range''}" if "x \<in> {abVariantHeader, ActorHeader, PeerHopHeader, PeerAuthHeader, abFailoverHeader}" for x
    using that by (elim insertE emptyE) (simp_all, code_simp+)
  with Cons.prems(4) have "uncacheable (rq\<lparr>rq_Header := h_del (rq_Header rq) x\<rparr>)"
    by (intro uncacheable_cong [OF Cons.prems(1)]) (auto simp: h_index_del)
  then show ?case by (rule Cons.IH) (use Cons.prems in simp_all)
qed

lemma uncacheable_strip: "uncacheable rq \<Longrightarrow> uncacheable (strip_inbound rq)"
  by (rule uncacheable_del [where ks = "[ActorHeader, PeerHopHeader, PeerAuthHeader, abFailoverHeader]"])
    (simp_all add: strip_inbound_def)

lemma uncacheable_stamped: "uncacheable rq \<Longrightarrow> uncacheable (stampActor env now a rq u)"
proof -
  have "ActorHeader \<notin> {''Authorization'', ''Cookie'', ''Range''}" by (simp add: ActorHeader_def)
  then show "uncacheable rq \<Longrightarrow> uncacheable (stampActor env now a rq u)"
    by (elim uncacheable_cong) (auto simp: stampActor_def Let_def h_index_set)
qed

lemma serve_admitted_with_caches:
  assumes "uncacheable rq" "same_cache_addresses cs r"
  shows "serve_admitted env (r\<lparr>rt_cacheObjs := cs\<rparr>) i g reqHost hopped authHop failoverHop rq body w =
    with_caches cs (serve_admitted env r i g reqHost hopped authHop failoverHop rq body w)"
proof -
  let ?rq1 = "rq\<lparr>rq_Path := strip_prefix g (rq_Path rq)\<rparr>"
  obtain r1 w1 rq2 ab where x: "assign_variant env r g hopped authHop failoverHop ?rq1 (rq_Path rq) w = (r1, w1, rq2, ab)" by (metis prod.exhaust)
  obtain ks where "rq_Header rq2 = foldl h_del (rq_Header rq) ks" "set ks \<subseteq> {abVariantHeader}"
    using assign_variant_frame(6) [OF x] by auto
  then have "uncacheable rq2" using assms(1) assign_variant_method [OF x] by (auto intro: uncacheable_del)
  note n = uncacheable_not_eligible [OF this]
  have "map_of (rt_cacheObjs r1) = map_of (rt_cacheObjs r)" using assign_variant_frame(3) [OF x] by simp
  with assms(2) have "map_of cs ca = None \<longleftrightarrow> map_of (rt_cacheObjs r1) ca = None" for ca by (simp add: same_cache_addresses_def)
  then show ?thesis
    by (auto simp: serve_admitted_def Let_def assign_variant_with_caches x n serveWithCache_def dispatch_with_caches split: option.split)
      (metis not_None_eq option.distinct(1))+
qed

lemma serve_routed_with_caches:
  assumes "uncacheable rq" "same_cache_addresses cs r"
  shows "serve_routed ops env (r\<lparr>rt_cacheObjs := cs\<rparr>) i g h hopped ah fh rq body (new_wr [] None) =
    with_caches cs (serve_routed ops env r i g h hopped ah fh rq body (new_wr [] None))"
proof -
  obtain r1 ok where c: "charge ops r g (rlKey rq (rt_xffTrusted r)) (se_now (he_fwd env)) = (r1, ok)" by (rule prod.exhaust)
  have f: "rt_cacheObjs r1 = rt_cacheObjs r"
    using charge_frame(4) [of ops r g "rlKey rq (rt_xffTrusted r)" "se_now (he_fwd env)"] c by simp
  have s: "same_cache_addresses cs r1" "same_cache_addresses cs (r1\<lparr>rt_auth := x\<rparr>)" for x
    using assms(2) f by (simp_all add: same_cache_addresses_def)
  have "uncacheable rq1" if "authorize (he_auth env) now a h' rq g = (a1, Allowed rq1)" for now a h' a1 rq1
    using authorize_Allowed [OF that] assms(1) uncacheable_stamped by auto
  then show ?thesis
    using serve_admitted_with_caches [OF _ s(1)] serve_admitted_with_caches [OF _ s(2)] assms(1)
    by (auto simp: serve_routed_def charge_with_caches c answer_with_caches caches_last
        split: option.split auth_result.split prod.split)
qed

text \<open>
  (C6) Private requests and the caches do not touch each other. A request with an \<^verbatim>\<open>Authorization\<close>, \<^verbatim>\<open>Cookie\<close> or \<^verbatim>\<open>Range\<close> header, or with another method than \<^verbatim>\<open>GET\<close> and
  \<^verbatim>\<open>HEAD\<close>, is served in the same way whatever the caches hold, and leaves them as they are.
\<close>

theorem private_requests_bypass_caches:
  assumes "uncacheable rq" and "same_cache_addresses cs r"
  shows "ServeHTTP ops env (r\<lparr>rt_cacheObjs := cs\<rparr>) rq body = with_caches cs (ServeHTTP ops env r rq body) \<and>
    rt_cacheObjs (sv_router (ServeHTTP ops env r rq body)) = rt_cacheObjs r"
proof
  note s = uncacheable_strip [OF assms(1)]
  have un: "serve_unrouted env (r\<lparr>rt_cacheObjs := c\<rparr>) rq' h w = with_caches c (serve_unrouted env r rq' h w)" for c rq' h w
    by (simp add: serve_unrouted_def Let_def case_prod_unfold answer_with_caches caches_last split: option.split)
  have hops: "auth_hop (r\<lparr>rt_cacheObjs := c\<rparr>) rq = auth_hop r rq" "failover_hop (r\<lparr>rt_cacheObjs := c\<rparr>) rq = failover_hop r rq" for c
    by (simp_all add: auth_hop_def failover_hop_def hopAuthOK_def)
  have general: "ServeHTTP ops env (r\<lparr>rt_cacheObjs := c\<rparr>) rq body = with_caches c (ServeHTTP ops env r rq body)"
    if "same_cache_addresses c r" for c
  proof (cases "handleOAuthWellKnown (rt_auth r) [] (strip_inbound rq) (rt_groups r) (hostOnly (rq_Host rq))")
    case None
    then have "handleOAuthWellKnown (rt_auth (r\<lparr>rt_cacheObjs := c\<rparr>)) [] (strip_inbound rq) (rt_groups (r\<lparr>rt_cacheObjs := c\<rparr>)) (hostOnly (rq_Host rq)) = None" by simp
    from ServeHTTP_after_metadata [OF this, of ops env body] ServeHTTP_after_metadata [OF None, of ops env body] show ?thesis
      by (simp add: Let_def un hops serve_routed_with_caches [OF s that] answer_with_caches split: option.split)
  next
    case (Some rs)
    then show ?thesis by (simp add: ServeHTTP_metadata answer_with_caches)
  qed
  from general [OF assms(2)] show "ServeHTTP ops env (r\<lparr>rt_cacheObjs := cs\<rparr>) rq body = with_caches cs (ServeHTTP ops env r rq body)" .
  have "same_cache_addresses (rt_cacheObjs r) r" by (simp add: same_cache_addresses_def)
  from general [OF this] have "ServeHTTP ops env r rq body = with_caches (rt_cacheObjs r) (ServeHTTP ops env r rq body)" by simp
  from arg_cong [OF this, of "\<lambda>sv. rt_cacheObjs (sv_router sv)"]
  show "rt_cacheObjs (sv_router (ServeHTTP ops env r rq body)) = rt_cacheObjs r" by (simp add: with_caches_def)
qed

theorem private_requests_bypass_caches_witness:
  "\<exists>cs. cs \<noteq> rt_cacheObjs (ex_router\<lparr>rt_cacheObjs := [(3, newResponseCache 60)]\<rparr>) \<and>
     ServeHTTP mem_ops ex_http_env (ex_router\<lparr>rt_cacheObjs := cs\<rparr>) ex_inbound no_body =
       with_caches cs (ServeHTTP mem_ops ex_http_env (ex_router\<lparr>rt_cacheObjs := [(3, newResponseCache 60)]\<rparr>) ex_inbound no_body)"
proof -
  let ?cs = "[(3, (newResponseCache 60)\<lparr>rc_bytes := 5\<rparr>)]"
  have "uncacheable ex_inbound" by code_simp
  moreover have "same_cache_addresses ?cs (ex_router\<lparr>rt_cacheObjs := [(3, newResponseCache 60)]\<rparr>)" by (simp add: same_cache_addresses_def)
  ultimately show ?thesis
    using private_requests_bypass_caches [of ex_inbound ?cs "ex_router\<lparr>rt_cacheObjs := [(3, newResponseCache 60)]\<rparr>" mem_ops ex_http_env no_body]
    by (intro exI [of _ ?cs]) (simp add: newResponseCache_def)
qed

subsection \<open>Hops between proxies\<close>

lemma names_hop_connection: "h_index (rq_Header rq') ''Connection'' = h_index (rq_Header rq) ''Connection'' \<Longrightarrow> names_hop rq' \<longleftrightarrow> names_hop rq"
  by (simp add: names_hop_def connection_tokens_def)

lemma names_hop_strip: "names_hop (strip_inbound rq) \<longleftrightarrow> names_hop rq"
proof (rule names_hop_connection)
  have "''Connection'' \<noteq> canonicalKey ActorHeader" "''Connection'' \<noteq> canonicalKey PeerHopHeader"
    "''Connection'' \<noteq> canonicalKey PeerAuthHeader" "''Connection'' \<noteq> canonicalKey abFailoverHeader" by code_simp+
  then show "h_index (rq_Header (strip_inbound rq)) ''Connection'' = h_index (rq_Header rq) ''Connection''"
    by (simp add: strip_inbound_def h_index_del)
qed

lemma names_hop_stamped: "names_hop (stampActor env now a rq u) \<longleftrightarrow> names_hop rq"
  by (rule names_hop_connection) (simp add: stampActor_def Let_def h_index_set, simp add: ActorHeader_def)

lemma admitted_names_hop:
  assumes "admitted ops env r g rq rq'"
  shows "names_hop rq' \<longleftrightarrow> names_hop rq"
proof (cases "g_AuthRequired g")
  case True
  with admitted_Allowed [OF assms] names_hop_stamped show ?thesis by metis
next
  case False
  with assms show ?thesis by (simp add: admitted_def)
qed


text \<open>A route without limiter, gate, cache and test is plain forwarding.\<close>

lemma plain_route_log:
  assumes "handleOAuthWellKnown (rt_auth r) [] (strip_inbound rq) (rt_groups r) (hostOnly (rq_Host rq)) = None" "rt_tombstones r = []"
    and "find_route 0 (hostOnly (rq_Host rq)) (rq_Path rq) (rt_groups r) = Some (i, g)"
    and "g_limiter g = None" "\<not> g_AuthRequired g" "g_cache g = None" "g_ab g = None" "\<not> g_StripPrefix g" "\<not> g_Sticky g" "g_DropHeaders g = []"
  shows "sv_log (ServeHTTP ops env r rq body) = f_log (fst (proxyToGroup (he_fwd env) (hostOnly (rq_Host rq)) (is_hopped rq)
    (start_fwd r \<lparr>ro_index = i, ro_group = g, ro_req = strip_inbound rq, ro_body = body, ro_host = hostOnly (rq_Host rq), ro_hopped = is_hopped rq,
       ro_pin = [], ro_ab = None\<rparr> (new_wr [] None))))"
proof -
  have path: "(strip_inbound rq)\<lparr>rq_Path := rq_Path rq\<rparr> = strip_inbound rq" by (simp add: strip_inbound_def)
  show ?thesis
    using assms(2-) by (simp add: path ServeHTTP_after_metadata [OF assms(1)] Let_def tombstoned_def serve_routed_def charge_def serve_admitted_def
      assign_variant_def strip_prefix_def sticky_pin_def dispatch_log forwarded_def)
qed

definition ex_open :: RouteGroup where
  "ex_open = ex_group\<lparr>g_Host := ''h'', g_Backends := [2]\<rparr>"

definition ex_peered :: "rateLimiter Router" where
  "ex_peered = (newRouter (\<lambda>a. case makePeerBackend (\<lambda>s. s) (\<lambda>s. True) ''http://p'' ''h'' [] False ''p1'' 1 of Some b \<Rightarrow> b | None \<Rightarrow> zeroBackend))
     \<lparr>rt_groups := [ex_open]\<rparr>"

definition ex_anonymous :: request where
  "ex_anonymous = \<lparr>rq_Method = ''GET'', rq_Host = ''h'', rq_Path = ''/'', rq_RawQuery = [], rq_Header = [], rq_RemoteAddr = ''9:1''\<rparr>"

lemma ex_peer_log:
  "map (\<lambda>e. is_peer (sn_backend e)) (f_log (fst (proxyToGroup ex_fwd_env ''h'' False
    (start_fwd ex_peered \<lparr>ro_index = 0, ro_group = ex_open, ro_req = ex_anonymous, ro_body = no_body, ro_host = ''h'', ro_hopped = False,
       ro_pin = [], ro_ab = None\<rparr> (new_wr [] None))))) = [True]"
  by code_simp


end
