(* ===== verification/MeshLaws.thy ===== *)
theory MeshLaws
  imports PeerMesh ServeLaws
begin

section \<open>Properties of the peer mesh\<close>

text \<open>
  The store over any sequence of pushes and refreshes, the expiry check, what an overlay adds to the routes and what is advertised
  afterwards, and what follows for the table of the router.
\<close>

subsection \<open>Runs of the mesh\<close>

text \<open>
  Pushes to the internal port (with the request, its body and the time), refreshes, and anything else that happens to the router.
\<close>

type_synonym push = "request \<times> string \<times> instant"

inductive mesh_run :: "(rat \<Rightarrow> string) \<Rightarrow> (string \<Rightarrow> peerRoutePayload option) \<Rightarrow> string \<Rightarrow> 'l limiter_ops \<Rightarrow> duration \<Rightarrow> push list \<Rightarrow>
    PeerRouteStore \<times> 'l Router \<Rightarrow> bool"
  for fmt decode secret ops ttl where
    mesh_start: "mesh_run fmt decode secret ops ttl [] (newPeerRouteStore ttl, r)"
  | mesh_push: "mesh_run fmt decode secret ops ttl es sr \<Longrightarrow>
      peerRoutesHandler fmt decode (refresh env ops config cs ov a now) secret now rq body sr = Some (status, sr') \<Longrightarrow>
      mesh_run fmt decode secret ops ttl (es @ [(rq, body, now)]) sr'"
  | mesh_refresh: "mesh_run fmt decode secret ops ttl es sr \<Longrightarrow> refresh env ops config cs ov a now sr = Some sr' \<Longrightarrow>
      mesh_run fmt decode secret ops ttl es sr'"
  | mesh_other: "mesh_run fmt decode secret ops ttl es (s, r) \<Longrightarrow> mesh_run fmt decode secret ops ttl es (s, r')"

text \<open>A push that was let in, with its payload.\<close>

definition let_in :: "(string \<Rightarrow> peerRoutePayload option) \<Rightarrow> string \<Rightarrow> push list \<Rightarrow> peerRoutePayload \<Rightarrow> instant \<Rightarrow> bool" where
  "let_in decode secret es p t \<longleftrightarrow>
     (\<exists>rq body. (rq, body, t) \<in> set es \<and> bearer_refused secret rq = None \<and> decode (take peerPayloadMaxBytes body) = Some p)"

definition lr_ok :: "learnedRoute \<Rightarrow> bool" where
  "lr_ok lr \<longleftrightarrow> 0 < lr_backends lr \<and> 0 < lr_weight lr \<and>
     (if lr_abID lr = [] then lr_bBackends lr = 0 \<and> lr_bWeight lr = 0
      else abIDRe (lr_abID lr) \<and> 0 < lr_bBackends lr \<and> lr_bBackends lr \<le> lr_backends lr \<and> 0 < lr_bWeight lr \<and> lr_bWeight lr \<le> lr_weight lr)"

lemma learned_from_ok: "0 < pi_Backends r \<Longrightarrow> lr_ok (learned_from now p r)"
  by (auto simp: lr_ok_def learned_from_def peerRouteAB_def peerWeight_def Let_def split: if_splits)

lemma learned_from_peer [simp]: "lr_peerID (learned_from now p r) = pp_Peer p"
  by (simp add: learned_from_def split: prod.split)

definition route_from :: "(peerRoutePayload \<Rightarrow> instant \<Rightarrow> bool) \<Rightarrow> string \<Rightarrow> string \<Rightarrow> learnedRoute \<Rightarrow> bool" where
  "route_from pushed key peer lr \<longleftrightarrow> lr_ok lr \<and> lr_peerID lr = peer \<and>
     (\<exists>p t. pushed p t \<and> pp_Peer p = peer \<and> (\<exists>ri\<in>set (pp_Routes p). lr = learned_from t p ri \<and> key = group_key (pi_Host ri) (pi_PathPrefix ri)))"

definition exp_from :: "(peerRoutePayload \<Rightarrow> instant \<Rightarrow> bool) \<Rightarrow> string \<Rightarrow> string \<Rightarrow> abPeerExp \<Rightarrow> bool" where
  "exp_from pushed peer svc e \<longleftrightarrow> x_service e = svc \<and>
     (\<exists>p t. pushed p t \<and> pp_Peer p = peer \<and> exp_ok t e \<and> (\<exists>info\<in>set (pp_Experiments p). abPeerExpFromWire info t = Inr e))"

text \<open>The shape of the store: its maps have distinct keys, no route is without peers, and experiments and their arrival times go together.\<close>

definition store_wf :: "PeerRouteStore \<Rightarrow> bool" where
  "store_wf s \<longleftrightarrow> distinct (map fst (ps_routes s)) \<and> distinct (map fst (ps_exps s)) \<and> distinct (map fst (ps_expSeen s)) \<and>
     (\<forall>peers\<in>snd ` set (ps_routes s). peers \<noteq> [] \<and> distinct (map fst peers)) \<and>
     (\<forall>exps\<in>snd ` set (ps_exps s). distinct (map fst exps)) \<and> fst ` set (ps_exps s) = fst ` set (ps_expSeen s)"

definition mesh_ok :: "(peerRoutePayload \<Rightarrow> instant \<Rightarrow> bool) \<Rightarrow> PeerRouteStore \<Rightarrow> bool" where
  "mesh_ok pushed s \<longleftrightarrow> store_wf s \<and>
     (\<forall>(key, peers)\<in>set (ps_routes s). \<forall>(peer, lr)\<in>set peers. route_from pushed key peer lr) \<and>
     (\<forall>(peer, exps)\<in>set (ps_exps s). \<forall>(svc, e)\<in>set exps. exp_from pushed peer svc e)"

lemma route_from_mono: "(\<And>p t. pu p t \<Longrightarrow> pu' p t) \<Longrightarrow> route_from pu k peer lr \<Longrightarrow> route_from pu' k peer lr"
  unfolding route_from_def by blast

lemma exp_from_mono: "(\<And>p t. pu p t \<Longrightarrow> pu' p t) \<Longrightarrow> exp_from pu peer svc e \<Longrightarrow> exp_from pu' peer svc e"
  unfolding exp_from_def by blast

lemma mesh_okI:
  assumes "store_wf s" and "\<And>key peers peer lr. (key, peers) \<in> set (ps_routes s) \<Longrightarrow> (peer, lr) \<in> set peers \<Longrightarrow> route_from pushed key peer lr"
    and "\<And>peer exps svc e. (peer, exps) \<in> set (ps_exps s) \<Longrightarrow> (svc, e) \<in> set exps \<Longrightarrow> exp_from pushed peer svc e"
  shows "mesh_ok pushed s"
  unfolding mesh_ok_def using assms by auto

lemma mesh_okD:
  assumes "mesh_ok pushed s"
  shows "store_wf s" "(key, peers) \<in> set (ps_routes s) \<Longrightarrow> (peer, lr) \<in> set peers \<Longrightarrow> route_from pushed key peer lr"
    "(peer, exps) \<in> set (ps_exps s) \<Longrightarrow> (svc, e) \<in> set exps \<Longrightarrow> exp_from pushed peer svc e"
  using assms unfolding mesh_ok_def by auto

lemma mesh_ok_mono:
  assumes "mesh_ok pu s" and "\<And>p t. pu p t \<Longrightarrow> pu' p t"
  shows "mesh_ok pu' s"
proof (rule mesh_okI)
  show "store_wf s" by (rule mesh_okD(1) [OF assms(1)])
next
  fix key peers peer lr
  assume "(key, peers) \<in> set (ps_routes s)" "(peer, lr) \<in> set peers"
  from mesh_okD(2) [OF assms(1) this] show "route_from pu' key peer lr" by (rule route_from_mono [rotated]) (rule assms(2))
next
  fix peer exps svc e
  assume "(peer, exps) \<in> set (ps_exps s)" "(svc, e) \<in> set exps"
  from mesh_okD(3) [OF assms(1) this] show "exp_from pu' peer svc e" by (rule exp_from_mono [rotated]) (rule assms(2))
qed

lemma set_update_cases: "(k', v') \<in> set (AList.update k v m) \<Longrightarrow> k' = k \<and> v' = v \<or> (k', v') \<in> set m"
  using set_update_subset [of k v m] by auto

lemma inner_mem: "inner k m = [] \<or> (k, inner k m) \<in> set m"
  by (auto simp: inner_def dest: map_of_SomeD split: option.split)

lemma merge_route_ok:
  assumes ok: "mesh_ok pu s" and p: "pu p now" "ri \<in> set (pp_Routes p)"
  shows "mesh_ok pu (fst (merge_route now p (s, ch) ri))"
proof (cases "pi_Backends ri \<le> 0")
  case False
  let ?k = "group_key (pi_Host ri) (pi_PathPrefix ri)" and ?lr = "learned_from now p ri"
  let ?old = "inner ?k (ps_routes s)" and ?ps = "AList.update (pp_Peer p) ?lr (inner ?k (ps_routes s))"
  have s': "fst (merge_route now p (s, ch) ri) = s\<lparr>ps_routes := AList.update ?k ?ps (ps_routes s)\<rparr>"
    using False by (simp add: merge_route_def Let_def)
  have new: "route_from pu ?k (pp_Peer p) ?lr" using False p learned_from_ok unfolding route_from_def by auto
  note wf = mesh_okD(1) [OF ok]
  have d: "distinct (map fst ?old)" using inner_mem [of ?k "ps_routes s"] wf unfolding store_wf_def by force
  have "map_of ?ps (pp_Peer p) \<noteq> None" by simp
  then have "?ps \<noteq> []" by (metis map_of.simps(1))
  then have ps: "?ps \<noteq> []" "distinct (map fst ?ps)" using d by (simp_all add: distinct_update)
  have sub: "snd ` set (AList.update ?k ?ps (ps_routes s)) \<subseteq> insert ?ps (snd ` set (ps_routes s))"
    using set_update_subset [of ?k ?ps "ps_routes s"] by force
  have "x \<noteq> [] \<and> distinct (map fst x)" if "x \<in> snd ` set (AList.update ?k ?ps (ps_routes s))" for x
  proof (cases "x = ?ps")
    case False
    with sub that have "x \<in> snd ` set (ps_routes s)" by auto
    with wf show ?thesis unfolding store_wf_def by blast
  qed (use ps in simp)
  moreover have "distinct (map fst (AList.update ?k ?ps (ps_routes s)))" using wf by (simp add: store_wf_def distinct_update)
  ultimately have "store_wf (s\<lparr>ps_routes := AList.update ?k ?ps (ps_routes s)\<rparr>)" using wf unfolding store_wf_def by simp
  then show ?thesis unfolding s'
  proof (rule mesh_okI)
    fix key peers peer lr
    assume "(key, peers) \<in> set (ps_routes (s\<lparr>ps_routes := AList.update ?k ?ps (ps_routes s)\<rparr>))" "(peer, lr) \<in> set peers"
    then consider "(key, peers) \<in> set (ps_routes s)" | "key = ?k" "(peer, lr) \<in> set ?old" | "key = ?k" "peer = pp_Peer p" "lr = ?lr"
      using set_update_cases [of key peers ?k ?ps] set_update_cases [of peer lr "pp_Peer p" ?lr ?old] by auto
    then show "route_from pu key peer lr"
    proof cases
      case 2
      then show ?thesis using inner_mem [of ?k "ps_routes s"] mesh_okD(2) [OF ok] by auto
    qed (use mesh_okD(2) [OF ok] new \<open>(peer, lr) \<in> set peers\<close> in auto)
  qed (use mesh_okD(3) [OF ok] in simp)
qed (use ok in \<open>simp add: merge_route_def\<close>)

lemma store_wfD:
  assumes "store_wf s"
  shows "(key, peers) \<in> set (ps_routes s) \<Longrightarrow> peers \<noteq> [] \<and> distinct (map fst peers)"
    "(peer, exps) \<in> set (ps_exps s) \<Longrightarrow> distinct (map fst exps)"
  using assms unfolding store_wf_def by force+

lemma keys_filter_set: "fst ` set (filter (\<lambda>(p, e). p \<notin> A) m) = fst ` set m - A"
  by force

lemma keys_delete_set: "fst ` set (AList.delete k m) = fst ` set m - {k}"
  by (force simp: AList.delete_eq)

lemma merge_experiments_ok:
  assumes ok: "mesh_ok pu s" and p: "pu p now"
  shows "mesh_ok pu (fst (merge_experiments fmt now s p))"
proof -
  let ?exps = "validatePeerExperiments (pp_Experiments p) now" and ?P = "pp_Peer p"
  let ?s = "fst (merge_experiments fmt now s p)"
  note v = validated_experiments [of now "pp_Experiments p", unfolded kept_ok_def]
  note wf = mesh_okD(1) [OF ok]
  have from_p: "exp_from pu ?P svc e" if "(svc, e) \<in> set ?exps" for svc e
  proof -
    have "map_of ?exps svc = Some e" using v that by simp
    then show ?thesis using v p unfolding exp_from_def by blast
  qed
  have s: "ps_routes ?s = ps_routes s" "?exps \<noteq> [] \<Longrightarrow> ps_exps ?s = AList.update ?P ?exps (ps_exps s)"
    "?exps \<noteq> [] \<Longrightarrow> ps_expSeen ?s = AList.update ?P now (ps_expSeen s)"
    "?exps = [] \<Longrightarrow> ps_exps ?s = AList.delete ?P (ps_exps s)" "?exps = [] \<Longrightarrow> ps_expSeen ?s = AList.delete ?P (ps_expSeen s)"
    by (simp_all add: merge_experiments_def Let_def)
  have exps: "exps = ?exps \<and> peer = ?P \<or> (peer, exps) \<in> set (ps_exps s)" if "(peer, exps) \<in> set (ps_exps ?s)" for peer exps
    using that s set_update_cases [of peer exps ?P ?exps "ps_exps s"] by (cases "?exps = []") (auto simp: AList.delete_eq)
  have "distinct (map fst exps)" if "(peer, exps) \<in> set (ps_exps ?s)" for peer exps
    using exps [OF that] v store_wfD(2) [OF wf] by auto
  moreover have "fst ` set (ps_exps ?s) = fst ` set (ps_expSeen ?s)"
    using wf s by (cases "?exps = []") (simp_all add: store_wf_def dom_update keys_delete_set)
  moreover have "distinct (map fst (ps_exps ?s)) \<and> distinct (map fst (ps_expSeen ?s))"
    using wf s by (cases "?exps = []") (simp_all add: store_wf_def distinct_update distinct_delete)
  ultimately have "store_wf ?s" using wf unfolding store_wf_def s(1) by force
  then show ?thesis
  proof (rule mesh_okI)
    show "route_from pu key peer lr" if "(key, peers) \<in> set (ps_routes ?s)" "(peer, lr) \<in> set peers" for key peers peer lr
      using that mesh_okD(2) [OF ok] unfolding s(1) by blast
  next
    show "exp_from pu peer svc e" if "(peer, exps) \<in> set (ps_exps ?s)" "(svc, e) \<in> set exps" for peer exps svc e
      using exps [OF that(1)] that(2) from_p mesh_okD(3) [OF ok] by blast
  qed
qed

lemma merge_ok:
  assumes "mesh_ok pu s" "pu p now"
  shows "mesh_ok pu (fst (merge fmt now s p))"
proof -
  have "mesh_ok pu (fst (foldl (merge_route now p) st ris))" if "set ris \<subseteq> set (pp_Routes p)" "mesh_ok pu (fst st)" for ris st
    using that
  proof (induction ris arbitrary: st)
    case (Cons ri ris)
    have "mesh_ok pu (fst (merge_route now p st ri))"
      using merge_route_ok [of pu "fst st" p now ri "snd st"] Cons.prems assms(2) by simp
    with Cons show ?case by simp
  qed simp
  then show ?thesis using merge_experiments_ok [OF assms] unfolding merge_def by blast
qed

lemma expire_ok:
  assumes "mesh_ok pu s"
  shows "mesh_ok pu (expire_routes now (expire_experiments now s))"
proof -
  let ?s = "expire_routes now (expire_experiments now s)"
  let ?old = "set (map fst (filter (\<lambda>(p, seen). stale_since (ps_ttl s) now seen) (ps_expSeen s)))"
  let ?f = "filter (\<lambda>(p, lr). \<not> stale_since (ps_ttl s) now (lr_lastSeen lr))"
  note wf = mesh_okD(1) [OF assms]
  have s: "ps_routes ?s = filter (\<lambda>(k, ps). ps \<noteq> []) (map (\<lambda>(k, ps). (k, ?f ps)) (ps_routes s))"
    "ps_exps ?s = filter (\<lambda>(p, e). p \<notin> ?old) (ps_exps s)" "ps_expSeen ?s = filter (\<lambda>(p, e). p \<notin> ?old) (ps_expSeen s)"
    by (simp_all add: expire_routes_def expire_experiments_def Let_def)
  have r: "\<exists>ps0. (key, ps0) \<in> set (ps_routes s) \<and> peers = ?f ps0 \<and> peers \<noteq> []" if "(key, peers) \<in> set (ps_routes ?s)" for key peers
    using that unfolding s by auto
  have "map fst (map (\<lambda>(k, ps). (k, ?f ps)) (ps_routes s)) = map fst (ps_routes s)" by (simp add: case_prod_unfold)
  then have "distinct (map fst (ps_routes ?s))" using wf unfolding s(1) store_wf_def by (metis distinct_keys_filter)
  moreover have "peers \<noteq> [] \<and> distinct (map fst peers)" if "(key, peers) \<in> set (ps_routes ?s)" for key peers
    using r [OF that] store_wfD(1) [OF wf] distinct_keys_filter by blast
  moreover have "fst ` set (ps_exps ?s) = fst ` set (ps_expSeen ?s)"
    using wf unfolding s store_wf_def keys_filter_set by simp
  ultimately have "store_wf ?s" using wf unfolding store_wf_def s(2,3) by (auto intro: distinct_keys_filter)
  then show ?thesis
  proof (rule mesh_okI)
    show "route_from pu key peer lr" if "(key, peers) \<in> set (ps_routes ?s)" "(peer, lr) \<in> set peers" for key peers peer lr
      using r [OF that(1)] that(2) mesh_okD(2) [OF assms] by auto
  next
    show "exp_from pu peer svc e" if "(peer, exps) \<in> set (ps_exps ?s)" "(svc, e) \<in> set exps" for peer exps svc e
      using that mesh_okD(3) [OF assms] unfolding s by auto
  qed
qed

lemma refresh_store:
  assumes "refresh env ops config cs ov a now (s, r) = Some (s', r')"
  shows "s' = s \<or> s' = expire_routes now (expire_experiments now s)"
  using assms by (auto simp: refresh_def overlay_def Let_def split: option.splits prod.splits)

lemma merge_route_ttl: "ps_ttl (fst (merge_route now p st r)) = ps_ttl (fst st)"
  by (cases st) (simp add: merge_route_def Let_def)

lemma merge_ttl: "ps_ttl (fst (merge fmt now s p)) = ps_ttl s"
proof -
  have "ps_ttl (fst (foldl (merge_route now p) st ris)) = ps_ttl (fst st)" for st ris
    by (induction ris arbitrary: st) (simp_all add: merge_route_ttl)
  then show ?thesis by (simp add: merge_def merge_experiments_def Let_def)
qed

lemma expire_ttl: "ps_ttl (expire_routes now (expire_experiments now s)) = ps_ttl s"
  by (simp add: expire_routes_def expire_experiments_def Let_def)

lemma let_in_mono: "let_in decode secret es p t \<Longrightarrow> let_in decode secret (es @ fs) p t"
  unfolding let_in_def by auto

lemma handler_store:
  assumes "peerRoutesHandler fmt decode refr secret now rq body (s, r) = Some (status, s', r')"
  obtains "s' = s" "r' = r" "bearer_refused secret rq \<noteq> None \<or> decode (take peerPayloadMaxBytes body) = None"
  | p r1 where "bearer_refused secret rq = None" "decode (take peerPayloadMaxBytes body) = Some p"
      "(if snd (merge fmt now s p) then refr (fst (merge fmt now s p), r) else Some (fst (merge fmt now s p), r)) = Some (s', r1)"
      "r' = applyAB now (pp_Peer p) s' r1"
proof (cases "bearer_refused secret rq")
  case (Some st)
  with assms that(1) show ?thesis by (simp add: peerRoutesHandler_def)
next
  case None
  show ?thesis
  proof (cases "decode (take peerPayloadMaxBytes body)")
    case None': None
    with None assms that(1) show ?thesis by (simp add: peerRoutesHandler_def)
  next
    case (Some p)
    obtain r1 where "(if snd (merge fmt now s p) then refr (fst (merge fmt now s p), r) else Some (fst (merge fmt now s p), r)) = Some (s', r1)"
      "r' = applyAB now (pp_Peer p) s' r1"
      using assms None Some by (auto simp: peerRoutesHandler_def Let_def case_prod_unfold cong: if_cong split: option.splits)
    then show ?thesis by (rule that(2) [OF None Some])
  qed
qed

lemma mesh_run_ok:
  assumes "mesh_run fmt decode secret ops ttl es sr"
  shows "mesh_ok (let_in decode secret es) (fst sr) \<and> ps_ttl (fst sr) = ttl"
  using assms
proof (induction rule: mesh_run.induct)
  case (mesh_start r)
  show ?case by (simp add: newPeerRouteStore_def mesh_ok_def store_wf_def)
next
  case (mesh_push es sr env config cs ov a now rq body status sr')
  obtain s r s' r' where [simp]: "sr = (s, r)" "sr' = (s', r')" by fastforce
  have "mesh_ok (let_in decode secret es) s" using mesh_push.IH by simp
  then have ok: "mesh_ok (let_in decode secret (es @ [(rq, body, now)])) s" by (rule mesh_ok_mono) (rule let_in_mono)
  have "peerRoutesHandler fmt decode (refresh env ops config cs ov a now) secret now rq body (s, r) = Some (status, s', r')"
    using mesh_push.hyps(2) by simp
  then show ?case
  proof (cases rule: handler_store)
    case 1
    with ok mesh_push.IH show ?thesis by simp
  next
    case (2 p r1)
    let ?s1 = "fst (merge fmt now s p)"
    have "let_in decode secret (es @ [(rq, body, now)]) p now" using 2 unfolding let_in_def by auto
    from merge_ok [OF ok this] have m: "mesh_ok (let_in decode secret (es @ [(rq, body, now)])) ?s1" .
    have "s' = ?s1 \<or> s' = expire_routes now (expire_experiments now ?s1)"
      using 2(3) by (auto split: if_splits dest: refresh_store)
    with m expire_ok [OF m] mesh_push.IH show ?thesis by (auto simp: merge_ttl expire_ttl)
  qed
next
  case (mesh_refresh es sr env config cs ov a now sr')
  obtain s r s' r' where [simp]: "sr = (s, r)" "sr' = (s', r')" by fastforce
  have "s' = s \<or> s' = expire_routes now (expire_experiments now s)" using refresh_store mesh_refresh.hyps(2) by simp
  with mesh_refresh.IH expire_ok [of "let_in decode secret es" s] show ?case by (auto simp: expire_ttl)
qed simp

text \<open>
  (C17) Everything the mesh knows was told by someone with the secret. Over any sequence of pushes to the internal port and refreshes, every learned route and every experiment comes from
  a request with the shared bearer secret whose body decoded, under the peer named in it; each route has a positive backend count and weight and a B share
  within them, and each experiment passed validation when it arrived.
\<close>

theorem mesh_store_sound:
  assumes "mesh_run fmt decode secret ops ttl es (s, r)"
  shows "(\<forall>key peer lr. map_of (inner key (ps_routes s)) peer = Some lr \<longrightarrow> route_from (let_in decode secret es) key peer lr) \<and>
    (\<forall>peer svc e. peer_exp s peer svc = Some e \<longrightarrow> exp_from (let_in decode secret es) peer svc e)"
proof -
  have ok: "mesh_ok (let_in decode secret es) s" using mesh_run_ok [OF assms] by simp
  have "route_from (let_in decode secret es) key peer lr" if "map_of (inner key (ps_routes s)) peer = Some lr" for key peer lr
    using map_of_SomeD [OF that] inner_mem [of key "ps_routes s"] mesh_okD(2) [OF ok] by auto
  moreover have "exp_from (let_in decode secret es) peer svc e" if "peer_exp s peer svc = Some e" for peer svc e
    using map_of_SomeD [OF that [unfolded peer_exp_def]] inner_mem [of peer "ps_exps s"] mesh_okD(3) [OF ok] by auto
  ultimately show ?thesis by blast
qed

lemma not_expired_after: "\<not> hasExpired now (expire_routes now (expire_experiments now s))"
proof -
  let ?s = "expire_routes now (expire_experiments now s)"
  have "\<not> stale_since (ps_ttl s) now (lr_lastSeen lr)" if "(k, peers) \<in> set (ps_routes ?s)" "(p, lr) \<in> set peers" for k peers p lr
    using that by (auto simp: expire_routes_def expire_experiments_def Let_def)
  moreover have "\<not> stale_since (ps_ttl s) now seen" if "(p, seen) \<in> set (ps_expSeen ?s)" for p seen
    using that by (force simp: expire_routes_def expire_experiments_def Let_def)
  ultimately show ?thesis unfolding hasExpired_def list_ex_iff expire_ttl by auto
qed

lemma wf_fresh_unchanged:
  assumes "store_wf s"
  shows "\<not> hasExpired now s \<longleftrightarrow> expire_routes now (expire_experiments now s) = s"
proof
  assume no: "\<not> hasExpired now s"
  then have "filter (\<lambda>(p, seen). stale_since (ps_ttl s) now seen) (ps_expSeen s) = []"
    by (auto simp: hasExpired_def list_ex_iff filter_empty_conv)
  then have e: "expire_experiments now s = s" by (simp add: expire_experiments_def Let_def)
  have "filter (\<lambda>(p, lr). \<not> stale_since (ps_ttl s) now (lr_lastSeen lr)) peers = peers" if "(k, peers) \<in> set (ps_routes s)" for k peers
    using no that unfolding hasExpired_def list_ex_iff by (intro filter_True) auto
  then have "map (\<lambda>(k, peers). (k, filter (\<lambda>(p, lr). \<not> stale_since (ps_ttl s) now (lr_lastSeen lr)) peers)) (ps_routes s) = ps_routes s"
    by (intro map_idI) auto
  moreover have "filter (\<lambda>(k, peers). peers \<noteq> []) (ps_routes s) = ps_routes s" using store_wfD(1) [OF assms] by (intro filter_True) auto
  ultimately show "expire_routes now (expire_experiments now s) = s" by (simp add: e expire_routes_def)
next
  assume same: "expire_routes now (expire_experiments now s) = s"
  then show "\<not> hasExpired now s" using not_expired_after [of now s] by simp
qed

text \<open>
  (C18) The cheap check and the expensive eviction agree. In every state of the mesh the check for expired entries is true exactly if an overlay would drop something from the store, and after an
  overlay it is false.
\<close>

theorem expiry_check_exact:
  assumes "mesh_run fmt decode secret ops ttl es (s, r)"
  shows "(hasExpired now s \<longleftrightarrow> fst (overlay env now s services m) \<noteq> s) \<and> \<not> hasExpired now (fst (overlay env now s services m))"
proof -
  have ok: "mesh_ok (let_in decode secret es) s" using mesh_run_ok [OF assms] by simp
  have o: "fst (overlay env now s services m) = expire_routes now (expire_experiments now s)"
    by (simp add: overlay_def Let_def case_prod_unfold)
  show ?thesis using wf_fresh_unchanged [OF mesh_okD(1) [OF ok]] not_expired_after unfolding o by blast
qed

text \<open>A push of one route, taken in while \<^verbatim>\<open>routes.json\<close> does not parse.\<close>

definition ex_route_info :: peerRouteInfo where
  "ex_route_info = \<lparr>pi_Host = ''h'', pi_PathPrefix = ''/'', pi_StripPrefix = False, pi_Name = ''app'', pi_Service = ''web'', pi_Backends = 2,
     pi_Weight = 0, pi_RateLimit = False, pi_RateRPM = 0, pi_Spread = False, pi_ABID = [], pi_BBackends = 0, pi_BWeight = 0\<rparr>"

definition ex_payload :: peerRoutePayload where
  "ex_payload = \<lparr>pp_Peer = ''mac'', pp_Advertise = ''http://10.0.0.9:80'', pp_Routes = [ex_route_info], pp_Experiments = []\<rparr>"

definition ex_push :: request where
  "ex_push = \<lparr>rq_Method = ''POST'', rq_Host = [], rq_Path = ''/peer/routes'', rq_RawQuery = [],
     rq_Header = [(''Authorization'', [''Bearer k''])], rq_RemoteAddr = []\<rparr>"

definition ex_store :: PeerRouteStore where
  "ex_store = fst (merge (\<lambda>x. []) 0 (newPeerRouteStore minute) ex_payload)"

lemma ex_learned: "ps_routes ex_store = [(''h|/'', [(''mac'', learned_from 0 ex_payload ex_route_info)])]"
  by (simp add: ex_store_def merge_def merge_experiments_def merge_route_def ex_payload_def ex_route_info_def newPeerRouteStore_def inner_def
      group_key_def Let_def case_prod_unfold)

lemma ex_mesh_run: "mesh_run (\<lambda>x. []) (\<lambda>body. Some ex_payload) ''k'' mem_ops minute [(ex_push, [], 0)]
    (ex_store, applyAB 0 ''mac'' ex_store (newRouter (\<lambda>a. zeroBackend)))"
proof -
  have "bearer_refused ''k'' ex_push = None" by code_simp
  then have "peerRoutesHandler (\<lambda>x. []) (\<lambda>body. Some ex_payload) (refresh ex_assemble_env mem_ops BadConfig None None 0 0) ''k'' 0 ex_push []
      (newPeerRouteStore minute, newRouter (\<lambda>a. zeroBackend)) = Some (204, ex_store, applyAB 0 ''mac'' ex_store (newRouter (\<lambda>a. zeroBackend)))"
    by (simp add: peerRoutesHandler_def refresh_def assembleGroupsWithOverlay_def ex_store_def Let_def case_prod_unfold cong: if_cong)
      (simp add: ex_payload_def)
  from mesh_push [OF mesh_start this] show ?thesis by simp
qed

theorem mesh_store_sound_witness:
  "map_of (inner ''h|/'' (ps_routes ex_store)) ''mac'' = Some (learned_from 0 ex_payload ex_route_info) \<and>
   route_from (let_in (\<lambda>body. Some ex_payload) ''k'' [(ex_push, [], 0)]) ''h|/'' ''mac'' (learned_from 0 ex_payload ex_route_info)"
proof -
  have "map_of (inner ''h|/'' (ps_routes ex_store)) ''mac'' = Some (learned_from 0 ex_payload ex_route_info)"
    by (simp add: inner_def ex_learned)
  with mesh_store_sound [OF ex_mesh_run] show ?thesis by blast
qed

theorem expiry_check_exact_witness:
  "fst (overlay ex_assemble_env (2 * minute) ex_store [] \<lparr>mg_heap = (\<lambda>a. zeroBackend), mg_next = 0, mg_groups = []\<rparr>) \<noteq> ex_store"
proof -
  have "lr_lastSeen (learned_from 0 ex_payload ex_route_info) = 0" "ps_ttl ex_store = minute"
    by (simp_all add: learned_from_def case_prod_unfold Let_def ex_store_def merge_ttl newPeerRouteStore_def)
  then have "hasExpired (2 * minute) ex_store" by (simp add: hasExpired_def ex_learned stale_since_def time_units)
  with expiry_check_exact [OF ex_mesh_run] show ?thesis by blast
qed

end
