(* ===== verification/OverlayLaws.thy ===== *)
theory OverlayLaws
  imports MeshLaws
begin

section \<open>What the overlay of peers' routes does to the table\<close>

text \<open>
  How groups and backends grow under the overlay: existing groups only get peer backends and the spread flag, new groups start from what was learned.
\<close>

subsection \<open>Allocation\<close>

lemma alloc_peers_spec:
  "alloc_peers bs h a = (h', as) \<Longrightarrow>
     as = [a..<a + length bs] \<and> (\<forall>x. x < a \<or> a + length bs \<le> x \<longrightarrow> h' x = h x) \<and> (\<forall>i<length bs. h' (a + i) = bs ! i)"
proof (induction bs arbitrary: h a h' as)
  case (Cons b bs)
  obtain as0 where 0: "alloc_peers bs (h(a := b)) (Suc a) = (h', as0)" "as = a # as0" using Cons.prems by (auto split: prod.splits)
  note IH = Cons.IH [OF 0(1)]
  have "h' (a + i) = (b # bs) ! i" if "i < length (b # bs)" for i
  proof (cases i)
    case 0
    with IH show ?thesis by simp
  next
    case (Suc j)
    with IH that have "h' (Suc a + j) = bs ! j" by simp
    with Suc show ?thesis by simp
  qed
  moreover have "as = [a..<a + length (b # bs)]" using IH 0(2) by (simp add: upt_rec)
  moreover have "h' x = h x" if "x < a \<or> a + length (b # bs) \<le> x" for x
  proof -
    have "h' x = (h(a := b)) x" using IH that by auto
    with that show ?thesis by auto
  qed
  ultimately show ?case by blast
qed simp

subsection \<open>Growth\<close>

definition extends :: "baddr \<Rightarrow> baddr \<Rightarrow> RouteGroup \<Rightarrow> RouteGroup \<Rightarrow> bool" where
  "extends a n g g' \<longleftrightarrow> (\<exists>as sp. g' = g\<lparr>g_Spread := sp, g_Backends := g_Backends g @ as\<rparr> \<and> set as \<subseteq> {a..<n} \<and> (g_Spread g \<longrightarrow> sp))"

definition grown :: "(Backend \<Rightarrow> bool) \<Rightarrow> (RouteGroup \<Rightarrow> bool) \<Rightarrow> meshing \<Rightarrow> meshing \<Rightarrow> bool" where
  "grown Q L m0 m \<longleftrightarrow> mg_next m0 \<le> mg_next m \<and> (\<forall>x<mg_next m0. mg_heap m x = mg_heap m0 x) \<and>
     (\<forall>x. mg_next m0 \<le> x \<and> x < mg_next m \<longrightarrow> Q (mg_heap m x)) \<and>
     (\<exists>lgs. list_all2 (extends (mg_next m0) (mg_next m)) (mg_groups m0 @ lgs) (mg_groups m) \<and> (\<forall>g\<in>set lgs. L g))"

lemma extends_refl: "extends a n g g"
  unfolding extends_def by (intro exI [of _ "[]"] exI [of _ "g_Spread g"]) simp

lemma extends_mono: "extends a n g g' \<Longrightarrow> n \<le> n' \<Longrightarrow> extends a n' g g'"
  unfolding extends_def by fastforce

lemma extends_step:
  assumes "extends a n g g'" "set as \<subseteq> {a..<n'}" "n \<le> n'" "g_Spread g' \<Longrightarrow> sp"
  shows "extends a n' g (g'\<lparr>g_Spread := sp, g_Backends := g_Backends g' @ as\<rparr>)"
proof -
  obtain bs sp0 where "g' = g\<lparr>g_Spread := sp0, g_Backends := g_Backends g @ bs\<rparr>" "set bs \<subseteq> {a..<n}" "g_Spread g \<longrightarrow> sp0"
    using assms(1) unfolding extends_def by blast
  with assms show ?thesis unfolding extends_def
    by (intro exI [of _ "bs @ as"] exI [of _ sp]) auto
qed

lemma extends_backends: "extends a n g g' \<Longrightarrow> set (g_Backends g) \<subseteq> set (g_Backends g') \<and> set (g_Backends g') \<subseteq> set (g_Backends g) \<union> {a..<n}"
  unfolding extends_def by auto

lemma grown_refl: "grown Q L m m"
  unfolding grown_def by (intro conjI exI [of _ "[]"]) (auto simp: list_all2_same extends_refl)

lemma grown_append:
  assumes "grown Q L m0 m" "L g"
  shows "grown Q L m0 (m\<lparr>mg_groups := mg_groups m @ [g]\<rparr>)"
proof -
  obtain lgs where "list_all2 (extends (mg_next m0) (mg_next m)) (mg_groups m0 @ lgs) (mg_groups m)" "\<forall>g\<in>set lgs. L g"
    using assms(1) unfolding grown_def by blast
  then have "list_all2 (extends (mg_next m0) (mg_next m)) (mg_groups m0 @ (lgs @ [g])) (mg_groups m @ [g])"
    using list_all2_appendI [of _ "mg_groups m0 @ lgs" "mg_groups m" "[g]" "[g]"] extends_refl by auto
  moreover have "\<forall>x\<in>set (lgs @ [g]). L x" using assms(2) \<open>\<forall>g\<in>set lgs. L g\<close> by simp
  ultimately have "\<exists>lgs. list_all2 (extends (mg_next m0) (mg_next m)) (mg_groups m0 @ lgs) (mg_groups m @ [g]) \<and> (\<forall>g\<in>set lgs. L g)" by blast
  with assms(1) show ?thesis unfolding grown_def by simp
qed

lemma grown_add:
  assumes g: "grown Q L m0 m" and i: "i < length (mg_groups m)"
    and Q: "\<And>b. b \<in> set (marked_backends env s testIDs key (mg_groups m ! i) (fst pl) (snd pl)) \<Longrightarrow> Q b"
  shows "grown Q L m0 (add_to_group env s testIDs key pl m i)"
proof -
  let ?g = "mg_groups m ! i" and ?n = "mg_next m"
  let ?bs = "marked_backends env s testIDs key ?g (fst pl) (snd pl)"
  obtain h as where al: "alloc_peers ?bs (mg_heap m) ?n = (h, as)" by fastforce
  note spec = alloc_peers_spec [OF al]
  let ?sp = "g_Spread ?g \<or> lr_spread (snd pl)" and ?n' = "?n + length ?bs"
  let ?g' = "?g\<lparr>g_Spread := ?sp, g_Backends := g_Backends ?g @ as\<rparr>"
  show ?thesis
  proof (cases "?bs = []")
    case True
    with g show ?thesis by (simp add: add_to_group_def Let_def case_prod_unfold)
  next
    case False
    have "(if lr_spread (snd pl) then ?g\<lparr>g_Spread := True\<rparr> else ?g)\<lparr>g_Backends := g_Backends ?g @ as\<rparr> = ?g'"
      by (cases "lr_spread (snd pl)") simp_all
    then have m': "add_to_group env s testIDs key pl m i = \<lparr>mg_heap = h, mg_next = ?n', mg_groups = (mg_groups m)[i := ?g']\<rparr>"
      using False al by (simp add: add_to_group_def Let_def case_prod_unfold)
    obtain lgs where l: "list_all2 (extends (mg_next m0) ?n) (mg_groups m0 @ lgs) (mg_groups m)" "\<forall>g\<in>set lgs. L g"
      and n: "mg_next m0 \<le> ?n" using g unfolding grown_def by blast
    have "list_all2 (extends (mg_next m0) ?n') (mg_groups m0 @ lgs) (mg_groups m)"
      using l(1) by (rule list_all2_mono) (auto intro: extends_mono)
    moreover have "extends (mg_next m0) ?n' ((mg_groups m0 @ lgs) ! i) ?g'"
      using list_all2_nthD2 [OF l(1) i] spec n by (intro extends_step) auto
    ultimately have "list_all2 (extends (mg_next m0) ?n') (mg_groups m0 @ lgs) ((mg_groups m)[i := ?g'])"
      using i by (auto simp: list_all2_conv_all_nth nth_list_update)
    moreover have "Q (h x)" if "mg_next m0 \<le> x" "x < ?n'" for x
    proof (cases "x < ?n")
      case True
      then show ?thesis using g spec that unfolding grown_def by auto
    next
      case False
      then have x: "x - ?n < length ?bs" using that by arith
      then have "h (?n + (x - ?n)) = ?bs ! (x - ?n)" using spec by blast
      then have "h x \<in> set ?bs" using False x by simp
      then show ?thesis by (rule Q)
    qed
    moreover have "h x = mg_heap m0 x" if "x < mg_next m0" for x using g spec that n unfolding grown_def by auto
    ultimately show ?thesis using l(2) n unfolding grown_def m' by auto
  qed
qed

lemma group_index_less: "group_index key gs = Some i \<Longrightarrow> i < length gs \<and> routeKey (gs ! i) = key"
  by (auto simp: group_index_def find_Some_iff) (metis add_0 diff_less_Suc length_rev length_upt less_imp_diff_less minus_nat.diff_0 nth_mem set_rev set_upt atLeastLessThan_iff)

definition peer_backend :: "PeerRouteStore \<Rightarrow> learnedRoute \<Rightarrow> Backend \<Rightarrow> bool" where
  "peer_backend s lr b \<longleftrightarrow> b_Learned b \<and> b_PeerID b = lr_peerID lr \<and> b_URL b = lr_advertise lr \<and> 1 \<le> b_Weight b \<and>
     (b_Variant b = [] \<or>
      b_Variant b = abVariantB \<and> lr_abID lr \<noteq> [] \<and> (\<exists>svc e. peer_exp s (lr_peerID lr) svc = Some e \<and> x_id e = lr_abID lr))"

lemma opt_mem: "b \<in> set (case x of None \<Rightarrow> [] | Some y \<Rightarrow> [y]) \<longleftrightarrow> x = Some b"
  by (cases x) auto

lemma peerBackendsFor_ok:
  assumes "b \<in> set (peerBackendsFor env s lr host path (abSplitFor s g testID lr))"
  shows "peer_backend s lr b"
proof -
  have mk: "b_Learned x \<and> b_PeerID x = lr_peerID lr \<and> b_URL x = lr_advertise lr \<and> 1 \<le> b_Weight x \<and> b_Variant x = []"
    if "makePeerBackendAuth (ge_sha env) (ge_parses env) (lr_advertise lr) host path (lr_stripPrefix lr) (lr_peerID lr) w (ps_hopAuth s) = Some x" for w x
    using that by (auto simp: makePeerBackendAuth_def zeroBackend_def split: if_splits)
  have both: "lr_abID lr \<noteq> [] \<and> (\<exists>svc e. peer_exp s (lr_peerID lr) svc = Some e \<and> x_id e = lr_abID lr)"
    if "abSplitFor s g testID lr = abSplitBoth"
    using that by (auto simp: abSplitFor_def split: if_splits option.splits)
  let ?mk = "\<lambda>w. makePeerBackendAuth (ge_sha env) (ge_parses env) (lr_advertise lr) host path (lr_stripPrefix lr) (lr_peerID lr) w (ps_hopAuth s)"
  have A: "peer_backend s lr x" if "?mk w = Some x" for w x using mk [OF that] unfolding peer_backend_def by blast
  have B: "peer_backend s lr (x\<lparr>b_Variant := abVariantB, b_Container := c, b_stickyID := i\<rparr>)"
    if "Some x = ?mk w" "abSplitFor s g testID lr = abSplitBoth" for w x c i
    using mk [OF that(1) [symmetric]] both [OF that(2)] unfolding peer_backend_def by simp
  show ?thesis
  proof (cases "abSplitFor s g testID lr")
    case abSplitLegacy
    with assms show ?thesis by (auto simp: peerBackendsFor_def Let_def opt_mem intro: A)
  next
    case abSplitAOnly
    with assms show ?thesis by (cases "lr_bBackends lr < lr_backends lr") (auto simp: peerBackendsFor_def Let_def opt_mem intro: A)
  next
    case abSplitBoth
    with assms show ?thesis by (cases "lr_bBackends lr < lr_backends lr") (auto simp: peerBackendsFor_def Let_def opt_mem intro: A B)
  qed
qed

lemma marked_backends_ok: "b \<in> set (marked_backends env s testIDs key g peer lr) \<Longrightarrow> peer_backend s lr b"
  by (auto simp: marked_backends_def Let_def case_prod_unfold split: option.splits if_splits dest!: peerBackendsFor_ok) (auto simp: peer_backend_def)

definition stored :: "PeerRouteStore \<Rightarrow> string \<Rightarrow> string \<Rightarrow> learnedRoute \<Rightarrow> bool" where
  "stored s key peer lr \<longleftrightarrow> (\<exists>peers. (key, peers) \<in> set (ps_routes s) \<and> (peer, lr) \<in> set peers)"

definition learned_backend :: "PeerRouteStore \<Rightarrow> Backend \<Rightarrow> bool" where
  "learned_backend s b \<longleftrightarrow> (\<exists>key peer lr. stored s key peer lr \<and> peer_backend s lr b)"

definition from_learned :: "PeerRouteStore \<Rightarrow> (string \<times> baddr list) list \<Rightarrow> RouteGroup \<Rightarrow> bool" where
  "from_learned s services g \<longleftrightarrow>
     (\<exists>key peer lr. stored s key peer lr \<and> g = learned_group services (fst (splitRouteKey key)) (snd (splitRouteKey key)) lr)"

lemma grown_learned:
  assumes "grown (learned_backend s) (from_learned s services) m0 m" "stored s key (fst pl) (snd pl)"
  shows "grown (learned_backend s) (from_learned s services) m0 (add_learned env s testIDs services key m pl)"
proof -
  have Q: "learned_backend s b" if "b \<in> set (marked_backends env s testIDs key g (fst pl) (snd pl))" for b g
    using marked_backends_ok [OF that] assms(2) unfolding learned_backend_def by blast
  show ?thesis
  proof (cases "group_index key (mg_groups m)")
    case None
    let ?g = "learned_group services (fst (splitRouteKey key)) (snd (splitRouteKey key)) (snd pl)"
    have "from_learned s services ?g" using assms(2) unfolding from_learned_def by blast
    from grown_append [OF assms(1) this]
    have "grown (learned_backend s) (from_learned s services) m0 (add_to_group env s testIDs key pl (m\<lparr>mg_groups := mg_groups m @ [?g]\<rparr>) (length (mg_groups m)))"
      by (rule grown_add) (simp, erule Q)
    with None show ?thesis by (simp add: add_learned_def Let_def case_prod_unfold)
  next
    case (Some i)
    with grown_add [OF assms(1) _ Q] group_index_less [OF Some] show ?thesis by (simp add: add_learned_def)
  qed
qed

lemma grown_learn_all: "grown (learned_backend s) (from_learned s services) m (learn_all env s testIDs services m)"
proof -
  let ?G = "grown (learned_backend s) (from_learned s services) m"
  have inner: "?G (foldl (add_learned env s testIDs services key) m1 ps)" if "set ps \<subseteq> set peers" "(key, peers) \<in> set (ps_routes s)" "?G m1" for ps key peers m1
    using that
  proof (induction ps arbitrary: m1)
    case (Cons pl ps)
    have "stored s key (fst pl) (snd pl)" using Cons.prems unfolding stored_def by (auto intro!: exI [of _ peers])
    with Cons grown_learned show ?case by simp
  qed simp
  have "?G (foldl (\<lambda>m (key, peers). foldl (add_learned env s testIDs services key) m peers) m1 rs)" if "set rs \<subseteq> set (ps_routes s)" "?G m1" for rs m1
    using that
  proof (induction rs arbitrary: m1)
    case (Cons r rs)
    obtain key peers where r: "r = (key, peers)" by fastforce
    have "?G (foldl (add_learned env s testIDs services key) m1 peers)" using Cons.prems r by (intro inner [of peers peers]) auto
    with Cons r show ?case by simp
  qed simp
  then show ?thesis using grown_refl unfolding learn_all_def by blast
qed

subsection \<open>Advertising\<close>

definition pool :: "(string \<times> baddr list) list \<Rightarrow> string \<Rightarrow> baddr list" where
  "pool services svc = (if svc = [] then [] else case map_of services svc of None \<Rightarrow> [] | Some bs \<Rightarrow> bs)"

definition addresses_below :: "baddr \<Rightarrow> RouteGroup list \<Rightarrow> (string \<times> baddr list) list \<Rightarrow> bool" where
  "addresses_below a gs services \<longleftrightarrow> (\<forall>g\<in>set gs. set (g_Backends g) \<subseteq> {..<a}) \<and> (\<forall>bs\<in>snd ` set services. set bs \<subseteq> {..<a})"

lemma pool_below: "addresses_below a gs services \<Longrightarrow> set (pool services svc) \<subseteq> {..<a}"
proof (cases "map_of services svc")
  case (Some bs)
  assume "addresses_below a gs services"
  moreover have "bs \<in> snd ` set services" using map_of_SomeD [OF Some] by force
  ultimately have "set bs \<subseteq> {..<a}" unfolding addresses_below_def by blast
  with Some show ?thesis unfolding pool_def by simp
qed (simp add: pool_def)

lemma abAttach_frame:
  "g_Backends (abAttach h adopt g) = g_Backends g" "g_SpreadLocal (abAttach h adopt g) = g_SpreadLocal g" "g_Host (abAttach h adopt g) = g_Host g"
  "g_PathPrefix (abAttach h adopt g) = g_PathPrefix g" "g_StripPrefix (abAttach h adopt g) = g_StripPrefix g" "g_Name (abAttach h adopt g) = g_Name g"
  "g_Service (abAttach h adopt g) = g_Service g" "g_RateLimit (abAttach h adopt g) = g_RateLimit g" "g_RateRPM (abAttach h adopt g) = g_RateRPM g"
  "g_AuthRequired (abAttach h adopt g) = g_AuthRequired g" "g_AuthUsers (abAttach h adopt g) = g_AuthUsers g"
  by (simp_all add: abAttach_def split: option.split)

text \<open>An advertised route without the B share.\<close>

definition without_share :: "peerRouteInfo \<Rightarrow> peerRouteInfo" where
  "without_share ri = ri\<lparr>pi_ABID := [], pi_BBackends := 0, pi_BWeight := 0\<rparr>"

lemma route_info_without:
  "map_option without_share (route_info h g) =
     (if advertised h g = [] then None
      else Some \<lparr>pi_Host = g_Host g, pi_PathPrefix = g_PathPrefix g, pi_StripPrefix = g_StripPrefix g, pi_Name = g_Name g, pi_Service = g_Service g,
        pi_Backends = int (length (advertised h g)), pi_Weight = sum_list (map (\<lambda>a. b_Weight (h a)) (advertised h g)), pi_RateLimit = g_RateLimit g,
        pi_RateRPM = g_RateRPM g, pi_Spread = g_SpreadLocal g, pi_ABID = [], pi_BBackends = 0, pi_BWeight = 0\<rparr>)"
  by (simp add: route_info_def without_share_def Let_def split: option.split)

lemma advertised_extended:
  assumes "extends a n g g'" "set (g_Backends g) \<subseteq> {..<a}" "\<forall>x<a. h' x = h x" "\<forall>x. a \<le> x \<and> x < n \<longrightarrow> b_Learned (h' x)"
  shows "advertised h' g' = advertised h g"
proof -
  obtain as sp where g': "g' = g\<lparr>g_Spread := sp, g_Backends := g_Backends g @ as\<rparr>" "set as \<subseteq> {a..<n}" using assms(1) unfolding extends_def by blast
  have "filter (\<lambda>x. \<not> b_Learned (h' x) \<and> \<not> b_draining (h' x)) as = []" using g'(2) assms(4) by (auto simp: filter_empty_conv)
  moreover have "filter (\<lambda>x. \<not> b_Learned (h' x) \<and> \<not> b_draining (h' x)) (g_Backends g) = filter (\<lambda>x. \<not> b_Learned (h x) \<and> \<not> b_draining (h x)) (g_Backends g)"
    using assms(2,3) by (intro filter_cong) auto
  ultimately show ?thesis by (simp add: advertised_def g'(1))
qed

lemma overlay_grown:
  assumes "overlay env now s services m = (s', m')"
  obtains m1 adopt where "grown (learned_backend s') (from_learned s' services) m m1" "s' = expire_routes now (expire_experiments now s)"
    "m' = m1\<lparr>mg_groups := map (abAttach (mg_heap m1) adopt) (mg_groups m1)\<rparr>"
proof -
  let ?s = "expire_routes now (expire_experiments now s)"
  show ?thesis
    by (rule that [of "learn_all env ?s (fst (abTestIDs ?s (mg_groups m))) services m" "snd (abTestIDs ?s (mg_groups m))"])
      (use assms grown_learn_all in \<open>auto simp: overlay_def Let_def case_prod_unfold\<close>)
qed

lemma learned_backend_learned: "learned_backend s b \<Longrightarrow> b_Learned b"
  unfolding learned_backend_def peer_backend_def by blast

lemma from_learned_pool: "from_learned s services g \<Longrightarrow> g_Backends g = pool services (g_Service g) \<and> \<not> g_SpreadLocal g \<and> \<not> g_AuthRequired g \<and> g_AuthUsers g = []"
  by (auto simp: from_learned_def learned_group_def zeroGroup_def pool_def)

text \<open>
  (C15) Routes are not passed on. Whatever peers advertise, a route this proxy has itself is advertised after an overlay exactly as without it (the B share of a test apart): same counts, weights and
  spread flag, so neither learned backends nor an adopted spread flag come back to their origin. A route known only from peers is
  advertised only for local containers of its service.
\<close>

theorem overlay_not_readvertised:
  assumes "overlay env now s services m = (s', m')" and "addresses_below (mg_next m) (mg_groups m) services"
  shows "length (mg_groups m) \<le> length (mg_groups m') \<and>
    (\<forall>i<length (mg_groups m). map_option without_share (route_info (mg_heap m') (mg_groups m' ! i)) = map_option without_share (route_info (mg_heap m) (mg_groups m ! i))) \<and>
    (\<forall>i. length (mg_groups m) \<le> i \<and> i < length (mg_groups m') \<longrightarrow>
       (let g = mg_groups m' ! i
        in advertised (mg_heap m') g = filter (\<lambda>a. \<not> b_Learned (mg_heap m a) \<and> \<not> b_draining (mg_heap m a)) (pool services (g_Service g)) \<and> \<not> g_SpreadLocal g))"
proof -
  obtain m1 adopt where gr: "grown (learned_backend s') (from_learned s' services) m m1"
    and m': "m' = m1\<lparr>mg_groups := map (abAttach (mg_heap m1) adopt) (mg_groups m1)\<rparr>" using overlay_grown [OF assms(1)] by blast
  obtain lgs where l: "list_all2 (extends (mg_next m) (mg_next m1)) (mg_groups m @ lgs) (mg_groups m1)" "\<forall>g\<in>set lgs. from_learned s' services g"
    using gr unfolding grown_def by blast
  have h: "\<forall>x<mg_next m. mg_heap m1 x = mg_heap m x" "\<forall>x. mg_next m \<le> x \<and> x < mg_next m1 \<longrightarrow> b_Learned (mg_heap m1 x)"
    using gr learned_backend_learned unfolding grown_def by auto
  have len: "length (mg_groups m @ lgs) = length (mg_groups m1)" using l(1) by (rule list_all2_lengthD)
  let ?g = "\<lambda>i. (mg_groups m @ lgs) ! i"
  have e: "extends (mg_next m) (mg_next m1) (?g i) (mg_groups m1 ! i)" if "i < length (mg_groups m1)" for i
    using list_all2_nthD2 [OF l(1) that] .
  have below: "set (g_Backends (?g i)) \<subseteq> {..<mg_next m}" if "i < length (mg_groups m1)" for i
  proof (cases "i < length (mg_groups m)")
    case True
    then show ?thesis using assms(2) unfolding addresses_below_def by (simp add: nth_append)
  next
    case False
    then have "?g i \<in> set lgs" using that len by (simp add: nth_append)
    then show ?thesis using from_learned_pool l(2) pool_below [OF assms(2)] by metis
  qed
  have adv: "advertised (mg_heap m1) (mg_groups m1 ! i) = advertised (mg_heap m) (?g i)" if "i < length (mg_groups m1)" for i
    by (rule advertised_extended [OF e [OF that] below [OF that] h])
  have fr: "advertised (mg_heap m') (mg_groups m' ! i) = advertised (mg_heap m1) (mg_groups m1 ! i)" if "i < length (mg_groups m1)" for i
    using that by (simp add: m' advertised_def abAttach_frame)
  have "map_option without_share (route_info (mg_heap m') (mg_groups m' ! i)) = map_option without_share (route_info (mg_heap m) (mg_groups m ! i))"
    if "i < length (mg_groups m)" for i
  proof -
    have i: "i < length (mg_groups m1)" "?g i = mg_groups m ! i" using that len by (auto simp: nth_append)
    have "set (advertised (mg_heap m) (mg_groups m ! i)) \<subseteq> {..<mg_next m}" using below [OF i(1)] unfolding i(2) advertised_def by auto
    then have "sum_list (map (\<lambda>a. b_Weight (mg_heap m1 a)) (advertised (mg_heap m) (mg_groups m ! i))) =
        sum_list (map (\<lambda>a. b_Weight (mg_heap m a)) (advertised (mg_heap m) (mg_groups m ! i)))"
      using h(1) by (intro arg_cong [of _ _ sum_list] map_cong) auto
    moreover obtain as sp where "mg_groups m1 ! i = (mg_groups m ! i)\<lparr>g_Spread := sp, g_Backends := g_Backends (mg_groups m ! i) @ as\<rparr>"
      using e [OF i(1)] unfolding i(2) extends_def by blast
    ultimately show ?thesis unfolding route_info_without fr [OF i(1)] adv [OF i(1)] i(2) using i(1) by (simp add: m' abAttach_frame)
  qed
  moreover have "let g = mg_groups m' ! i
      in advertised (mg_heap m') g = filter (\<lambda>a. \<not> b_Learned (mg_heap m a) \<and> \<not> b_draining (mg_heap m a)) (pool services (g_Service g)) \<and> \<not> g_SpreadLocal g"
    if "length (mg_groups m) \<le> i" "i < length (mg_groups m')" for i
  proof -
    have i: "i < length (mg_groups m1)" using that by (simp add: m')
    then have "?g i \<in> set lgs" using that len by (simp add: nth_append)
    then have p: "g_Backends (?g i) = pool services (g_Service (?g i))" "\<not> g_SpreadLocal (?g i)" using l(2) from_learned_pool by blast+
    obtain as sp where "mg_groups m1 ! i = (?g i)\<lparr>g_Spread := sp, g_Backends := g_Backends (?g i) @ as\<rparr>"
      using e [OF i] unfolding extends_def by blast
    then have "g_Service (mg_groups m' ! i) = g_Service (?g i)" "g_SpreadLocal (mg_groups m' ! i) = g_SpreadLocal (?g i)"
      using i by (simp_all add: m' abAttach_frame)
    with p show ?thesis unfolding Let_def fr [OF i] adv [OF i] by (simp add: advertised_def)
  qed
  moreover have "length (mg_groups m) \<le> length (mg_groups m')" using len by (simp add: m')
  ultimately show ?thesis by blast
qed

subsection \<open>Provenance of peer backends\<close>

lemma expired_stored:
  assumes "stored (expire_routes now (expire_experiments now s)) key peer lr"
  shows "stored s key peer lr \<and> \<not> stale_since (ps_ttl s) now (lr_lastSeen lr)"
  using assms unfolding stored_def by (auto simp: expire_routes_def expire_experiments_def Let_def)

lemma expired_exp:
  assumes "peer_exp (expire_routes now (expire_experiments now s)) peer svc = Some e" "store_wf s"
  shows "peer_exp s peer svc = Some e"
proof -
  let ?s = "expire_routes now (expire_experiments now s)"
  have "inner peer (ps_exps ?s) \<noteq> []" using assms(1) unfolding peer_exp_def by auto
  then have "(peer, inner peer (ps_exps ?s)) \<in> set (ps_exps ?s)" using inner_mem by metis
  then have "(peer, inner peer (ps_exps ?s)) \<in> set (ps_exps s)" by (auto simp: expire_routes_def expire_experiments_def Let_def)
  then have "map_of (ps_exps s) peer = Some (inner peer (ps_exps ?s))" using assms(2) by (simp add: store_wf_def)
  then have "inner peer (ps_exps s) = inner peer (ps_exps ?s)" by (simp add: inner_def)
  with assms(1) show ?thesis by (simp add: peer_exp_def)
qed

text \<open>
  (C14) Only peers with the secret get traffic. Over any run of the mesh, every backend that an overlay adds to a route comes from a route advertised, not longer ago than the time to live, by a push with the
  shared secret; it is marked as learned, so a forwarded request never goes to it, it points at the address of that push, and it is a B backend only if the same
  peer has a validated experiment with the id of the route's B share. The backends of this proxy's own are not touched.
\<close>

theorem overlay_backends_authorised:
  assumes "mesh_run fmt decode secret ops ttl es (s, r)" and "overlay env now s services m = (s', m')"
    and "addresses_below (mg_next m) (mg_groups m) services" and "g \<in> set (mg_groups m')" and "x \<in> set (g_Backends g)"
  shows "x < mg_next m \<and> mg_heap m' x = mg_heap m x \<or>
    (\<exists>key peer lr. route_from (let_in decode secret es) key peer lr \<and> now - lr_lastSeen lr \<le> ttl \<and>
       b_Learned (mg_heap m' x) \<and> b_PeerID (mg_heap m' x) = peer \<and> b_URL (mg_heap m' x) = lr_advertise lr \<and> 1 \<le> b_Weight (mg_heap m' x) \<and>
       (b_Variant (mg_heap m' x) = [] \<or>
        b_Variant (mg_heap m' x) = abVariantB \<and> (\<exists>svc e. exp_from (let_in decode secret es) peer svc e \<and> x_id e = lr_abID lr \<and> lr_abID lr \<noteq> [])))"
proof -
  have ok: "mesh_ok (let_in decode secret es) s" "ps_ttl s = ttl" using mesh_run_ok [OF assms(1)] by simp_all
  obtain m1 adopt where gr: "grown (learned_backend s') (from_learned s' services) m m1" and s': "s' = expire_routes now (expire_experiments now s)"
    and m': "m' = m1\<lparr>mg_groups := map (abAttach (mg_heap m1) adopt) (mg_groups m1)\<rparr>" using overlay_grown [OF assms(2)] by blast
  obtain lgs where l: "list_all2 (extends (mg_next m) (mg_next m1)) (mg_groups m @ lgs) (mg_groups m1)" "\<forall>g\<in>set lgs. from_learned s' services g"
    using gr unfolding grown_def by blast
  obtain g1 where g1: "g1 \<in> set (mg_groups m1)" "x \<in> set (g_Backends g1)" using assms(4,5) by (auto simp: m' abAttach_frame)
  then obtain g0 where g0: "g0 \<in> set (mg_groups m @ lgs)" "extends (mg_next m) (mg_next m1) g0 g1"
    using l(1) by (metis in_set_conv_nth list_all2_conv_all_nth)
  have "set (g_Backends g0) \<subseteq> {..<mg_next m}"
    using g0(1) assms(3) l(2) from_learned_pool pool_below [OF assms(3)] unfolding addresses_below_def by (metis Un_iff set_append)
  moreover have "mg_next m \<le> mg_next m1" using gr unfolding grown_def by blast
  ultimately have "x < mg_next m1" using extends_backends [OF g0(2)] g1(2) by fastforce
  show ?thesis
  proof (cases "x < mg_next m")
    case True
    with gr show ?thesis unfolding grown_def by (simp add: m')
  next
    case False
    with gr \<open>x < mg_next m1\<close> have "learned_backend s' (mg_heap m1 x)" unfolding grown_def by auto
    then obtain key peer lr where lr: "stored s' key peer lr" "peer_backend s' lr (mg_heap m1 x)" unfolding learned_backend_def by blast
    then have st: "stored s key peer lr" "now - lr_lastSeen lr \<le> ttl" using expired_stored ok(2) unfolding s' stale_since_def by force+
    then have from_push: "route_from (let_in decode secret es) key peer lr" using mesh_okD(2) [OF ok(1)] unfolding stored_def by blast
    then have "lr_peerID lr = peer" unfolding route_from_def by blast
    moreover have "exp_from (let_in decode secret es) peer svc e" if "peer_exp s' peer svc = Some e" for svc e
    proof -
      have "peer_exp s peer svc = Some e" using expired_exp that mesh_okD(1) [OF ok(1)] unfolding s' by blast
      then show ?thesis using map_of_SomeD inner_mem [of peer "ps_exps s"] mesh_okD(3) [OF ok(1)] unfolding peer_exp_def by fastforce
    qed
    ultimately show ?thesis using lr(2) st(2) from_push unfolding peer_backend_def by (intro disjI2 exI [of _ key] exI [of _ peer] exI [of _ lr]) (auto simp: m')
  qed
qed

subsection \<open>Authentication is not carried over\<close>

text \<open>Every route known only from peers is open, and serves the local containers of its service.\<close>

lemma learned_routes_open:
  assumes "overlay env now s services m = (s', m')" "length (mg_groups m) \<le> i" "i < length (mg_groups m')"
  shows "\<not> g_AuthRequired (mg_groups m' ! i) \<and> g_AuthUsers (mg_groups m' ! i) = [] \<and>
    set (pool services (g_Service (mg_groups m' ! i))) \<subseteq> set (g_Backends (mg_groups m' ! i))"
proof -
  obtain m1 adopt where gr: "grown (learned_backend s') (from_learned s' services) m m1"
    and m': "m' = m1\<lparr>mg_groups := map (abAttach (mg_heap m1) adopt) (mg_groups m1)\<rparr>" using overlay_grown [OF assms(1)] by blast
  obtain lgs where l: "list_all2 (extends (mg_next m) (mg_next m1)) (mg_groups m @ lgs) (mg_groups m1)" "\<forall>g\<in>set lgs. from_learned s' services g"
    using gr unfolding grown_def by blast
  have i: "i < length (mg_groups m1)" using assms(3) by (simp add: m')
  let ?g = "(mg_groups m @ lgs) ! i"
  have "?g \<in> set lgs" using assms(2) i list_all2_lengthD [OF l(1)] by (simp add: nth_append)
  then have p: "g_Backends ?g = pool services (g_Service ?g)" "\<not> g_AuthRequired ?g" "g_AuthUsers ?g = []" using l(2) from_learned_pool by blast+
  have e: "extends (mg_next m) (mg_next m1) ?g (mg_groups m1 ! i)" using list_all2_nthD2 [OF l(1) i] .
  then obtain as sp where "mg_groups m1 ! i = ?g\<lparr>g_Spread := sp, g_Backends := g_Backends ?g @ as\<rparr>" unfolding extends_def by blast
  with p i show ?thesis by (simp add: m' abAttach_frame)
qed

text \<open>A route of \<^verbatim>\<open>routes.json\<close> on one proxy that requires a login, and a second proxy with a container of the same service that does not have the route.\<close>

definition ex_protected :: RouteGroup where
  "ex_protected = zeroGroup\<lparr>g_Host := ''h'', g_Service := ''web'', g_AuthRequired := True, g_static := True, g_Backends := [0]\<rparr>"

definition ex_container_backend :: Backend where
  "ex_container_backend = makeBackend (\<lambda>s. s) ''http://c'' 1 ''web-1'' [] ''h''"

definition ex_advert :: peerRoutePayload where
  "ex_advert = \<lparr>pp_Peer = ''mac'', pp_Advertise = ''http://p'',
     pp_Routes = List.map_filter (route_info (\<lambda>a. ex_container_backend)) [ex_protected], pp_Experiments = []\<rparr>"

definition ex_advert_store :: PeerRouteStore where
  "ex_advert_store = fst (merge (\<lambda>x. []) 0 (newPeerRouteStore minute) ex_advert)"

definition ex_second :: "rateLimiter Router" where
  "ex_second =
     (let m = snd (overlay ex_assemble_env 0 ex_advert_store [(''web'', [0])] \<lparr>mg_heap = (\<lambda>a. ex_container_backend), mg_next = 1, mg_groups = []\<rparr>)
      in (newRouter (mg_heap m))\<lparr>rt_groups := mg_groups m\<rparr>)"

text \<open>The table of the second proxy, evaluated.\<close>

definition ex_exposed :: RouteGroup where
  "ex_exposed = zeroGroup\<lparr>g_Host := ''h'', g_Service := ''web'', g_Backends := [0, 1]\<rparr>"

definition ex_exposing :: "rateLimiter Router" where
  "ex_exposing = (newRouter ((\<lambda>a. ex_container_backend)(1 := zeroBackend\<lparr>b_URL := ''http://p'', b_Weight := 1, b_Container := ''peer:mac'',
     b_proxy := Some (PeerDirector ''h'' [] False []), b_Learned := True, b_PeerID := ''mac'', b_stickyID := backendStickyID (\<lambda>s. s) ''http://p''\<rparr>)))
     \<lparr>rt_groups := [ex_exposed]\<rparr>"

lemma ex_advert_routes: "pp_Routes ex_advert = [\<lparr>pi_Host = ''h'', pi_PathPrefix = [], pi_StripPrefix = False, pi_Name = [], pi_Service = ''web'', pi_Backends = 1,
     pi_Weight = 1, pi_RateLimit = False, pi_RateRPM = 0, pi_Spread = False, pi_ABID = [], pi_BBackends = 0, pi_BWeight = 0\<rparr>]"
  by (simp add: ex_advert_def List.map_filter_simps route_info_def advertised_def ex_protected_def ex_container_backend_def makeBackend_def zeroBackend_def zeroGroup_def Let_def)

lemma ex_advert_merged: "ps_routes ex_advert_store =
    [(''h|'', [(''mac'', \<lparr>lr_peerID = ''mac'', lr_advertise = ''http://p'', lr_name = [], lr_stripPrefix = False, lr_rateLimit = False, lr_rateRPM = 0, lr_spread = False,
       lr_service = ''web'', lr_backends = 1, lr_weight = 1, lr_abID = [], lr_bBackends = 0, lr_bWeight = 0, lr_lastSeen = 0\<rparr>)])]"
  by (simp add: ex_advert_store_def merge_def ex_advert_routes merge_experiments_def merge_route_def newPeerRouteStore_def inner_def group_key_def learned_from_def peerRouteAB_def peerWeight_def
      Let_def case_prod_unfold) (simp add: ex_advert_def)

lemma ex_advert_rest: "ps_exps ex_advert_store = []" "ps_expSeen ex_advert_store = []" "ps_ttl ex_advert_store = minute" "ps_hopAuth ex_advert_store = []"
  by (simp_all add: ex_advert_store_def merge_def ex_advert_routes merge_experiments_def merge_route_def newPeerRouteStore_def Let_def case_prod_unfold)
    (simp_all add: ex_advert_def validatePeerExperiments_def)

lemma ex_second_eq: "ex_second = ex_exposing"
proof -
  have st: "expire_routes 0 (expire_experiments 0 ex_advert_store) = ex_advert_store"
    by (simp add: expire_routes_def expire_experiments_def ex_advert_merged ex_advert_rest stale_since_def time_units Let_def)
  have "abTestIDs ex_advert_store [] = ([], [])" by (simp add: abTestIDs_def ex_advert_rest)
  then show ?thesis
    by (simp add: ex_second_def ex_exposing_def ex_exposed_def overlay_def st learn_all_def ex_advert_merged ex_advert_rest
        add_learned_def add_to_group_def group_index_def splitRouteKey_def learned_group_def marked_backends_def peer_exp_def inner_def abSplitFor_def peerBackendsFor_def label_def
        makePeerBackendAuth_def ex_assemble_env_def abAttach_def zeroGroup_def hasBBackend_def ex_container_backend_def makeBackend_def zeroBackend_def abVariantB_def Let_def)
qed

lemma ex_exposing_proxied:
  "map (\<lambda>e. (b_Learned (sn_backend e), b_Container (sn_backend e))) (f_log (fst (proxyToGroup ex_fwd_env ''h'' False
    (start_fwd ex_exposing \<lparr>ro_index = 0, ro_group = ex_exposed, ro_req = ex_anonymous, ro_body = no_body, ro_host = ''h'', ro_hopped = False,
       ro_pin = [], ro_ab = None\<rparr> (new_wr [] None))))) = [(False, ''web-1'')]"
  by code_simp

lemma ex_exposing_log: "sv_log (ServeHTTP mem_ops ex_http_env ex_exposing ex_anonymous no_body) = f_log (fst (proxyToGroup ex_fwd_env ''h'' False
    (start_fwd ex_exposing \<lparr>ro_index = 0, ro_group = ex_exposed, ro_req = ex_anonymous, ro_body = no_body, ro_host = ''h'', ro_hopped = False,
       ro_pin = [], ro_ab = None\<rparr> (new_wr [] None))))"
proof -
  have s: "strip_inbound ex_anonymous = ex_anonymous" "is_hopped ex_anonymous = False" "hostOnly ''h'' = ''h''" by code_simp+
  have r: "rq_Host ex_anonymous = ''h''" "rq_Path ex_anonymous = ''/''" "rt_auth ex_exposing = None" "rt_tombstones ex_exposing = []" "he_fwd ex_http_env = ex_fwd_env"
    "rt_groups ex_exposing = [ex_exposed]"
    by (simp_all add: ex_anonymous_def ex_exposing_def newRouter_def ex_http_env_def)
  have "route_match ''h'' ''/'' ex_exposed" by code_simp
  then have "find_route 0 ''h'' ''/'' [ex_exposed] = Some (0, ex_exposed)" by simp
  moreover have "g_limiter ex_exposed = None" "\<not> g_AuthRequired ex_exposed" "g_cache ex_exposed = None" "g_ab ex_exposed = None" "\<not> g_StripPrefix ex_exposed"
    "\<not> g_Sticky ex_exposed" "g_DropHeaders ex_exposed = []" by (simp_all add: ex_exposed_def zeroGroup_def)
  ultimately show ?thesis using plain_route_log [of ex_exposing ex_anonymous 0 ex_exposed mem_ops ex_http_env no_body]
    by (simp add: r s handleOAuthWellKnown_def del: find_route.simps)
qed


subsection \<open>Witnesses\<close>

abbreviation ex_meshing :: meshing where
  "ex_meshing \<equiv> \<lparr>mg_heap = (\<lambda>a. ex_container_backend), mg_next = 1, mg_groups = []\<rparr>"

lemma ex_advert_run: "mesh_run (\<lambda>x. []) (\<lambda>body. Some ex_advert) ''k'' mem_ops minute [(ex_push, [], 0)]
    (ex_advert_store, applyAB 0 ''mac'' ex_advert_store (newRouter (\<lambda>a. zeroBackend)))"
proof -
  have "bearer_refused ''k'' ex_push = None" by code_simp
  then have "peerRoutesHandler (\<lambda>x. []) (\<lambda>body. Some ex_advert) (refresh ex_assemble_env mem_ops BadConfig None None 0 0) ''k'' 0 ex_push []
      (newPeerRouteStore minute, newRouter (\<lambda>a. zeroBackend)) = Some (204, ex_advert_store, applyAB 0 ''mac'' ex_advert_store (newRouter (\<lambda>a. zeroBackend)))"
    by (simp add: peerRoutesHandler_def refresh_def assembleGroupsWithOverlay_def ex_advert_store_def Let_def case_prod_unfold cong: if_cong)
      (simp add: ex_advert_def)
  from mesh_push [OF mesh_start this] show ?thesis by simp
qed

lemma ex_overlaid:
  assumes "overlay ex_assemble_env 0 ex_advert_store [(''web'', [0])] ex_meshing = (s', m')"
  shows "mg_groups m' = [ex_exposed]" "mg_heap m' = rt_heap ex_exposing"
  using ex_second_eq assms by (simp_all add: ex_second_def ex_exposing_def newRouter_def)

lemma ex_below: "addresses_below (mg_next ex_meshing) (mg_groups ex_meshing) [(''web'', [0])]"
  by (simp add: addresses_below_def)

theorem overlay_not_readvertised_witness:
  "\<exists>s' m'. overlay ex_assemble_env 0 ex_advert_store [(''web'', [0])] ex_meshing = (s', m') \<and> advertised (mg_heap m') (mg_groups m' ! 0) = [0]"
proof -
  obtain s' m' where o: "overlay ex_assemble_env 0 ex_advert_store [(''web'', [0])] ex_meshing = (s', m')" by fastforce
  from overlay_not_readvertised [OF o ex_below]
  have "advertised (mg_heap m') (mg_groups m' ! 0) = [0]"
    by (simp add: ex_overlaid [OF o] Let_def pool_def) (simp add: ex_exposed_def zeroGroup_def ex_container_backend_def makeBackend_def zeroBackend_def)
  with o show ?thesis by blast
qed

theorem overlay_backends_authorised_witness:
  "\<exists>s' m' key lr. overlay ex_assemble_env 0 ex_advert_store [(''web'', [0])] ex_meshing = (s', m') \<and>
     route_from (let_in (\<lambda>body. Some ex_advert) ''k'' [(ex_push, [], 0)]) key ''mac'' lr \<and> b_URL (mg_heap m' 1) = lr_advertise lr"
proof -
  obtain s' m' where o: "overlay ex_assemble_env 0 ex_advert_store [(''web'', [0])] ex_meshing = (s', m')" by fastforce
  have b: "b_PeerID (mg_heap m' 1) = ''mac''" "1 \<in> set (g_Backends ex_exposed)" "ex_exposed \<in> set (mg_groups m')"
    by (simp_all add: ex_overlaid [OF o] ex_exposing_def newRouter_def ex_exposed_def)
  from overlay_backends_authorised [OF ex_advert_run o ex_below b(3,2)] o b(1) show ?thesis by auto
qed

end
