(* ===== verification/Spec2Isabelle.thy ===== *)
theory Spec2Isabelle
  imports OverlayLaws
begin

text \<open>
  Verification of the reverse proxy of \<^verbatim>\<open>proxy-manager\<close> (\<^verbatim>\<open>cmd/proxy\<close>, with \<^verbatim>\<open>internal/sso\<close> and \<^verbatim>\<open>internal/httpx\<close>).

  \<^bold>\<open>The program.\<close> The proxy discovers containers by their labels, groups them into routes (host and path prefix),
  and forwards each request to a backend of the longest matching route. Around the forwarding sit a rate limiter
  per route (in memory, or shared in Redis behind a circuit breaker), an authentication gate (session cookies,
  dashboard tokens, OAuth access tokens), a response cache with single flight, and A/B tests of container versions
  that a judge can abort. Peers of a mesh share routes and test counters.

  \<^bold>\<open>Theories.\<close>

  \<^item> \<open>Prelude\<close>: Go strings, integers, time, maps as association lists, stable sorting, loops that thread a state.
  \<^item> \<open>RateLimit\<close> (\<^verbatim>\<open>ratelimit.go\<close>): token buckets; rate bound over any run, transparency of the collector, bounded table.
    The bound is proved once in a locale of limiters and interpreted for the in-memory and the Redis limiter.
  \<^item> \<open>RedisLimit\<close> (\<^verbatim>\<open>redisrl.go\<close>): the Lua script on a key-value store, the breaker, the fallback; refinement of the
    in-memory bucket, bound under outages, over-granting under clock skew.
  \<^item> \<open>Backend\<close> (\<^verbatim>\<open>router.go\<close>, \<^verbatim>\<open>health.go\<close>): backends and groups, probes with hysteresis, weighted round robin with tiers.
  \<^item> \<open>Http\<close>, \<open>Ip\<close>: what the code uses of \<^verbatim>\<open>net/http\<close>, \<^verbatim>\<open>net\<close>, \<^verbatim>\<open>strconv\<close> and \<^verbatim>\<open>time\<close>.
  \<^item> \<open>Cache\<close> (\<^verbatim>\<open>cache.go\<close>): bounded store, single flight, keys, eligibility, recorder.
  \<^item> \<open>Sso\<close> (\<^verbatim>\<open>internal/sso\<close>): signed cookies and OAuth blobs; MAC and JSON are parameters.
  \<^item> \<open>AuthGate\<close> (\<^verbatim>\<open>auth.go\<close>, \<^verbatim>\<open>oauth.go\<close>): authorization, client address, bearer cache.
  \<^item> \<open>ABConfig\<close>, \<open>ABRun\<close>, \<open>ABRoute\<close> (\<^verbatim>\<open>abtest.go\<close>, \<^verbatim>\<open>abmesh.go\<close>, labels of \<^verbatim>\<open>docker.go\<close>): label parser and scan, counters,
    windows, judge, merge and latch, assignment and pins.
  \<^item> \<open>RouterState\<close> (\<^verbatim>\<open>router.go\<close>, events of \<^verbatim>\<open>main.go\<close>): the route table and its refresh.

  \<^item> \<open>Forward\<close>, \<open>ForwardLaws\<close>, \<open>ForwardInv\<close> (\<^verbatim>\<open>router.go\<close>, \<^verbatim>\<open>abtest.go\<close>): the directors, the reverse proxy's treatment of headers, informational
    responses and errors, the replay of bodies, the retry loops; what is sent to whom, failover, recording of A/B requests.
  \<^item> \<open>Serve\<close>, \<open>ServeLaws\<close> (\<^verbatim>\<open>ServeHTTP\<close> and what it calls): the request pipeline and the end-to-end properties: admission, attribution,
    protection, rates, caches, hops.
  \<^item> \<open>Labels\<close> (\<^verbatim>\<open>internal/labels\<close>, \<^verbatim>\<open>labeloverlay.go\<close>): registry and validation of central labels, the overlay and its manager.
  \<^item> \<open>Assemble\<close> (\<^verbatim>\<open>assembleGroupsWithOverlay\<close>): from \<^verbatim>\<open>routes.json\<close> and container labels to route groups; the merging of replicas,
    protection by any replica, where backends come from.
  \<^item> \<open>PeerWire\<close>, \<open>PeerMesh\<close>, \<open>MeshLaws\<close> (\<^verbatim>\<open>abmesh.go\<close>, \<^verbatim>\<open>peermerge.go\<close>, \<^verbatim>\<open>peersync.go\<close>, \<^verbatim>\<open>peers.go\<close>): experiments on the wire, the store of learned routes, the
    overlay, the advertisement, the handlers and the refresh; runs of the mesh as an inductive predicate over the pushes received.

  \<^bold>\<open>State and interaction.\<close> A refresh (\<open>refresh\<close>) assembles groups, overlays what peers advertise and installs the result with \<open>Set\<close>; backends are objects in a heap (\<open>bheap\<close>), since
  groups, service pools and the health checker share them. A request runs through \<open>ServeHTTP\<close> on the router's state. A push runs through \<open>peerRoutesHandler\<close>.

  \<^bold>\<open>Bounds.\<close> The retry loop runs at most \<open>maxRetries\<close> (three) rounds and is a recursion over that number, as in the code; every other loop of the model is a recursion over its data, so there
  is no fuel. Sizes at which theorems stop (the cursor below \<open>2 ^ 63\<close>, counters below \<open>2 ^ 63\<close>, a million peers) are premises of the theorems concerned.

  \<^bold>\<open>Conventions.\<close> Goroutines and mutexes are sequences of atomic operations; a panic is \<open>None\<close> or \<open>Panicked\<close>; times are
  integers in nanoseconds; floating-point counts are exact rationals; answers of Docker, Redis, peers, the dashboard
  and backends are arguments.

  \<^bold>\<open>Not modelled.\<close> The Docker client, the listeners, flags and tickers of \<^verbatim>\<open>main.go\<close>, metrics, access log and their files are I/O around the logic above. The other programs of the
  repository (\<^verbatim>\<open>cmd/auth\<close>, \<^verbatim>\<open>cmd/dashboard\<close>, \<^verbatim>\<open>cmd/edge\<close>, \<^verbatim>\<open>cmd/monitor\<close>, \<^verbatim>\<open>cmd/statusbot\<close>) talk to the proxy over HTTP, Redis and Docker labels and enter as the environment; response
  trailers and the bytes of an upgraded connection are outside the model.
\<close>

end
